(* ===== verification/Prelude.thy ===== *)
theory Prelude
  imports Main "HOL-Library.Word" "HOL-Library.AList" "HOL-Library.Multiset" "HOL-Library.Sublist"
begin

text \<open>
  Shared vocabulary of the development. It holds the types every component uses
  (byte strings, 64-bit sizes, peer endpoints, exceptions), the result monad in which
  a C++ \<^verbatim>\<open>throw\<close> is the value \<open>Inl e\<close>, the collections \<open>result_iff\<close> and
  \<open>text_simps\<close> that carry the component proofs, and generic lemmas on association
  lists (the model of \<^verbatim>\<open>std::unordered_map\<close>), sums of machine words, prefixes and
  the sorting contract of \<^verbatim>\<open>std::sort\<close>.
\<close>

section \<open>Collections\<close>

named_theorems result_iff
named_theorems text_simps


section \<open>Types shared by the components\<close>

text \<open>
  \<^verbatim>\<open>std::string\<close> and \<^verbatim>\<open>std::vector<char>\<close> are both sequences of 8-bit characters, so
  both are \<open>char list\<close>; \<^verbatim>\<open>std::uint8_t\<close> and \<^verbatim>\<open>unsigned char\<close> are \<open>8 word\<close>;
  \<^verbatim>\<open>std::uint64_t\<close> and \<^verbatim>\<open>std::size_t\<close> are \<open>64 word\<close>.
\<close>

type_synonym bytes = "char list"
type_synonym octet = "8 word"
type_synonym u32 = "32 word"
type_synonym u64 = "64 word"

abbreviation NL :: char where "NL \<equiv> CHR 0x0A"
abbreviation CR :: char where "CR \<equiv> CHR 0x0D"
abbreviation SP :: char where "SP \<equiv> CHR 0x20"

text \<open>The struct \<^verbatim>\<open>dss::PeerEndpoint\<close>. The C++ \<^verbatim>\<open>int\<close> is an HOL integer.\<close>

record peer_endpoint =
  ip :: string
  port :: int

text \<open>
  The exceptions the program throws, by C++ class. \<open>System_error\<close> is the
  \<^verbatim>\<open>runtime_error\<close> built by \<^verbatim>\<open>sys_err\<close>, whose message ends with \<^verbatim>\<open>strerror(errno)\<close>;
  only its first part is kept.
\<close>

datatype exn =
    Invalid_argument string
  | Out_of_range string
  | Length_error string
  | Runtime_error string
  | System_error string
  | Filesystem_error string

text \<open>\<^verbatim>\<open>what()\<close>. The texts of a \<^verbatim>\<open>length_error\<close> are those of libstdc++.\<close>

fun exn_what :: "exn \<Rightarrow> string" where
  "exn_what (Invalid_argument s) = s"
| "exn_what (Out_of_range s) = s"
| "exn_what (Length_error s) = s"
| "exn_what (Runtime_error s) = s"
| "exn_what (System_error s) = s"
| "exn_what (Filesystem_error s) = s"

type_synonym 'a result = "exn + 'a"

section \<open>The result monad\<close>

definition bindR :: "'a result \<Rightarrow> ('a \<Rightarrow> 'b result) \<Rightarrow> 'b result" where
  "bindR m f = (case m of Inl e \<Rightarrow> Inl e | Inr x \<Rightarrow> f x)"

lemma bindR_simps [simp]:
  "bindR (Inl e) f = Inl e"
  "bindR (Inr x) f = f x"
  by (simp_all add: bindR_def)

lemma bindR_Inr_iff [result_iff]:
  "bindR m f = Inr y \<longleftrightarrow> (\<exists>x. m = Inr x \<and> f x = Inr y)"
  by (cases m) auto

lemma bindR_Inl_iff [result_iff]:
  "bindR m f = Inl e \<longleftrightarrow> m = Inl e \<or> (\<exists>x. m = Inr x \<and> f x = Inl e)"
  by (cases m) auto

text \<open>Run an operation over a list, left to right, stopping at the first exception.\<close>

fun mapR :: "('a \<Rightarrow> 'b result) \<Rightarrow> 'a list \<Rightarrow> 'b list result" where
  "mapR f [] = Inr []"
| "mapR f (x # xs) = bindR (f x) (\<lambda>y. bindR (mapR f xs) (\<lambda>ys. Inr (y # ys)))"

lemma mapR_Inr_iff [result_iff]:
  "mapR f xs = Inr ys \<longleftrightarrow> list_all2 (\<lambda>x y. f x = Inr y) xs ys"
  by (induction xs arbitrary: ys) (auto simp: result_iff list_all2_Cons1)

lemma mapR_all_Inr: "(\<And>x. x \<in> set xs \<Longrightarrow> f x = Inr (g x)) \<Longrightarrow> mapR f xs = Inr (map g xs)"
  by (induction xs) auto

lemma list_all2_mem2: "list_all2 P xs ys \<Longrightarrow> y \<in> set ys \<Longrightarrow> \<exists>x \<in> set xs. P x y"
  by (induction rule: list_all2_induct) auto

section \<open>Association lists as hash maps\<close>

text \<open>
  An \<^verbatim>\<open>unordered_map\<close> is an association list without repeated keys; the list order
  is the iteration order, which C++ leaves open. \<open>AList.update\<close> replaces in place or
  appends, \<open>AList.delete\<close> erases.
\<close>

lemma map_of_update [simp]: "map_of (AList.update k v al) = (map_of al)(k \<mapsto> v)"
  by (simp add: update_conv')

lemma map_of_delete [simp]: "map_of (AList.delete k al) = (map_of al)(k := None)"
  by (simp add: delete_conv')

lemma distinct_update_keys [simp]:
  "distinct (map fst al) \<Longrightarrow> distinct (map fst (AList.update k v al))"
  by (rule distinct_update)

lemma distinct_delete_keys [simp]:
  "distinct (map fst al) \<Longrightarrow> distinct (map fst (AList.delete k al))"
  by (rule distinct_delete)

lemma delete_as_filter: "AList.delete k al = filter (\<lambda>p. fst p \<noteq> k) al"
  by (induction al) (auto simp: AList.delete_eq)

lemma delete_notin: "k \<notin> fst ` set al \<Longrightarrow> AList.delete k al = al"
  by (auto simp: delete_as_filter filter_id_conv)

lemma update_notin: "k \<notin> fst ` set al \<Longrightarrow> AList.update k v al = al @ [(k, v)]"
  by (induction al) auto

lemma length_delete_less:
  "(k, v) \<in> set al \<Longrightarrow> length (AList.delete k al) < length al"
  by (induction al) (auto simp: delete_as_filter le_imp_less_Suc)

lemma mset_delete:
  "distinct (map fst al) \<Longrightarrow> (k, v) \<in> set al \<Longrightarrow> mset al = add_mset (k, v) (mset (AList.delete k al))"
proof (induction al)
  case Nil
  then show ?case by simp
next
  case (Cons p al)
  then show ?case
    by (cases p) (auto simp: delete_notin rev_image_eqI)
qed

lemma mset_update_notin:
  "k \<notin> fst ` set al \<Longrightarrow> mset (AList.update k v al) = add_mset (k, v) (mset al)"
  by (simp add: update_notin)

lemma mset_update:
  assumes "distinct (map fst al)"
  shows "mset (AList.update k v al) = add_mset (k, v) (mset (AList.delete k al))"
  using assms
proof (induction al)
  case Nil
  then show ?case by simp
next
  case (Cons p al)
  then show ?case
    by (cases p) (auto simp: delete_notin rev_image_eqI)
qed

lemma set_update_iff:
  "distinct (map fst al) \<Longrightarrow>
   set (AList.update k v al) = insert (k, v) {p \<in> set al. fst p \<noteq> k}"
  using mset_update [of al k v] by (auto simp: delete_as_filter dest: arg_cong [of _ _ set_mset])

lemma map_of_eq_Some_iff_mem:
  "distinct (map fst al) \<Longrightarrow> map_of al k = Some v \<longleftrightarrow> (k, v) \<in> set al"
  by (rule map_of_eq_Some_iff)

section \<open>Sums of sizes held in machine words\<close>

lemma unat_add_no_wrap:
  "unat (a :: u64) + unat b < 2 ^ 64 \<Longrightarrow> unat (a + b) = unat a + unat b"
  by (simp add: unat_word_ariths)

lemma unat_diff_no_wrap: "(b :: u64) \<le> a \<Longrightarrow> unat (a - b) = unat a - unat b"
  by (simp add: unat_sub)

lemma unat_succ_no_wrap: "(a :: u64) \<noteq> -1 \<Longrightarrow> unat (a + 1) = unat a + 1"
proof -
  assume "a \<noteq> -1"
  then have "1 + a \<noteq> 0" by (metis add.commute eq_neg_iff_add_eq_0)
  then show ?thesis by (metis Suc_eq_plus1 add.commute unatSuc)
qed

lemma unat_u64_max: "unat (- 1 :: u64) = 18446744073709551615"
  by (simp add: unsigned_minus_1_eq_mask mask_eq_exp_minus_1)

lemma unat_u64_bound: "unat (a :: u64) < 18446744073709551616"
  using unsigned_less [where w = a] by simp

lemma uint_u64_bound: "uint (a :: u64) < 18446744073709551616"
  using uint_bounded [of a] by simp

lemma unat_of_nat_u64: "n < 2 ^ 64 \<Longrightarrow> unat (of_nat n :: u64) = n"
  by (simp add: unat_of_nat)

section \<open>Sorting with a C++ comparison\<close>

text \<open>
  \<^verbatim>\<open>std::sort(first, last, comp)\<close> asks that \<open>comp\<close> is a strict weak order. Here the
  stronger contract the program meets is stated: a strict order that is total on the
  keys at hand. Sorting is insertion sort; the locale shows that every permutation
  sorted by \<open>comp\<close> is the same list, so any algorithm behind \<^verbatim>\<open>std::sort\<close> gives it.
\<close>

fun insert_by :: "('a \<Rightarrow> 'a \<Rightarrow> bool) \<Rightarrow> 'a \<Rightarrow> 'a list \<Rightarrow> 'a list" where
  "insert_by lt x [] = [x]"
| "insert_by lt x (y # ys) = (if lt y x then y # insert_by lt x ys else x # y # ys)"

fun sort_by :: "('a \<Rightarrow> 'a \<Rightarrow> bool) \<Rightarrow> 'a list \<Rightarrow> 'a list" where
  "sort_by lt [] = []"
| "sort_by lt (x # xs) = insert_by lt x (sort_by lt xs)"

lemma mset_insert_by: "mset (insert_by lt x xs) = add_mset x (mset xs)"
  by (induction xs) auto

lemma mset_sort_by [simp]: "mset (sort_by lt xs) = mset xs"
  by (induction xs) (auto simp: mset_insert_by)

lemma set_sort_by [simp]: "set (sort_by lt xs) = set xs"
  by (rule mset_eq_setD) simp

lemma length_sort_by [simp]: "length (sort_by lt xs) = length xs"
  by (rule mset_eq_length) simp

lemma set_insert_by: "set (insert_by lt x xs) = insert x (set xs)"
  using arg_cong [OF mset_insert_by, of set_mset] by simp

locale strict_order_on =
  fixes lt :: "'a \<Rightarrow> 'a \<Rightarrow> bool" and A :: "'a set"
  assumes irrefl: "x \<in> A \<Longrightarrow> \<not> lt x x"
    and trans: "x \<in> A \<Longrightarrow> y \<in> A \<Longrightarrow> z \<in> A \<Longrightarrow> lt x y \<Longrightarrow> lt y z \<Longrightarrow> lt x z"
    and total: "x \<in> A \<Longrightarrow> y \<in> A \<Longrightarrow> x \<noteq> y \<Longrightarrow> lt x y \<or> lt y x"
begin

lemma asym: "x \<in> A \<Longrightarrow> y \<in> A \<Longrightarrow> lt x y \<Longrightarrow> \<not> lt y x"
  using irrefl trans by blast

lemma insert_by_sorted:
  "f ` set xs \<subseteq> A \<Longrightarrow> f x \<in> A \<Longrightarrow> f x \<notin> f ` set xs \<Longrightarrow> sorted_wrt (\<lambda>a b. lt (f a) (f b)) xs \<Longrightarrow>
   sorted_wrt (\<lambda>a b. lt (f a) (f b)) (insert_by (\<lambda>a b. lt (f a) (f b)) x xs)"
proof (induction xs)
  case Nil
  then show ?case by simp
next
  case (Cons y ys)
  show ?case
  proof (cases "lt (f y) (f x)")
    case True
    with Cons show ?thesis by (auto simp: set_insert_by)
  next
    case False
    with Cons.prems have "lt (f x) (f y)" using total by auto
    moreover have "lt (f x) (f z)" if "z \<in> set ys" for z
      using that Cons.prems \<open>lt (f x) (f y)\<close> trans [of "f x" "f y" "f z"] by auto
    ultimately show ?thesis using Cons.prems False by auto
  qed
qed

lemma sort_by_sorted:
  "f ` set xs \<subseteq> A \<Longrightarrow> distinct (map f xs) \<Longrightarrow>
   sorted_wrt (\<lambda>a b. lt (f a) (f b)) (sort_by (\<lambda>a b. lt (f a) (f b)) xs)"
  by (induction xs) (auto intro!: insert_by_sorted)

lemma sorted_unique:
  "f ` set xs \<subseteq> A \<Longrightarrow> mset xs = mset ys \<Longrightarrow> sorted_wrt (\<lambda>a b. lt (f a) (f b)) xs \<Longrightarrow>
   sorted_wrt (\<lambda>a b. lt (f a) (f b)) ys \<Longrightarrow> xs = ys"
proof (induction xs arbitrary: ys)
  case Nil
  then show ?case by simp
next
  case (Cons x xs)
  then obtain y ys' where ys: "ys = y # ys'" by (cases ys) auto
  have sets: "insert x (set xs) = insert y (set ys')"
    using Cons.prems(2) ys by (metis list.simps(15) mset_eq_setD)
  have "x = y"
  proof (rule ccontr)
    assume "x \<noteq> y"
    with sets have "x \<in> set ys'" "y \<in> set xs" by auto
    with Cons.prems ys have "lt (f x) (f y)" "lt (f y) (f x)" by auto
    moreover have "f x \<in> A" "f y \<in> A" using Cons.prems(1) \<open>y \<in> set xs\<close> by auto
    ultimately show False using asym by blast
  qed
  with Cons ys show ?case by auto
qed

lemma sort_by_unique:
  assumes "f ` set xs \<subseteq> A" "distinct (map f xs)" "mset ys = mset xs"
    "sorted_wrt (\<lambda>a b. lt (f a) (f b)) ys"
  shows "ys = sort_by (\<lambda>a b. lt (f a) (f b)) xs"
proof (rule sorted_unique)
  show "f ` set ys \<subseteq> A" using assms(1,3) by (metis mset_eq_setD)
  show "mset ys = mset (sort_by (\<lambda>a b. lt (f a) (f b)) xs)" using assms(3) by simp
  show "sorted_wrt (\<lambda>a b. lt (f a) (f b)) ys" by fact
  show "sorted_wrt (\<lambda>a b. lt (f a) (f b)) (sort_by (\<lambda>a b. lt (f a) (f b)) xs)"
    using assms by (simp add: sort_by_sorted)
qed

lemma take_sort_by_least:
  assumes "f ` set xs \<subseteq> A" "distinct (map f xs)" "a \<in> set (take k (sort_by (\<lambda>a b. lt (f a) (f b)) xs))"
    "b \<in> set (drop k (sort_by (\<lambda>a b. lt (f a) (f b)) xs))"
  shows "lt (f a) (f b)"
proof -
  have "sorted_wrt (\<lambda>a b. lt (f a) (f b)) (take k (sort_by (\<lambda>a b. lt (f a) (f b)) xs)
      @ drop k (sort_by (\<lambda>a b. lt (f a) (f b)) xs))"
    using assms(1,2) by (simp add: sort_by_sorted)
  then show ?thesis using assms(3,4) unfolding sorted_wrt_append by blast
qed

end

section \<open>Prefixes as the code tests them\<close>

text \<open>\<^verbatim>\<open>s.rfind(p, 0) == 0\<close> holds exactly when \<open>p\<close> is a prefix of \<open>s\<close>.\<close>

definition starts_with :: "string \<Rightarrow> string \<Rightarrow> bool" where
  "starts_with s p = (take (length p) s = p)"

lemma starts_with_append [simp]: "starts_with (p @ s) p"
  by (simp add: starts_with_def)

lemma starts_with_iff: "starts_with s p \<longleftrightarrow> (\<exists>t. s = p @ t)"
  unfolding starts_with_def by (metis append_eq_conv_conj append_take_drop_id)

section \<open>Counting with filters\<close>

lemma length_filter_split:
  "(\<And>x. x \<in> set xs \<Longrightarrow> P x \<Longrightarrow> Q x) \<Longrightarrow>
   length (filter Q xs) = length (filter P xs) + length (filter Q (filter (\<lambda>x. \<not> P x) xs))"
  by (induction xs) auto

lemma length_filter_take:
  "(\<forall>x \<in> set (take n xs). Q x) \<Longrightarrow> min n (length xs) \<le> length (filter Q xs)"
proof -
  assume "\<forall>x \<in> set (take n xs). Q x"
  then have "filter Q xs = take n xs @ filter Q (drop n xs)"
    by (metis append_take_drop_id filter_append filter_True)
  then show ?thesis by simp
qed

lemma length_filter_mono: "(\<And>x. x \<in> set xs \<Longrightarrow> P x \<Longrightarrow> Q x) \<Longrightarrow> length (filter P xs) \<le> length (filter Q xs)"
  by (induction xs) (auto intro: le_SucI)

end
