(* ===== verification/Iostream.thy ===== *)
theory Iostream
  imports Prelude
begin

text \<open>
  The part of the C++ standard library that every text format of the program goes
  through: formatted extraction from an \<^verbatim>\<open>istringstream\<close> (\<^verbatim>\<open>operator>>\<close> into a string, a
  \<^verbatim>\<open>size_t\<close>/\<^verbatim>\<open>uint64_t\<close> and an \<^verbatim>\<open>int\<close>), \<^verbatim>\<open>std::getline\<close>, decimal output, and the numeric
  conversions \<^verbatim>\<open>std::stoi\<close> and \<^verbatim>\<open>std::stoull\<close>. The locale \<open>field_codec\<close> states
  the contract between what is written and what is extracted again; it is interpreted
  for tokens, 64-bit sizes and \<^verbatim>\<open>int\<close>s, and the formats of the manifest, the metadata
  file and the wire protocol rest on it.
\<close>

section \<open>Characters\<close>

text \<open>\<^verbatim>\<open>std::isspace\<close> and \<^verbatim>\<open>std::isdigit\<close> in the C locale.\<close>

definition isspace :: "char \<Rightarrow> bool" where
  "isspace c \<longleftrightarrow> c \<in> {CHR 0x20, CHR 0x09, CHR 0x0A, CHR 0x0B, CHR 0x0C, CHR 0x0D}"

definition isdigit :: "char \<Rightarrow> bool" where
  "isdigit c \<longleftrightarrow> 48 \<le> (of_char c :: nat) \<and> (of_char c :: nat) \<le> 57"

definition digit_val :: "char \<Rightarrow> nat" where
  "digit_val c = of_char c - 48"

definition digit_char :: "nat \<Rightarrow> char" where
  "digit_char n = char_of (48 + n)"

definition digits_val :: "string \<Rightarrow> nat" where
  "digits_val ds = foldl (\<lambda>n c. 10 * n + digit_val c) 0 ds"

section \<open>Decimal output\<close>

fun show_nat :: "nat \<Rightarrow> string" where
  "show_nat n = (if n < 10 then [digit_char n] else show_nat (n div 10) @ [digit_char (n mod 10)])"

declare show_nat.simps [simp del]

definition show_u64 :: "u64 \<Rightarrow> string" where
  "show_u64 w = show_nat (unat w)"

definition show_int :: "int \<Rightarrow> string" where
  "show_int i = (if i < 0 then CHR ''-'' # show_nat (nat (- i)) else show_nat (nat i))"

section \<open>Formatted input\<close>

text \<open>
  An input stream is the text still to read and its fail bit. The end-of-file bit is
  not kept: an extraction from a stream at its end fails and leaves its target alone
  whether or not that bit was set before.
\<close>

record istream =
  in_rest :: string
  in_fail :: bool

definition istringstream :: "string \<Rightarrow> istream" where
  "istringstream s = \<lparr>in_rest = s, in_fail = False\<rparr>"

text \<open>
  \<^verbatim>\<open>in >> str\<close>: skip white space; with nothing left the fail bit is set and \<open>str\<close>
  keeps its old value, otherwise the characters up to the next white space are taken.
\<close>

definition read_token :: "string \<Rightarrow> istream \<Rightarrow> string \<times> istream" where
  "read_token old s =
     (if in_fail s then (old, s)
      else let r = dropWhile isspace (in_rest s) in
        if r = [] then (old, s\<lparr>in_rest := [], in_fail := True\<rparr>)
        else (takeWhile (\<lambda>c. \<not> isspace c) r, s\<lparr>in_rest := dropWhile (\<lambda>c. \<not> isspace c) r\<rparr>))"

fun split_sign :: "string \<Rightarrow> bool \<times> string" where
  "split_sign [] = (False, [])"
| "split_sign (c # cs) =
     (if c = CHR ''-'' then (True, cs) else if c = CHR ''+'' then (False, cs) else (False, c # cs))"

text \<open>An optional sign and the digits after it; \<open>None\<close> when there is no digit.\<close>

definition scan_int :: "string \<Rightarrow> int option \<times> string" where
  "scan_int r =
     (case split_sign r of (neg, r1) \<Rightarrow>
       (let ds = takeWhile isdigit r1 in
        (if ds = [] then None
         else Some ((if neg then - 1 else 1) * int (digits_val ds)), dropWhile isdigit r1)))"

text \<open>
  \<^verbatim>\<open>num_get\<close> as C++11 defines it: no digits give 0 and the fail bit, a value out of range
  gives the nearest bound and the fail bit. A negative number read into an unsigned
  type is negated modulo \<open>2 ^ 64\<close>, as \<^verbatim>\<open>strtoull\<close> does.
\<close>

definition to_u64 :: "int option \<Rightarrow> u64 \<times> bool" where
  "to_u64 v = (case v of None \<Rightarrow> (0, True)
     | Some i \<Rightarrow> if \<bar>i\<bar> < 2 ^ 64 then (of_int i, False) else (- 1, True))"

definition to_int :: "int option \<Rightarrow> int \<times> bool" where
  "to_int v = (case v of None \<Rightarrow> (0, True)
     | Some i \<Rightarrow> if i < - (2 ^ 31) then (- (2 ^ 31), True)
                 else if i \<ge> 2 ^ 31 then (2 ^ 31 - 1, True) else (i, False))"

definition read_num :: "(int option \<Rightarrow> 'a \<times> bool) \<Rightarrow> 'a \<Rightarrow> istream \<Rightarrow> 'a \<times> istream" where
  "read_num conv old s =
     (if in_fail s then (old, s)
      else let r = dropWhile isspace (in_rest s) in
        if r = [] then (old, s\<lparr>in_rest := [], in_fail := True\<rparr>)
        else (case scan_int r of (v, r') \<Rightarrow>
               (case conv v of (x, bad) \<Rightarrow> (x, s\<lparr>in_rest := r', in_fail := bad\<rparr>))))"

definition read_u64 :: "u64 \<Rightarrow> istream \<Rightarrow> u64 \<times> istream" where
  "read_u64 = read_num to_u64"

definition read_int :: "int \<Rightarrow> istream \<Rightarrow> int \<times> istream" where
  "read_int = read_num to_int"

section \<open>Lines\<close>

text \<open>The lines that \<^verbatim>\<open>while (std::getline(in, line, d))\<close> yields.\<close>

fun getlines :: "char \<Rightarrow> string \<Rightarrow> string list" where
  "getlines d [] = []"
| "getlines d (c # cs) =
     takeWhile (\<lambda>x. x \<noteq> d) (c # cs) #
     getlines d (drop (Suc (length (takeWhile (\<lambda>x. x \<noteq> d) (c # cs)))) (c # cs))"

declare getlines.simps [simp del]

section \<open>String conversions\<close>

text \<open>
  \<^verbatim>\<open>std::stoi\<close>, base 10: leading white space, a sign, digits; text after the digits is
  ignored. \<^verbatim>\<open>std::stoull\<close> takes the same text.
\<close>

definition stoi :: "string \<Rightarrow> int result" where
  "stoi s = (case fst (scan_int (dropWhile isspace s)) of
       None \<Rightarrow> Inl (Invalid_argument ''stoi'')
     | Some v \<Rightarrow> if - (2 ^ 31) \<le> v \<and> v < 2 ^ 31 then Inr v else Inl (Out_of_range ''stoi''))"

definition stoull :: "string \<Rightarrow> u64 result" where
  "stoull s = (case fst (scan_int (dropWhile isspace s)) of
       None \<Rightarrow> Inl (Invalid_argument ''stoull'')
     | Some v \<Rightarrow> if \<bar>v\<bar> < 2 ^ 64 then Inr (of_int v) else Inl (Out_of_range ''stoull''))"

text \<open>
  \<^verbatim>\<open>std::stoi(s, nullptr, 16)\<close>: white space, a sign, an optional \<^verbatim>\<open>0x\<close> that a hex digit
  follows, hex digits.
\<close>

definition isxdigit :: "char \<Rightarrow> bool" where
  "isxdigit c \<longleftrightarrow> isdigit c \<or> (65 \<le> (of_char c :: nat) \<and> (of_char c :: nat) \<le> 70)
     \<or> (97 \<le> (of_char c :: nat) \<and> (of_char c :: nat) \<le> 102)"

definition xdigit_val :: "char \<Rightarrow> nat" where
  "xdigit_val c = (let n = of_char c in
     if n \<le> (57::nat) then n - 48 else if n \<le> 70 then n - 55 else n - 87)"

definition skip_0x :: "string \<Rightarrow> string" where
  "skip_0x s = (case s of
      c0 # c1 # c2 # cs \<Rightarrow>
        if c0 = CHR ''0'' \<and> (c1 = CHR ''x'' \<or> c1 = CHR ''X'') \<and> isxdigit c2 then c2 # cs else s
    | _ \<Rightarrow> s)"

definition stoi16 :: "string \<Rightarrow> int result" where
  "stoi16 s =
     (case split_sign (dropWhile isspace s) of (neg, r) \<Rightarrow>
       (let ds = takeWhile isxdigit (skip_0x r);
            v = (if neg then - 1 else 1) * int (foldl (\<lambda>n c. 16 * n + xdigit_val c) 0 ds) in
        if ds = [] then Inl (Invalid_argument ''stoi'')
        else if - (2 ^ 31) \<le> v \<and> v < 2 ^ 31 then Inr v else Inl (Out_of_range ''stoi'')))"

section \<open>Lemmas on characters and digits\<close>

lemma isdigit_not_space: "isdigit c \<Longrightarrow> \<not> isspace c"
  by (auto simp: isspace_def isdigit_def)

lemma isdigit_not_sign: "isdigit c \<Longrightarrow> c \<noteq> CHR ''-'' \<and> c \<noteq> CHR ''+''"
  by (auto simp: isdigit_def)

lemma of_char_digit_char: "n < 10 \<Longrightarrow> (of_char (digit_char n) :: nat) = 48 + n"
  by (simp add: digit_char_def of_char_of)

lemma isdigit_digit_char [simp]: "n < 10 \<Longrightarrow> isdigit (digit_char n)"
  by (simp add: isdigit_def of_char_digit_char)

lemma digit_val_digit_char [simp]: "n < 10 \<Longrightarrow> digit_val (digit_char n) = n"
  by (simp add: digit_val_def of_char_digit_char)

lemma digits_val_snoc [simp]: "digits_val (ds @ [d]) = 10 * digits_val ds + digit_val d"
  by (simp add: digits_val_def)

lemma show_nat_digits: "\<forall>c \<in> set (show_nat n). isdigit c"
proof (induction n rule: show_nat.induct)
  case (1 n)
  then show ?case by (subst show_nat.simps) auto
qed

lemma show_nat_neq_Nil [simp]: "show_nat n \<noteq> []"
  by (subst show_nat.simps) simp

lemma digits_val_show_nat [simp]: "digits_val (show_nat n) = n"
proof (induction n rule: show_nat.induct)
  case (1 n)
  show ?case
  proof (cases "n < 10")
    case True
    then show ?thesis by (subst show_nat.simps) (simp add: digits_val_def)
  next
    case False
    with "1.IH" show ?thesis by (subst show_nat.simps) simp
  qed
qed

lemma show_nat_inj: "show_nat m = show_nat n \<Longrightarrow> m = n"
  by (metis digits_val_show_nat)

section \<open>What is written can be extracted again\<close>

text \<open>A string that \<^verbatim>\<open>>>\<close> takes as one token.\<close>

definition is_token :: "string \<Rightarrow> bool" where
  "is_token t \<longleftrightarrow> t \<noteq> [] \<and> (\<forall>c \<in> set t. \<not> isspace c)"

definition at_break :: "string \<Rightarrow> bool" where
  "at_break t \<longleftrightarrow> (case t of [] \<Rightarrow> True | c # _ \<Rightarrow> isspace c)"

lemma at_break_simps [simp, text_simps]: "at_break []" "at_break (c # cs) = isspace c"
  by (simp_all add: at_break_def)

lemma isspace_simps [simp, text_simps]: "isspace NL" "isspace SP" "isspace CR"
  by (simp_all add: isspace_def)

lemma istringstream_simps [simp]:
  "in_rest (istringstream s) = s" "in_fail (istringstream s) = False"
  "(istringstream s)\<lparr>in_rest := t\<rparr> = istringstream t"
  "(istringstream s)\<lparr>in_rest := t, in_fail := False\<rparr> = istringstream t"
  by (simp_all add: istringstream_def)

lemma dropWhile_break: "at_break t \<Longrightarrow> dropWhile (\<lambda>c. \<not> isspace c) t = t"
  by (cases t) auto

lemma takeWhile_break: "at_break t \<Longrightarrow> takeWhile (\<lambda>c. \<not> isspace c) t = []"
  by (cases t) auto

locale field_codec =
  fixes emit :: "'a \<Rightarrow> string"
    and scan :: "'a \<Rightarrow> istream \<Rightarrow> 'a \<times> istream"
    and ok :: "'a \<Rightarrow> bool"
  assumes emit_token: "ok x \<Longrightarrow> is_token (emit x)"
    and extract_at: "ok x \<Longrightarrow> at_break t \<Longrightarrow>
      scan old (istringstream (emit x @ t)) = (x, istringstream t)"
    and extract_space: "isspace c \<Longrightarrow>
      scan old (istringstream (c # t)) = scan old (istringstream t)"
    and extract_failed: "in_fail s \<Longrightarrow> scan old s = (old, s)"
    and extract_end: "scan old (istringstream []) = (old, (istringstream [])\<lparr>in_fail := True\<rparr>)"
begin

lemma extract_after_space:
  "ok x \<Longrightarrow> at_break t \<Longrightarrow> isspace c \<Longrightarrow>
   scan old (istringstream (c # emit x @ t)) = (x, istringstream t)"
  by (simp add: extract_space extract_at)

lemma extract_spaces:
  "\<forall>c \<in> set sp. isspace c \<Longrightarrow> scan old (istringstream (sp @ t)) = scan old (istringstream t)"
  by (induction sp) (auto simp: extract_space)

lemma extract_blank:
  "\<forall>c \<in> set sp. isspace c \<Longrightarrow> in_fail (snd (scan old (istringstream sp)))"
  using extract_spaces [of sp old "[]"] by (simp add: extract_end)

lemma emit_inj: "ok x \<Longrightarrow> ok y \<Longrightarrow> emit x = emit y \<Longrightarrow> x = y"
  using extract_at [of x "[]"] extract_at [of y "[]"] by (metis Pair_inject at_break_simps(1))

end

lemma read_token_at:
  "is_token x \<Longrightarrow> at_break t \<Longrightarrow> read_token old (istringstream (x @ t)) = (x, istringstream t)"
  by (cases x) (auto simp: read_token_def is_token_def dropWhile_break takeWhile_break
      takeWhile_append2 dropWhile_append2 Let_def)

interpretation tok: field_codec "\<lambda>x. x" read_token is_token
proof
  show "is_token x \<Longrightarrow> at_break t \<Longrightarrow> read_token old (istringstream (x @ t)) = (x, istringstream t)"
    for x t old by (rule read_token_at)
qed (auto simp: read_token_def istringstream_def Let_def)

lemma takeWhile_digits:
  "(\<forall>c \<in> set ds. isdigit c) \<Longrightarrow> at_break t \<Longrightarrow>
   takeWhile isdigit (ds @ t) = ds \<and> dropWhile isdigit (ds @ t) = t"
  by (cases t) (auto simp: takeWhile_append2 dropWhile_append2 dest: isdigit_not_space)

lemma scan_int_show_nat:
  assumes "at_break t"
  shows "scan_int (show_nat n @ t) = (Some (int n), t)"
proof -
  obtain c cs where c: "show_nat n = c # cs" by (cases "show_nat n") auto
  then have "isdigit c" using show_nat_digits [of n] by simp
  then have "split_sign (show_nat n @ t) = (False, show_nat n @ t)"
    using isdigit_not_sign [of c] by (simp add: c)
  with takeWhile_digits [OF show_nat_digits assms, of n] show ?thesis
    by (simp add: scan_int_def)
qed

lemma scan_int_show_int:
  assumes "at_break t"
  shows "scan_int (show_int i @ t) = (Some i, t)"
proof (cases "i < 0")
  case False
  then show ?thesis using scan_int_show_nat [OF assms, of "nat i"] by (simp add: show_int_def)
next
  case True
  with takeWhile_digits [OF show_nat_digits assms, of "nat (- i)"] show ?thesis
    by (simp add: show_int_def scan_int_def)
qed

lemma show_nat_is_token: "is_token (show_nat n)"
  using show_nat_digits [of n] isdigit_not_space by (auto simp: is_token_def)

lemma show_int_is_token: "is_token (show_int i)"
  using show_nat_is_token by (auto simp: show_int_def is_token_def isspace_def)

lemma token_no_skip: "is_token x \<Longrightarrow> dropWhile isspace (x @ t) = x @ t \<and> x @ t \<noteq> []"
  by (cases x) (auto simp: is_token_def)

lemma read_num_at:
  assumes "is_token x" "scan_int (x @ t) = (v, t)" "conv v = (y, False)"
  shows "read_num conv old (istringstream (x @ t)) = (y, istringstream t)"
  using token_no_skip [OF assms(1), of t] assms(2,3) by (auto simp: read_num_def Let_def)

interpretation u64c: field_codec show_u64 read_u64 "\<lambda>_. True"
proof
  fix x :: u64 and t old assume "at_break t"
  then show "read_u64 old (istringstream (show_u64 x @ t)) = (x, istringstream t)"
    unfolding read_u64_def show_u64_def
    by (intro read_num_at [OF show_nat_is_token scan_int_show_nat])
      (auto simp: to_u64_def uint_u64_bound)
qed (auto simp: read_u64_def read_num_def istringstream_def show_u64_def show_nat_is_token Let_def
    split: prod.splits)

definition in_int_range :: "int \<Rightarrow> bool" where
  "in_int_range i \<longleftrightarrow> - (2 ^ 31) \<le> i \<and> i < 2 ^ 31"

interpretation intc: field_codec show_int read_int in_int_range
proof
  fix x t old assume "in_int_range x" "at_break t"
  then show "read_int old (istringstream (show_int x @ t)) = (x, istringstream t)"
    unfolding read_int_def
    by (intro read_num_at [OF show_int_is_token scan_int_show_int])
      (auto simp: to_int_def in_int_range_def)
qed (auto simp: read_int_def read_num_def istringstream_def show_int_is_token Let_def
    split: prod.splits)

lemmas field_simps_text [text_simps] =
  tok.extract_after_space tok.extract_at u64c.extract_after_space u64c.extract_at
  intc.extract_after_space intc.extract_at tok.extract_failed u64c.extract_failed intc.extract_failed

lemma stoi_show_int: "in_int_range i \<Longrightarrow> at_break t \<Longrightarrow> stoi (show_int i @ t) = Inr i"
  using token_no_skip [OF show_int_is_token, of i t]
  by (simp add: stoi_def scan_int_show_int in_int_range_def)

section \<open>Extraction consumes input\<close>

lemma read_token_length:
  "\<not> in_fail (snd (read_token old s)) \<Longrightarrow> length (in_rest (snd (read_token old s))) < length (in_rest s)"
proof -
  assume ok: "\<not> in_fail (snd (read_token old s))"
  let ?r = "dropWhile isspace (in_rest s)"
  have ne: "\<not> in_fail s" "?r \<noteq> []" using ok by (auto simp: read_token_def Let_def split: if_splits)
  then have "\<not> isspace (hd ?r)" by (simp add: hd_dropWhile)
  then have "length (dropWhile (\<lambda>c. \<not> isspace c) ?r) < length ?r"
    using ne(2) by (cases ?r) (auto simp: le_imp_less_Suc length_dropWhile_le)
  also have "\<dots> \<le> length (in_rest s)" by (rule length_dropWhile_le)
  finally show ?thesis using ne by (auto simp: read_token_def Let_def)
qed

lemma read_num_length: "length (in_rest (snd (read_num conv old s))) \<le> length (in_rest s)"
proof -
  have "length (snd (scan_int r)) \<le> length r" for r
  proof -
    have "length (snd (split_sign r)) \<le> length r" by (cases r) auto
    then show ?thesis
      using length_dropWhile_le [of isdigit "snd (split_sign r)"]
      by (auto simp: scan_int_def Let_def split: prod.splits)
  qed
  from this [of "dropWhile isspace (in_rest s)"] show ?thesis
    using length_dropWhile_le [of isspace "in_rest s"]
    by (auto simp: read_num_def Let_def split: prod.splits)
qed

lemma read_num_failed: "in_fail s \<Longrightarrow> in_fail (snd (read_num conv old s))"
  by (simp add: read_num_def)

text \<open>A word read into an empty string is empty only when there was none.\<close>

lemma read_token_result: "read_token [] s = (x, s') \<Longrightarrow> x = [] \<or> is_token x"
proof -
  assume r: "read_token [] s = (x, s')"
  have "is_token (takeWhile (\<lambda>c. \<not> isspace c) t)" if "t \<noteq> []" "\<not> isspace (hd t)" for t
    using that by (cases t) (auto simp: is_token_def dest: set_takeWhileD)
  note tok = this [of "dropWhile isspace (in_rest s)"]
  show ?thesis
  proof (cases "dropWhile isspace (in_rest s) = []")
    case True
    then show ?thesis using r by (simp add: read_token_def Let_def split: if_splits)
  next
    case False
    then show ?thesis using r tok hd_dropWhile [OF False] by (auto simp: read_token_def Let_def split: if_splits)
  qed
qed

section \<open>Lines: what was joined is split again\<close>

lemma getlines_line:
  assumes "d \<notin> set l"
  shows "getlines d (l @ d # t) = l # getlines d t"
proof -
  have "takeWhile (\<lambda>x. x \<noteq> d) (l @ d # t) = l"
    using assms by (auto simp: takeWhile_tail)
  then show ?thesis by (cases l) (auto simp: getlines.simps)
qed

lemma getlines_concat:
  "(\<forall>l \<in> set ls. d \<notin> set l) \<Longrightarrow> getlines d (concat (map (\<lambda>l. l @ [d]) ls)) = ls"
  by (induction ls) (auto simp: getlines_line getlines.simps(1))

end
