(* ===== verification/Filesystem.thy ===== *)
theory Filesystem
  imports Iostream
begin

text \<open>
  The file system as the program sees it through \<^verbatim>\<open>std::filesystem\<close> and the file
  streams. A disk is an association list from paths to contents, whose order is the
  order in which a directory iterator would meet the files, the directories that exist,
  and the answers of the operating system to an attempt to open a file for writing, to
  rename or to make a directory, so that every failure branch of the program can be
  taken. A path is the string the program passes: two strings that the system would
  resolve to one file (\<^verbatim>\<open>..\<close>, links) are different paths here, a path names no
  directory when it is opened as a file, and a write to a file that could be opened is
  complete.
\<close>

record disk =
  files :: "(string \<times> bytes) list"
  dirs :: "string list"
  can_open :: "string \<Rightarrow> bool"
  can_rename :: "string \<Rightarrow> string \<Rightarrow> bool"
  can_mkdir :: "string \<Rightarrow> bool"

definition wf_disk :: "disk \<Rightarrow> bool" where
  "wf_disk d \<longleftrightarrow> distinct (map fst (files d))"

text \<open>\<^verbatim>\<open>std::ifstream in(p)\<close> and reading all of it; \<open>None\<close> is \<^verbatim>\<open>!in\<close>.\<close>

definition fs_read :: "disk \<Rightarrow> string \<Rightarrow> bytes option" where
  "fs_read d p = map_of (files d) p"

text \<open>\<^verbatim>\<open>std::ofstream out(p, trunc)\<close> and writing; \<open>None\<close> is \<^verbatim>\<open>!out\<close>.\<close>

definition fs_write :: "disk \<Rightarrow> string \<Rightarrow> bytes \<Rightarrow> disk option" where
  "fs_write d p c =
     (if can_open d p then Some (d\<lparr>files := AList.update p c (files d)\<rparr>) else None)"

text \<open>\<^verbatim>\<open>fs::remove(p, ec)\<close>, whose outcome the program ignores.\<close>

definition fs_remove :: "disk \<Rightarrow> string \<Rightarrow> disk" where
  "fs_remove d p = d\<lparr>files := AList.delete p (files d)\<rparr>"

text \<open>\<^verbatim>\<open>fs::rename(p, q, ec)\<close>; \<open>None\<close> is a set error code.\<close>

definition fs_rename :: "disk \<Rightarrow> string \<Rightarrow> string \<Rightarrow> disk option" where
  "fs_rename d p q =
     (case map_of (files d) p of
        None \<Rightarrow> None
      | Some c \<Rightarrow> if can_rename d p q
          then Some (d\<lparr>files := AList.update q c (AList.delete p (files d))\<rparr>) else None)"

text \<open>\<^verbatim>\<open>fs::create_directories(p, ec)\<close>: the flag says whether the directory exists afterwards.\<close>

definition create_directories :: "disk \<Rightarrow> string \<Rightarrow> bool \<times> disk" where
  "create_directories d p =
     (if p \<in> set (dirs d) then (True, d)
      else if can_mkdir d p then (True, d\<lparr>dirs := dirs d @ [p]\<rparr>) else (False, d))"

definition fs_exists :: "disk \<Rightarrow> string \<Rightarrow> bool" where
  "fs_exists d p \<longleftrightarrow> p \<in> set (dirs d) \<or> map_of (files d) p \<noteq> None"

text \<open>The regular files directly inside a directory, by name, in iteration order.\<close>

definition dir_entries :: "disk \<Rightarrow> string \<Rightarrow> (string \<times> bytes) list" where
  "dir_entries d dir =
     map (\<lambda>(p, c). (drop (length dir + 1) p, c))
       (filter (\<lambda>(p, c). starts_with p (dir @ ''/'') \<and> drop (length dir + 1) p \<noteq> []
           \<and> CHR ''/'' \<notin> set (drop (length dir + 1) p)) (files d))"

section \<open>Lemmas\<close>

lemma fs_write_Some:
  "fs_write d p c = Some d' \<longleftrightarrow> can_open d p \<and> d' = d\<lparr>files := AList.update p c (files d)\<rparr>"
  by (auto simp: fs_write_def)

lemma fs_read_write:
  "fs_write d p c = Some d' \<Longrightarrow> fs_read d' q = (if q = p then Some c else fs_read d q)"
  by (auto simp: fs_write_Some fs_read_def)

lemma fs_read_remove: "fs_read (fs_remove d p) q = (if q = p then None else fs_read d q)"
  by (simp add: fs_remove_def fs_read_def)

lemma fs_read_rename:
  "fs_rename d p q = Some d' \<Longrightarrow>
   fs_read d' r = (if r = q then fs_read d p else if r = p then None else fs_read d r)"
  by (auto simp: fs_rename_def fs_read_def split: option.splits if_splits)

lemma fs_rename_Some:
  "fs_read d p = Some c \<Longrightarrow> can_rename d p q \<Longrightarrow> \<exists>d'. fs_rename d p q = Some d'"
  by (simp add: fs_rename_def fs_read_def)

lemma wf_disk_ops [intro]:
  "wf_disk d \<Longrightarrow> fs_write d p c = Some d' \<Longrightarrow> wf_disk d'"
  "wf_disk d \<Longrightarrow> wf_disk (fs_remove d p)"
  "wf_disk d \<Longrightarrow> fs_rename d p q = Some d' \<Longrightarrow> wf_disk d'"
  "wf_disk d \<Longrightarrow> wf_disk (snd (create_directories d p))"
  by (auto simp: wf_disk_def fs_write_Some fs_remove_def fs_rename_def create_directories_def
      split: option.splits if_splits)

lemma fs_read_create_directories [simp]: "fs_read (snd (create_directories d p)) q = fs_read d q"
  by (simp add: create_directories_def fs_read_def)

lemma can_remove [simp]:
  "can_open (fs_remove d p) = can_open d" "can_rename (fs_remove d p) = can_rename d"
  by (simp_all add: fs_remove_def)

lemma can_write_rename:
  "fs_write d p c = Some d' \<Longrightarrow> can_open d' = can_open d \<and> can_rename d' = can_rename d"
  "fs_rename d p q = Some d' \<Longrightarrow> can_open d' = can_open d \<and> can_rename d' = can_rename d"
  by (auto simp: fs_write_Some fs_rename_def split: option.splits if_splits)

lemma map_of_drop_prefix:
  assumes "\<And>q. q \<in> fst ` set al \<Longrightarrow> P q \<Longrightarrow> q = pre @ drop n q" "P (pre @ x)" "drop n (pre @ x) = x"
  shows "map_of (map (\<lambda>(q, c). (drop n q, c)) (filter (\<lambda>(q, c). P q) al)) x = map_of al (pre @ x)"
proof -
  have "map_of (map (\<lambda>(q, c). (drop n q, c)) (filter (\<lambda>(q, c). P q) al)) x = map_of al (pre @ x)"
    if "\<forall>q \<in> fst ` set al. P q \<longrightarrow> q = pre @ drop n q"
    using that
  proof (induction al)
    case Nil
    then show ?case by simp
  next
    case (Cons a al)
    obtain q c where a: "a = (q, c)" by (cases a)
    show ?case
    proof (cases "q = pre @ x")
      case True
      with assms(2,3) a show ?thesis by simp
    next
      case False
      with Cons.prems a have "P q \<Longrightarrow> drop n q \<noteq> x" by auto
      with False a Cons show ?thesis by auto
    qed
  qed
  with assms(1) show ?thesis by blast
qed

text \<open>A name without a slash is listed with the content that reading its path gives.\<close>

lemma dir_entries_lookup:
  assumes "x \<noteq> []" "CHR ''/'' \<notin> set x"
  shows "map_of (dir_entries d dir) x = fs_read d (dir @ ''/'' @ x)"
proof -
  let ?n = "length dir + 1"
  let ?P = "\<lambda>p. starts_with p (dir @ ''/'') \<and> drop ?n p \<noteq> [] \<and> CHR ''/'' \<notin> set (drop ?n p)"
  have "map_of (map (\<lambda>(q, c). (drop ?n q, c)) (filter (\<lambda>(q, c). ?P q) (files d))) x
      = map_of (files d) ((dir @ ''/'') @ x)"
  proof (rule map_of_drop_prefix)
    show "q = (dir @ ''/'') @ drop ?n q" if "?P q" for q
      using that by (auto simp: starts_with_iff)
    show "?P ((dir @ ''/'') @ x)"
      using assms starts_with_append [of "dir @ ''/''" x] by simp
  qed simp
  then show ?thesis by (simp add: dir_entries_def fs_read_def)
qed

lemma dir_entries_names:
  "e \<in> set (dir_entries d dir) \<Longrightarrow> fst e \<noteq> [] \<and> CHR ''/'' \<notin> set (fst e)"
  by (auto simp: dir_entries_def)

lemma distinct_dir_entries: "wf_disk d \<Longrightarrow> distinct (map fst (dir_entries d dir))"
proof -
  assume "wf_disk d"
  let ?n = "length dir + 1"
  let ?P = "\<lambda>p. starts_with p (dir @ ''/'') \<and> drop ?n p \<noteq> [] \<and> CHR ''/'' \<notin> set (drop ?n p)"
  have names: "map fst (dir_entries d dir) = map (drop ?n) (filter ?P (map fst (files d)))"
    by (simp add: dir_entries_def filter_map comp_def case_prod_unfold)
  have "inj_on (drop ?n) {p. ?P p}"
    by (rule inj_onI) (auto simp: starts_with_iff)
  then show ?thesis
    using \<open>wf_disk d\<close> unfolding names wf_disk_def
    by (subst distinct_map) (auto intro: inj_on_subset)
qed

lemma dir_entries_read:
  assumes "wf_disk d" "(x, c) \<in> set (dir_entries d dir)"
  shows "fs_read d (dir @ ''/'' @ x) = Some c"
proof -
  have "map_of (dir_entries d dir) x = Some c"
    using assms by (simp add: distinct_dir_entries)
  then show ?thesis using dir_entries_names [OF assms(2)] by (simp add: dir_entries_lookup)
qed

end
