(* ===== verification/Tcp.thy ===== *)
theory Tcp
  imports Filesystem "HOL-Library.Signed_Division"
begin

text \<open>
  The socket helpers of \<^verbatim>\<open>core/net/tcp.cpp\<close>. What the kernel and the other end of a
  connection do is a parameter: the answers of successive \<^verbatim>\<open>recv\<close> calls are a list of
  events, those of successive \<^verbatim>\<open>send\<close> calls a list of numbers, and name resolution and
  \<^verbatim>\<open>connect\<close> are fields of a record. Shown are that nothing the receivers return depends on
  how TCP cut the stream into segments, that a send that succeeds sent everything, and
  which address a host and port lead to.
\<close>

section \<open>Receiving\<close>

text \<open>
  A segment that arrives, a timeout (\<^verbatim>\<open>EAGAIN\<close>) or another error. After the last event the
  other end has closed the connection and \<^verbatim>\<open>recv\<close> returns 0. A call that blocks for ever is
  not represented.
\<close>

datatype recv_event = Data bytes | Timeout | Recv_error

datatype recv_result = Got bytes | Timed_out | Failed

text \<open>\<^verbatim>\<open>recv(fd, buf, n, 0)\<close> for \<open>n > 0\<close>; \<open>Got []\<close> is the result 0.\<close>

fun recv :: "nat \<Rightarrow> recv_event list \<Rightarrow> recv_result \<times> recv_event list" where
  "recv n [] = (Got [], [])"
| "recv n (Timeout # es) = (Timed_out, es)"
| "recv n (Recv_error # es) = (Failed, es)"
| "recv n (Data bs # es) =
     (if bs = [] then recv n es
      else if length bs \<le> n then (Got bs, es)
      else (Got (take n bs), Data (drop n bs) # es))"

text \<open>The bytes still to arrive, a measure that every productive \<^verbatim>\<open>recv\<close> decreases.\<close>

fun arriving :: "recv_event list \<Rightarrow> nat" where
  "arriving [] = 0"
| "arriving (Data bs # es) = length bs + arriving es"
| "arriving (_ # es) = arriving es"

lemma recv_arriving:
  "recv n es = (Got bs, es') \<Longrightarrow> length bs + arriving es' = arriving es"
  by (induction n es rule: recv.induct) (auto split: if_splits)

lemma recv_decreases: "recv n es = (Got bs, es') \<Longrightarrow> bs \<noteq> [] \<Longrightarrow> arriving es' < arriving es"
  using recv_arriving [of n es bs es'] by (cases bs) auto

lemma recv_le: "recv n es = (Got bs, es') \<Longrightarrow> length bs \<le> n"
  by (induction n es rule: recv.induct) (auto split: if_splits)

text \<open>
  \<^verbatim>\<open>recv_line\<close>: the flag, the line collected so far (also when the flag is false) and the
  events left.
\<close>

function recv_line_loop :: "string \<Rightarrow> recv_event list \<Rightarrow> bool \<times> string \<times> recv_event list" where
  "recv_line_loop acc es =
     (case recv 1 es of
        (Got (ch # _), es') \<Rightarrow>
          if ch = NL then (True, acc, es')
          else let acc' = (if ch \<noteq> CR then acc @ [ch] else acc) in
            if length acc' > 8192 then (False, acc', es') else recv_line_loop acc' es'
      | (_, es') \<Rightarrow> (False, acc, es'))"
  by pat_completeness auto
termination
  by (relation "measure (\<lambda>(acc, es). arriving es)") (auto dest!: sym [of "(Got _, _)"] dest: recv_decreases)

declare recv_line_loop.simps [simp del]

definition recv_line :: "recv_event list \<Rightarrow> bool \<times> string \<times> recv_event list" where
  "recv_line es = recv_line_loop [] es"

function recv_all_loop :: "string \<Rightarrow> recv_event list \<Rightarrow> string result" where
  "recv_all_loop out es =
     (case recv 4096 es of
        (Got bs, es') \<Rightarrow> if bs = [] then Inr out else recv_all_loop (out @ bs) es'
      | (Timed_out, _) \<Rightarrow> Inr out
      | (Failed, _) \<Rightarrow> Inl (System_error ''recv''))"
  by pat_completeness auto
termination
  by (relation "measure (\<lambda>(out, es). arriving es)") (auto dest!: sym [of "(Got _, _)"] dest: recv_decreases)

declare recv_all_loop.simps [simp del]

definition recv_all_text :: "recv_event list \<Rightarrow> string result" where
  "recv_all_text es = recv_all_loop [] es"

text \<open>
  The loop with which the peer service and the peer client fill a buffer of \<open>n\<close> bytes, in
  reads of at most \<open>cap\<close> bytes; \<open>None\<close> when the connection ended early.
\<close>

function recv_exact :: "nat \<Rightarrow> nat \<Rightarrow> recv_event list \<Rightarrow> bytes option \<times> recv_event list" where
  "recv_exact cap n es =
     (if n = 0 then (Some [], es)
      else case recv (min n cap) es of
        (Got bs, es') \<Rightarrow>
          if bs = [] then (None, es')
          else (case recv_exact cap (n - length bs) es' of
                  (None, es'') \<Rightarrow> (None, es'')
                | (Some data, es'') \<Rightarrow> (Some (bs @ data), es''))
      | (_, es') \<Rightarrow> (None, es'))"
  by pat_completeness auto
termination
  by (relation "measure (\<lambda>(cap, n, es). arriving es)") (auto dest!: sym [of "(Got _, _)"] dest: recv_decreases)

declare recv_exact.simps [simp del]

section \<open>Sending\<close>

text \<open>
  \<^verbatim>\<open>send_all_nothrow\<close>: the results of the \<^verbatim>\<open>send\<close> calls to come (an exhausted list takes
  everything), the flag, the bytes handed to the kernel and the results left. The kernel
  takes no more than it is given.
\<close>

function send_all_nothrow :: "int list \<Rightarrow> bytes \<Rightarrow> bool \<times> bytes \<times> int list" where
  "send_all_nothrow os buf =
     (if buf = [] then (True, [], os)
      else case os of
        [] \<Rightarrow> (True, buf, [])
      | n # os' \<Rightarrow>
          if n \<le> 0 then (False, [], os')
          else (case send_all_nothrow os' (drop (nat n) buf) of
                  (ok, sent, os'') \<Rightarrow> (ok, take (nat n) buf @ sent, os'')))"
  by pat_completeness auto
termination by (relation "measure (\<lambda>(os, buf). length os)") auto

declare send_all_nothrow.simps [simp del]

definition send_all_or_throw :: "int list \<Rightarrow> bytes \<Rightarrow> unit result \<times> bytes \<times> int list" where
  "send_all_or_throw os buf =
     (case send_all_nothrow os buf of
        (ok, sent, os') \<Rightarrow> (if ok then Inr () else Inl (System_error ''send''), sent, os'))"

section \<open>Connecting\<close>

text \<open>
  An IPv4 address and a port in host order. \<^verbatim>\<open>static_cast<uint16_t>(port)\<close> keeps the low
  16 bits of the \<^verbatim>\<open>int\<close>.
\<close>

type_synonym sockaddr = "u32 \<times> 16 word"

record net_os =
  os_socket :: bool
  os_inet_pton :: "string \<Rightarrow> u32 option"
  os_getaddrinfo :: "string \<Rightarrow> u32 option"
  os_connect :: "sockaddr \<Rightarrow> bool"

definition fill_sockaddr_in_v4 :: "net_os \<Rightarrow> string \<Rightarrow> int \<Rightarrow> sockaddr option" where
  "fill_sockaddr_in_v4 os host portno =
     (case os_inet_pton os host of
        Some a \<Rightarrow> Some (a, word_of_int portno)
      | None \<Rightarrow> (case os_getaddrinfo os host of
          None \<Rightarrow> None
        | Some a \<Rightarrow> Some (a, word_of_int portno)))"

text \<open>The address connected to, or the exception, and how often the descriptor was closed.\<close>

definition connect_tcp_fatal_or_throw :: "net_os \<Rightarrow> string \<Rightarrow> int \<Rightarrow> sockaddr result \<times> nat" where
  "connect_tcp_fatal_or_throw os host portno =
     (if \<not> os_socket os then (Inl (System_error ''socket''), 0)
      else case fill_sockaddr_in_v4 os host portno of
        None \<Rightarrow> (Inl (Runtime_error (''Could not resolve host: '' @ host)), 1)
      | Some a \<Rightarrow> if \<not> os_connect os a then (Inl (System_error ''connect''), 1) else (Inr a, 0))"

definition connect_tcp_try :: "net_os \<Rightarrow> string \<Rightarrow> int \<Rightarrow> sockaddr option \<times> nat" where
  "connect_tcp_try os host portno =
     (if \<not> os_socket os then (None, 0)
      else case fill_sockaddr_in_v4 os host portno of
        None \<Rightarrow> (None, 1)
      | Some a \<Rightarrow> if \<not> os_connect os a then (None, 1) else (Some a, 0))"

text \<open>\<^verbatim>\<open>set_timeouts\<close> fills a \<^verbatim>\<open>timeval\<close>; C++ division truncates toward zero.\<close>

record timeval =
  tv_sec :: int
  tv_usec :: int

definition timeval_of_ms :: "int \<Rightarrow> timeval" where
  "timeval_of_ms ms = \<lparr>tv_sec = ms sdiv 1000, tv_usec = (ms smod 1000) * 1000\<rparr>"

definition set_timeouts :: "(timeval \<Rightarrow> bool) \<Rightarrow> (timeval \<Rightarrow> bool) \<Rightarrow> int \<Rightarrow> int \<Rightarrow> bool" where
  "set_timeouts set_rcv set_snd recv_ms send_ms =
     (if \<not> set_rcv (timeval_of_ms recv_ms) then False
      else if \<not> set_snd (timeval_of_ms send_ms) then False else True)"

section \<open>Independence of segmentation\<close>

fun stream :: "recv_event list \<Rightarrow> bytes" where
  "stream [] = []"
| "stream (Data bs # es) = bs @ stream es"
| "stream (_ # es) = stream es"

text \<open>A connection on which only data arrives before it is closed.\<close>

definition clean :: "recv_event list \<Rightarrow> bool" where
  "clean es \<longleftrightarrow> Timeout \<notin> set es \<and> Recv_error \<notin> set es"

lemma clean_simps [simp]:
  "clean []" "clean (Data bs # es) = clean es" "\<not> clean (Timeout # es)" "\<not> clean (Recv_error # es)"
  by (auto simp: clean_def)

lemma recv_clean:
  assumes "clean es" "n > 0"
  shows "\<exists>bs es'. recv n es = (Got bs, es') \<and> clean es' \<and> stream es = bs @ stream es'
    \<and> length bs \<le> n \<and> (bs = [] \<longrightarrow> stream es = [])"
  using assms by (induction n es rule: recv.induct) auto

text \<open>The line that a text starts with, by the rules of \<^verbatim>\<open>recv_line\<close>.\<close>

fun first_line :: "string \<Rightarrow> string \<Rightarrow> bool \<times> string \<times> string" where
  "first_line acc [] = (False, acc, [])"
| "first_line acc (ch # cs) =
     (if ch = NL then (True, acc, cs)
      else let acc' = (if ch \<noteq> CR then acc @ [ch] else acc) in
        if length acc' > 8192 then (False, acc', cs) else first_line acc' cs)"

lemma recv_line_loop_clean:
  "clean es \<Longrightarrow> recv_line_loop acc es = (ok, line, es') \<Longrightarrow>
   first_line acc (stream es) = (ok, line, stream es') \<and> clean es'"
proof (induction acc es rule: recv_line_loop.induct)
  case (1 acc es)
  obtain bs es1 where r: "recv 1 es = (Got bs, es1)" "clean es1" "stream es = bs @ stream es1" "length bs \<le> 1"
      "bs = [] \<longrightarrow> stream es = []"
    using recv_clean [OF "1.prems"(1), of 1] by auto
  show ?case
  proof (cases bs)
    case Nil
    then show ?thesis using r "1.prems"(2) by (subst (asm) recv_line_loop.simps) auto
  next
    case (Cons ch bs')
    then have st: "stream es = ch # stream es1" using r(3,4) by simp
    define acc' where "acc' = (if ch \<noteq> CR then acc @ [ch] else acc)"
    show ?thesis
    proof (cases "ch = NL \<or> length acc' > 8192")
      case True
      then show ?thesis using r(1,2) "1.prems"(2) Cons st
        by (subst (asm) recv_line_loop.simps) (auto simp: acc'_def Let_def split: if_splits)
    next
      case False
      then have "recv_line_loop acc es = recv_line_loop acc' es1"
        using r(1) Cons by (subst recv_line_loop.simps) (simp add: acc'_def Let_def)
      then have "first_line acc' (stream es1) = (ok, line, stream es') \<and> clean es'"
        using "1.IH" [of "Got bs" es1 bs ch bs' acc'] r(1,2) Cons False "1.prems"(2) by (simp add: acc'_def)
      then show ?thesis using False st by (simp add: acc'_def Let_def)
    qed
  qed
qed

lemma recv_all_loop_clean: "clean es \<Longrightarrow> recv_all_loop out es = Inr (out @ stream es)"
proof (induction out es rule: recv_all_loop.induct)
  case (1 out es)
  obtain bs es1 where r: "recv 4096 es = (Got bs, es1)" "clean es1" "stream es = bs @ stream es1"
      "bs = [] \<longrightarrow> stream es = []"
    using recv_clean [OF "1.prems", of 4096] by auto
  show ?case
    using "1.IH" [OF r(1) [symmetric] refl _ r(2)] r(1,3,4)
    by (subst recv_all_loop.simps) auto
qed

lemma recv_exact_clean:
  assumes "clean es" "cap > 0"
  shows "\<exists>es'. recv_exact cap n es = (if n \<le> length (stream es) then Some (take n (stream es)) else None, es')
    \<and> clean es' \<and> stream es' = drop n (stream es)"
  using assms
proof (induction cap n es rule: recv_exact.induct)
  case (1 cap n es)
  show ?case
  proof (cases "n = 0")
    case True
    then show ?thesis using "1.prems" by (subst recv_exact.simps) auto
  next
    case False
    obtain bs es1 where r: "recv (min n cap) es = (Got bs, es1)" "clean es1" "stream es = bs @ stream es1"
        "length bs \<le> min n cap" "bs = [] \<longrightarrow> stream es = []"
      using recv_clean [OF "1.prems"(1), of "min n cap"] "1.prems"(2) False by auto
    show ?thesis
    proof (cases "bs = []")
      case True
      then show ?thesis using r False by (subst recv_exact.simps) auto
    next
      case nonempty: False
      then obtain es' where "recv_exact cap (n - length bs) es1
          = (if n - length bs \<le> length (stream es1) then Some (take (n - length bs) (stream es1)) else None, es')"
          "clean es'" "stream es' = drop (n - length bs) (stream es1)"
        using "1.IH" [OF False r(1) [symmetric] refl nonempty r(2) "1.prems"(2)] by auto
      then show ?thesis using r False nonempty by (subst recv_exact.simps) auto
    qed
  qed
qed

text \<open>
  C30: What the receivers return depends only on the bytes that arrive, not on how TCP cut
  them into segments: on two connections that carry the same bytes and then close,
  \<^verbatim>\<open>recv_line\<close>, \<^verbatim>\<open>recv_all_text\<close> and the fixed-size read loops give the same results and
  leave the same bytes unread.
\<close>

theorem segmentation_independent:
  assumes "clean es" "clean fs" "stream es = stream fs" "cap > 0" "cap' > 0"
  shows "fst (recv_line es) = fst (recv_line fs) \<and> fst (snd (recv_line es)) = fst (snd (recv_line fs))
    \<and> stream (snd (snd (recv_line es))) = stream (snd (snd (recv_line fs)))
    \<and> recv_all_text es = recv_all_text fs
    \<and> fst (recv_exact cap n es) = fst (recv_exact cap' n fs)
    \<and> stream (snd (recv_exact cap n es)) = stream (snd (recv_exact cap' n fs))"
proof -
  obtain ok l e where e: "recv_line es = (ok, l, e)" by (cases "recv_line es")
  obtain ok' l' f where f: "recv_line fs = (ok', l', f)" by (cases "recv_line fs")
  have "(ok, l, stream e) = (ok', l', stream f)"
    using recv_line_loop_clean [OF assms(1) e [unfolded recv_line_def]]
      recv_line_loop_clean [OF assms(2) f [unfolded recv_line_def]] assms(3) by simp
  moreover have "recv_all_text es = recv_all_text fs"
    using recv_all_loop_clean [OF assms(1), of "[]"] recv_all_loop_clean [OF assms(2), of "[]"] assms(3)
    by (simp add: recv_all_text_def)
  ultimately show ?thesis
    using recv_exact_clean [OF assms(1,4), of n] recv_exact_clean [OF assms(2,5), of n] assms(3) e f by auto
qed

theorem segmentation_independent_witness:
  "recv_line [Data ''OK'', Data [], Data (''3'' @ [NL]), Data ''abc''] = (True, ''OK3'', [Data ''abc''])
   \<and> fst (snd (recv_line [Data ''OK'', Data [], Data (''3'' @ [NL]), Data ''abc'']))
     = fst (snd (recv_line [Data (''OK3'' @ [NL] @ ''abc'')]))"
proof
  show "recv_line [Data ''OK'', Data [], Data (''3'' @ [NL]), Data ''abc''] = (True, ''OK3'', [Data ''abc''])"
    by (simp add: recv_line_def recv_line_loop.simps)
  show "fst (snd (recv_line [Data ''OK'', Data [], Data (''3'' @ [NL]), Data ''abc'']))
     = fst (snd (recv_line [Data (''OK3'' @ [NL] @ ''abc'')]))"
    using segmentation_independent [of "[Data ''OK'', Data [], Data (''3'' @ [NL]), Data ''abc'']"
        "[Data (''OK3'' @ [NL] @ ''abc'')]" 1 1] by simp
qed

section \<open>Lines\<close>

text \<open>
  A line without carriage returns and of at most 8192 characters is received as it was
  sent; a longer one is refused, after 8193 characters.
\<close>

lemma first_line_at:
  "NL \<notin> set l \<Longrightarrow> CR \<notin> set l \<Longrightarrow> length acc + length l \<le> 8192 \<Longrightarrow>
   first_line acc (l @ NL # t) = (True, acc @ l, t)"
  by (induction l arbitrary: acc) auto

lemma recv_line_at:
  assumes "clean es" "stream es = l @ NL # t" "NL \<notin> set l" "CR \<notin> set l" "length l \<le> 8192"
  shows "\<exists>es'. recv_line es = (True, l, es') \<and> clean es' \<and> stream es' = t"
proof -
  obtain ok l' e where e: "recv_line es = (ok, l', e)" by (cases "recv_line es")
  then have "first_line [] (l @ NL # t) = (ok, l', stream e) \<and> clean e"
    using recv_line_loop_clean [OF assms(1) e [unfolded recv_line_def]] assms(2) by simp
  then show ?thesis using first_line_at [of l "[]" t] assms(3-5) e by simp
qed

lemma first_line_long:
  "NL \<notin> set l \<Longrightarrow> CR \<notin> set l \<Longrightarrow> length acc \<le> 8192 \<Longrightarrow> length acc + length l > 8192 \<Longrightarrow>
   \<not> fst (first_line acc (l @ t))"
proof (induction l arbitrary: acc)
  case (Cons c l)
  then show ?case using Cons.IH [of "acc @ [c]"] by (auto simp: Let_def)
qed simp

section \<open>Sending everything\<close>

lemma send_all_spec:
  "send_all_nothrow os buf = (ok, sent, os') \<Longrightarrow>
   (if ok then sent = buf else \<exists>rest. buf = sent @ rest \<and> rest \<noteq> [])"
proof (induction os buf arbitrary: ok sent os' rule: send_all_nothrow.induct)
  case (1 os buf)
  show ?case
  proof (cases "buf = []")
    case True
    with "1.prems" show ?thesis by (subst (asm) send_all_nothrow.simps) simp
  next
    case False
    show ?thesis
    proof (cases os)
      case Nil
      with False "1.prems" show ?thesis by (subst (asm) send_all_nothrow.simps) simp
    next
      case (Cons n os1)
      show ?thesis
      proof (cases "n \<le> 0")
        case True
        with False Cons "1.prems" show ?thesis by (subst (asm) send_all_nothrow.simps) simp
      next
        case pos: False
        obtain ok1 s1 o1 where r: "send_all_nothrow os1 (drop (nat n) buf) = (ok1, s1, o1)"
          by (cases "send_all_nothrow os1 (drop (nat n) buf)")
        have "ok = ok1" "sent = take (nat n) buf @ s1"
          using False Cons pos r "1.prems" by (subst (asm) (2) send_all_nothrow.simps; simp)+
        then show ?thesis
          using "1.IH" [OF False Cons pos r] append_take_drop_id [of "nat n" buf] by (metis append.assoc)
      qed
    qed
  qed
qed

text \<open>
  \<^verbatim>\<open>send_all_nothrow\<close> returns true exactly when every byte was handed to the kernel, in
  order, however the kernel splits the writes; when it returns false a proper prefix was
  sent. The loop ends for every sequence of kernel answers.
\<close>

theorem send_all_complete:
  assumes "send_all_nothrow os buf = (ok, sent, os')"
  shows "(ok \<longleftrightarrow> sent = buf) \<and> prefix sent buf"
  using send_all_spec [OF assms] by (auto simp: prefix_def split: if_splits)

theorem send_all_complete_witness:
  "send_all_nothrow [2, 1] ''hello'' = (True, ''hello'', []) \<and> prefix ''hello'' ''hello''
   \<and> send_all_nothrow [2, - 1] ''hello'' = (False, ''he'', []) \<and> prefix ''he'' ''hello''"
proof -
  have "send_all_nothrow [2, 1] ''hello'' = (True, ''hello'', [])"
    "send_all_nothrow [2, - 1] ''hello'' = (False, ''he'', [])"
    by (simp_all add: send_all_nothrow.simps)
  with send_all_complete [OF this(1)] send_all_complete [OF this(2)] show ?thesis by simp
qed

text \<open>
  A port is taken modulo \<open>2 ^ 16\<close> without a check: an endpoint whose port is out of
  range is connected to another port of the same host, so two endpoints that the program
  keeps apart may be one server.
\<close>

theorem port_truncated:
  assumes "fill_sockaddr_in_v4 os host p = Some (a, q)"
  shows "uint q = p mod 2 ^ 16 \<and> fill_sockaddr_in_v4 os host (p + 2 ^ 16 * k) = Some (a, q)"
proof -
  have "(word_of_int (p + 2 ^ 16 * k) :: 16 word) = word_of_int p"
    unfolding word_of_int_eq_iff by (simp add: take_bit_eq_mod)
  then show ?thesis
    using assms by (auto simp: fill_sockaddr_in_v4_def unsigned_of_int take_bit_eq_mod split: option.splits)
qed

theorem port_truncated_witness:
  "fill_sockaddr_in_v4 \<lparr>os_socket = True, os_inet_pton = \<lambda>_. Some 7, os_getaddrinfo = \<lambda>_. None, os_connect = \<lambda>_. True\<rparr>
     ''h'' (80 + 2 ^ 16 * 1) = Some (7, 80)"
  by (rule port_truncated [THEN conjunct2]) (simp add: fill_sockaddr_in_v4_def)

section \<open>What is received has arrived\<close>

lemma recv_arriving_le: "arriving (snd (recv n es)) \<le> arriving es"
  by (induction n es rule: recv.induct) auto

lemma recv_line_loop_le: "arriving (snd (snd (recv_line_loop acc es))) \<le> arriving es"
proof (induction acc es rule: recv_line_loop.induct)
  case (1 acc es)
  obtain r es1 where r: "recv 1 es = (r, es1)" by fastforce
  then have le: "arriving es1 \<le> arriving es" using recv_arriving_le [of 1 es] by simp
  show ?case
  proof (cases r)
    case (Got bs)
    show ?thesis
    proof (cases bs)
      case Nil
      then show ?thesis using r Got le by (subst recv_line_loop.simps) simp
    next
      case (Cons ch bs')
      then show ?thesis using r Got le "1.IH" [OF r [symmetric] Got Cons _ refl]
        by (subst recv_line_loop.simps) (auto simp: Let_def)
    qed
  qed (use r le in \<open>subst recv_line_loop.simps, simp\<close>)+
qed

lemma recv_exact_le: "recv_exact cap n es = (Some data, es') \<Longrightarrow> length data \<le> arriving es"
proof (induction cap n es arbitrary: data es' rule: recv_exact.induct)
  case (1 cap n es)
  show ?case
  proof (cases "n = 0")
    case True
    then show ?thesis using "1.prems" by (subst (asm) recv_exact.simps) auto
  next
    case False
    obtain r es1 where r: "recv (min n cap) es = (r, es1)" by fastforce
    then obtain bs where bs: "r = Got bs" "bs \<noteq> []"
      using "1.prems" False by (subst (asm) recv_exact.simps) (auto split: recv_result.splits if_splits)
    then obtain data1 es2 where d: "recv_exact cap (n - length bs) es1 = (Some data1, es2)" "data = bs @ data1"
      using "1.prems" False r by (subst (asm) recv_exact.simps) (auto split: prod.splits option.splits)
    show ?thesis
      using "1.IH" [OF False r [symmetric] bs d(1)] recv_arriving [of "min n cap" es bs es1] r bs(1) d(2) by simp
  qed
qed

end
