(* ===== verification/Manifest.thy ===== *)
theory Manifest
  imports Filesystem
begin

text \<open>
  Splitting a file and describing the pieces: \<^verbatim>\<open>core/chunk/chunker.cpp\<close> and
  \<^verbatim>\<open>core/manifest/manifest.cpp\<close>. The chunker reads a file in pieces of a given size; the
  manifest is the text that lists the ids of the chunks and the encryption data. Shown are
  that the pieces partition the file, that a manifest is parsed back from its own text,
  and what happens to a file name with white space in it.
\<close>

section \<open>The chunker\<close>

record chunk =
  ck_id :: string
  ck_bytes :: bytes

text \<open>The loop of \<^verbatim>\<open>in.read\<close>; \<open>n\<close> is the size of the buffer, \<open>rest\<close> the unread file.\<close>

function chunk_loop :: "nat \<Rightarrow> bytes \<Rightarrow> chunk list" where
  "chunk_loop n rest =
     (let got = take n rest in
      if got = [] then [] else \<lparr>ck_id = [], ck_bytes = got\<rparr> # chunk_loop n (drop n rest))"
  by pat_completeness auto
termination by (relation "measure (\<lambda>(n, rest). length rest)") auto

declare chunk_loop.simps [simp del]

text \<open>A \<^verbatim>\<open>vector<char>\<close> of more than \<open>2 ^ 63 - 1\<close> bytes is a \<^verbatim>\<open>length_error\<close>.\<close>

definition vector_char_max :: nat where
  "vector_char_max = 2 ^ 63 - 1"

definition chunkFile :: "disk \<Rightarrow> string \<Rightarrow> u64 \<Rightarrow> chunk list result" where
  "chunkFile d filePath chunkSize =
     (if chunkSize = 0 then Inl (Invalid_argument ''chunkSize must be > 0'')
      else case fs_read d filePath of
        None \<Rightarrow> Inl (Runtime_error (''Failed to open file for chunking: '' @ filePath))
      | Some content \<Rightarrow>
          if unat chunkSize > vector_char_max
          then Inl (Length_error ''cannot create std::vector larger than max_size()'')
          else Inr (chunk_loop (unat chunkSize) content))"

section \<open>The manifest\<close>

record manifest =
  mf_originalName :: string
  mf_originalSize :: u64
  mf_chunkSize :: u64
  mf_chunks :: "string list"
  mf_encrypted :: bool
  mf_encAlgo :: string
  mf_keyEncAlgo :: string
  mf_encryptedKeyHex :: string

definition empty_manifest :: manifest where
  "empty_manifest = \<lparr>mf_originalName = [], mf_originalSize = 0, mf_chunkSize = 0, mf_chunks = [],
     mf_encrypted = False, mf_encAlgo = [], mf_keyEncAlgo = [], mf_encryptedKeyHex = []\<rparr>"

definition serializeManifest :: "manifest \<Rightarrow> string" where
  "serializeManifest m =
     ''filename '' @ mf_originalName m @ [NL]
     @ ''size '' @ show_u64 (mf_originalSize m) @ [NL]
     @ ''chunk_size '' @ show_u64 (mf_chunkSize m) @ [NL]
     @ ''chunks '' @ show_nat (length (mf_chunks m)) @ [NL]
     @ concat (map (\<lambda>e. e @ [NL]) (mf_chunks m))
     @ (if mf_encrypted m then
          ''encrypted 1'' @ [NL]
          @ ''enc_algo '' @ mf_encAlgo m @ [NL]
          @ ''key_enc_algo '' @ mf_keyEncAlgo m @ [NL]
          @ ''enc_key '' @ mf_encryptedKeyHex m @ [NL]
        else ''encrypted 0'' @ [NL])"

definition malformed :: "string \<Rightarrow> exn" where
  "malformed what = Runtime_error (''Malformed manifest ('' @ what @ '')'')"

text \<open>\<^verbatim>\<open>in >> label >> x; if (!in || label != expected) throw ...\<close>\<close>

definition labelled :: "string \<Rightarrow> ('a \<Rightarrow> istream \<Rightarrow> 'a \<times> istream) \<Rightarrow> 'a \<Rightarrow> istream \<Rightarrow> ('a \<times> istream) result" where
  "labelled expected scan old s =
     (case read_token [] s of (label, s1) \<Rightarrow>
      case scan old s1 of (x, s2) \<Rightarrow>
        if in_fail s2 \<or> label \<noteq> expected then Inl (malformed expected) else Inr (x, s2))"

fun read_chunk_ids :: "nat \<Rightarrow> istream \<Rightarrow> (string list \<times> istream) result" where
  "read_chunk_ids 0 s = Inr ([], s)"
| "read_chunk_ids (Suc n) s =
     (case read_token [] s of (i, s1) \<Rightarrow>
        if in_fail s1 then Inl (malformed ''chunk id'')
        else bindR (read_chunk_ids n s1) (\<lambda>(is, s2). Inr (i # is, s2)))"

text \<open>\<^verbatim>\<open>reserve\<close> beyond \<^verbatim>\<open>max_size\<close>, for entries of 32 bytes, is a \<^verbatim>\<open>length_error\<close>.\<close>

definition entries_max :: nat where
  "entries_max = vector_char_max div 32"

definition parseManifestText :: "string \<Rightarrow> manifest result" where
  "parseManifestText text =
     bindR (labelled ''filename'' read_token [] (istringstream text)) (\<lambda>(originalName, s1).
     bindR (labelled ''size'' read_u64 0 s1) (\<lambda>(originalSize, s2).
     bindR (labelled ''chunk_size'' read_u64 0 s2) (\<lambda>(chunkSize, s3).
     bindR (labelled ''chunks'' read_u64 0 s3) (\<lambda>(chunkCount, s4).
     if unat chunkCount > entries_max then Inl (Length_error ''vector::reserve'')
     else bindR (read_chunk_ids (unat chunkCount) s4) (\<lambda>(chunks, s5).
     let m = empty_manifest\<lparr>mf_originalName := originalName, mf_originalSize := originalSize,
               mf_chunkSize := chunkSize, mf_chunks := chunks\<rparr> in
     case read_token [] s5 of (label, s6) \<Rightarrow>
     case read_int 0 s6 of (encFlag, s7) \<Rightarrow>
       if \<not> in_fail s7 \<and> label = ''encrypted'' \<and> encFlag = 1 then
         bindR (labelled ''enc_algo'' read_token [] s7) (\<lambda>(encAlgo, s8).
         bindR (labelled ''key_enc_algo'' read_token [] s8) (\<lambda>(keyEncAlgo, s9).
         bindR (labelled ''enc_key'' read_token [] s9) (\<lambda>(encryptedKeyHex, _).
         Inr (m\<lparr>mf_encrypted := True, mf_encAlgo := encAlgo, mf_keyEncAlgo := keyEncAlgo,
                mf_encryptedKeyHex := encryptedKeyHex\<rparr>))))
       else Inr m)))))"

definition writeManifest :: "disk \<Rightarrow> string \<Rightarrow> manifest \<Rightarrow> disk result" where
  "writeManifest d path m =
     (case fs_write d path (serializeManifest m) of
        None \<Rightarrow> Inl (Runtime_error (''Failed to open manifest for write: '' @ path))
      | Some d' \<Rightarrow> Inr d')"

definition readManifest :: "disk \<Rightarrow> string \<Rightarrow> manifest result" where
  "readManifest d path =
     (case fs_read d path of
        None \<Rightarrow> Inl (Runtime_error (''Failed to open manifest for read: '' @ path))
      | Some text \<Rightarrow>
          (case parseManifestText text of
             Inl e \<Rightarrow> Inl (Runtime_error (exn_what e @ '': '' @ path))
           | Inr m \<Rightarrow> Inr m))"

section \<open>The pieces partition the file\<close>

lemma chunk_loop_Nil [simp]: "chunk_loop n [] = []"
  by (simp add: chunk_loop.simps)

lemma chunk_loop_Cons:
  "n > 0 \<Longrightarrow> rest \<noteq> [] \<Longrightarrow> chunk_loop n rest = \<lparr>ck_id = [], ck_bytes = take n rest\<rparr> # chunk_loop n (drop n rest)"
  by (subst chunk_loop.simps) simp

lemma chunk_loop_spec:
  assumes "n > 0"
  shows "concat (map ck_bytes (chunk_loop n rest)) = rest
    \<and> (\<forall>c \<in> set (chunk_loop n rest). 0 < length (ck_bytes c) \<and> length (ck_bytes c) \<le> n)
    \<and> (\<forall>c \<in> set (butlast (chunk_loop n rest)). length (ck_bytes c) = n)
    \<and> length (chunk_loop n rest) = (length rest + n - 1) div n"
  using assms
proof (induction n rest rule: chunk_loop.induct)
  case (1 n rest)
  show ?case
  proof (cases "rest = []")
    case False
    then have got: "take n rest \<noteq> []" using "1.prems" by simp
    note IH = "1.IH" [OF refl got "1.prems"]
    have eq: "chunk_loop n rest = \<lparr>ck_id = [], ck_bytes = take n rest\<rparr> # chunk_loop n (drop n rest)"
      by (rule chunk_loop_Cons [OF "1.prems" False])
    have full: "length (take n rest) = n" if "chunk_loop n (drop n rest) \<noteq> []"
      using that by (cases "length rest \<le> n") auto
    have "length (chunk_loop n rest) = (length rest + n - 1) div n"
    proof (cases "length rest \<le> n")
      case True
      then have "chunk_loop n (drop n rest) = []" by simp
      moreover have "(length rest + n - 1) div n = 1"
        using True False by (cases rest) (auto intro!: div_nat_eqI)
      ultimately show ?thesis by (simp add: eq)
    next
      case False
      then have e: "length rest + n - 1 = n + (length rest - 1)" "length rest - n + n - 1 = length rest - 1" by simp_all
      have "(length rest + n - 1) div n = Suc ((length rest - 1) div n)"
        unfolding e(1) using "1.prems" div_add_self1 [of n "length rest - 1"] by simp
      then show ?thesis using IH e(2) by (simp add: eq)
    qed
    then show ?thesis using IH got full "1.prems" False by (auto simp: eq)
  qed (use "1.prems" in simp)
qed

lemma chunk_loop_ids: "c \<in> set (chunk_loop n rest) \<Longrightarrow> ck_id c = []"
proof (induction n rest rule: chunk_loop.induct)
  case (1 n rest)
  then show ?case by (subst (asm) (2) chunk_loop.simps) (auto simp: Let_def split: if_splits)
qed

lemma length_concat_nonempty:
  "(\<And>x. x \<in> set xs \<Longrightarrow> f x \<noteq> []) \<Longrightarrow> length xs \<le> length (concat (map f xs))"
proof (induction xs)
  case (Cons x xs)
  then have "f x \<noteq> []" "length xs \<le> length (concat (map f xs))" by auto
  then show ?case by (cases "f x") auto
qed simp

lemma chunkFile_parts:
  assumes "chunkFile d path chunkSize = Inr cs" "fs_read d path = Some content"
  shows "concat (map ck_bytes cs) = content \<and> length cs \<le> length content \<and> (\<forall>c \<in> set cs. ck_bytes c \<noteq> [])"
proof -
  have c: "cs = chunk_loop (unat chunkSize) content" "chunkSize \<noteq> 0"
    using assms by (auto simp: chunkFile_def split: if_splits)
  then have "unat chunkSize > 0" by (simp add: unat_gt_0)
  note spec = chunk_loop_spec [OF this, of content]
  then have ne: "\<forall>c \<in> set cs. ck_bytes c \<noteq> []" using c(1) by auto
  with length_concat_nonempty [of cs ck_bytes] spec c(1) show ?thesis by simp
qed

text \<open>
  C33: Chunking loses nothing and orders the pieces: the chunks joined in order are the
  file, none is empty, each but the last is exactly \<^verbatim>\<open>chunkSize\<close> bytes, their number is the
  size divided by \<^verbatim>\<open>chunkSize\<close>, rounded up, and no id is set.
\<close>

theorem chunkFile_partition:
  assumes "chunkFile d path chunkSize = Inr cs"
  shows "\<exists>content. fs_read d path = Some content \<and> concat (map ck_bytes cs) = content
    \<and> (\<forall>c \<in> set cs. ck_id c = [] \<and> 0 < length (ck_bytes c) \<and> length (ck_bytes c) \<le> unat chunkSize)
    \<and> (\<forall>c \<in> set (butlast cs). length (ck_bytes c) = unat chunkSize)
    \<and> length cs = (length content + unat chunkSize - 1) div unat chunkSize"
proof -
  obtain content where c: "fs_read d path = Some content" "cs = chunk_loop (unat chunkSize) content" "chunkSize \<noteq> 0"
    using assms by (auto simp: chunkFile_def split: if_splits option.splits)
  moreover have "unat chunkSize > 0" using c(3) by (simp add: unat_gt_0)
  ultimately show ?thesis
    using chunk_loop_spec [of "unat chunkSize" content] chunk_loop_ids [of _ "unat chunkSize" content] by simp
qed

theorem chunkFile_partition_witness:
  "\<exists>cs. chunkFile (\<lparr>files = [(''f'', ''abcde'')], dirs = [], can_open = \<lambda>_. True, can_rename = \<lambda>_ _. True,
     can_mkdir = \<lambda>_. True\<rparr>) ''f'' 2 = Inr cs \<and> concat (map ck_bytes cs) = ''abcde'' \<and> length cs = 3"
proof -
  let ?d = "\<lparr>files = [(''f'', ''abcde'')], dirs = [], can_open = \<lambda>_. True, can_rename = \<lambda>_ _. True,
     can_mkdir = \<lambda>_. True\<rparr>"
  obtain cs where cs: "chunkFile ?d ''f'' 2 = Inr cs"
    by (simp add: chunkFile_def fs_read_def vector_char_max_def)
  from chunkFile_partition [OF cs] cs show ?thesis by (simp add: fs_read_def)
qed

section \<open>A manifest is parsed back from its text\<close>

lemma labelled_at:
  assumes "field_codec emit scan ok" "ok x" "is_token l" "isspace c" "at_break t"
  shows "labelled l scan old (istringstream (l @ c # emit x @ t)) = Inr (x, istringstream t)"
  using assms(2-5) field_codec.extract_after_space [OF assms(1,2)]
  by (simp add: labelled_def tok.extract_at)

lemma labelled_space:
  "isspace c \<Longrightarrow> labelled l scan old (istringstream (c # t)) = labelled l scan old (istringstream t)"
  by (simp add: labelled_def tok.extract_space)

lemma labels_are_tokens [simp]:
  "is_token ''filename''" "is_token ''size''" "is_token ''chunk_size''" "is_token ''chunks''"
  "is_token ''encrypted''" "is_token ''enc_algo''" "is_token ''key_enc_algo''" "is_token ''enc_key''"
  by (simp_all add: is_token_def isspace_def)

text \<open>One line of the format, after the line break of the line before.\<close>

lemma labelled_line:
  assumes "field_codec emit scan ok" "ok x" "is_token l" "at_break t"
  shows "labelled l scan old (istringstream (NL # l @ SP # emit x @ t)) = Inr (x, istringstream t)"
  using labelled_at [OF assms(1-3), of SP] assms(4) by (simp add: labelled_space)

lemmas labelled_token = labelled_line [OF tok.field_codec_axioms]
lemmas labelled_u64 = labelled_line [OF u64c.field_codec_axioms TrueI]

lemma read_chunk_ids_lines:
  assumes "\<forall>i \<in> set is. is_token i"
  shows "read_chunk_ids (length is) (istringstream (NL # concat (map (\<lambda>e. e @ [NL]) is) @ t))
    = Inr (is, istringstream (NL # t))"
  using assms
proof (induction "is")
  case (Cons i "is")
  then show ?case by (simp add: text_simps)
qed simp

definition wf_manifest :: "manifest \<Rightarrow> bool" where
  "wf_manifest m \<longleftrightarrow> is_token (mf_originalName m) \<and> (\<forall>i \<in> set (mf_chunks m). is_token i)
     \<and> length (mf_chunks m) \<le> entries_max
     \<and> (if mf_encrypted m
        then is_token (mf_encAlgo m) \<and> is_token (mf_keyEncAlgo m) \<and> is_token (mf_encryptedKeyHex m)
        else mf_encAlgo m = [] \<and> mf_keyEncAlgo m = [] \<and> mf_encryptedKeyHex m = [])"

lemma show_nat_u64: "n \<le> entries_max \<Longrightarrow> show_nat n = show_u64 (of_nat n) \<and> unat (of_nat n :: u64) = n"
  by (simp add: show_u64_def unat_of_nat_u64 entries_max_def vector_char_max_def)

text \<open>The encryption block, with the line break before it.\<close>

definition enc_text :: "manifest \<Rightarrow> string" where
  "enc_text m = NL # ''encrypted'' @ SP # (if mf_encrypted m then show_int 1
        @ NL # ''enc_algo'' @ SP # mf_encAlgo m @ NL # ''key_enc_algo'' @ SP # mf_keyEncAlgo m
        @ NL # ''enc_key'' @ SP # mf_encryptedKeyHex m @ [NL]
      else show_int 0 @ [NL])"

definition head_text :: "manifest \<Rightarrow> string \<Rightarrow> string" where
  "head_text m t = ''filename'' @ SP # mf_originalName m @ NL # ''size'' @ SP # show_u64 (mf_originalSize m)
     @ NL # ''chunk_size'' @ SP # show_u64 (mf_chunkSize m) @ NL # ''chunks'' @ SP # show_u64 (of_nat (length (mf_chunks m)))
     @ NL # concat (map (\<lambda>e. e @ [NL]) (mf_chunks m)) @ t"

lemma serializeManifest_alt:
  assumes "length (mf_chunks m) \<le> entries_max"
  shows "serializeManifest m = head_text m (tl (enc_text m))"
proof -
  have "show_int 1 = ''1''" "show_int 0 = ''0''" by code_simp+
  then show ?thesis
    using show_nat_u64 [OF assms] by (simp add: serializeManifest_def enc_text_def head_text_def)
qed

lemma read_flag:
  assumes "in_int_range i" "at_break t"
  shows "read_token [] (istringstream (NL # ''encrypted'' @ SP # show_int i @ t)) = (''encrypted'', istringstream (SP # show_int i @ t))
    \<and> read_int 0 (istringstream (SP # show_int i @ t)) = (i, istringstream t)"
proof -
  have "read_token [] (istringstream (NL # ''encrypted'' @ (SP # show_int i @ t))) = (''encrypted'', istringstream (SP # show_int i @ t))"
    by (rule tok.extract_after_space) simp_all
  then show ?thesis using intc.extract_after_space [OF assms, of SP 0] by simp
qed

text \<open>What the parser makes of the lines before the encryption block.\<close>

lemma parse_head:
  assumes "is_token (mf_originalName m)" "\<forall>i \<in> set (mf_chunks m). is_token i" "length (mf_chunks m) \<le> entries_max"
  shows "parseManifestText (head_text m t) =
    (let m0 = empty_manifest\<lparr>mf_originalName := mf_originalName m, mf_originalSize := mf_originalSize m,
               mf_chunkSize := mf_chunkSize m, mf_chunks := mf_chunks m\<rparr> in
     case read_token [] (istringstream (NL # t)) of (label, s6) \<Rightarrow>
     case read_int 0 s6 of (encFlag, s7) \<Rightarrow>
       if \<not> in_fail s7 \<and> label = ''encrypted'' \<and> encFlag = 1 then
         bindR (labelled ''enc_algo'' read_token [] s7) (\<lambda>(encAlgo, s8).
         bindR (labelled ''key_enc_algo'' read_token [] s8) (\<lambda>(keyEncAlgo, s9).
         bindR (labelled ''enc_key'' read_token [] s9) (\<lambda>(encryptedKeyHex, _).
         Inr (m0\<lparr>mf_encrypted := True, mf_encAlgo := encAlgo, mf_keyEncAlgo := keyEncAlgo,
                mf_encryptedKeyHex := encryptedKeyHex\<rparr>))))
       else Inr m0)"
proof -
  let ?n = "length (mf_chunks m)"
  define t4 where "t4 = NL # concat (map (\<lambda>e. e @ [NL]) (mf_chunks m)) @ t"
  define t3 where "t3 = NL # ''chunks'' @ SP # show_u64 (of_nat ?n) @ t4"
  define t2 where "t2 = NL # ''chunk_size'' @ SP # show_u64 (mf_chunkSize m) @ t3"
  define t1 where "t1 = NL # ''size'' @ SP # show_u64 (mf_originalSize m) @ t2"
  have head: "head_text m t = ''filename'' @ SP # mf_originalName m @ t1"
    by (simp add: head_text_def t1_def t2_def t3_def t4_def)
  have "labelled ''filename'' read_token [] (istringstream (''filename'' @ SP # mf_originalName m @ t1))
      = Inr (mf_originalName m, istringstream t1)"
    by (rule labelled_at [OF tok.field_codec_axioms assms(1)]) (simp_all add: t1_def)
  moreover have "labelled ''size'' read_u64 0 (istringstream t1) = Inr (mf_originalSize m, istringstream t2)"
    unfolding t1_def by (rule labelled_u64) (simp_all add: t2_def)
  moreover have "labelled ''chunk_size'' read_u64 0 (istringstream t2) = Inr (mf_chunkSize m, istringstream t3)"
    unfolding t2_def by (rule labelled_u64) (simp_all add: t3_def)
  moreover have "labelled ''chunks'' read_u64 0 (istringstream t3) = Inr (of_nat ?n, istringstream t4)"
    unfolding t3_def by (rule labelled_u64) (simp_all add: t4_def)
  moreover have "read_chunk_ids ?n (istringstream t4) = Inr (mf_chunks m, istringstream (NL # t))"
    unfolding t4_def by (rule read_chunk_ids_lines [OF assms(2)])
  moreover have "unat (of_nat ?n :: u64) = ?n" using show_nat_u64 [OF assms(3)] by simp
  moreover have "\<not> entries_max < ?n" using assms(3) by simp
  ultimately show ?thesis
    unfolding parseManifestText_def head by (simp only: bindR_simps prod.case if_False)
qed

lemma parse_head_chunks:
  assumes "is_token (mf_originalName m)" "\<forall>i \<in> set (mf_chunks m). is_token i" "length (mf_chunks m) \<le> entries_max"
    "parseManifestText (head_text m t) = Inr m'"
  shows "mf_chunks m' = mf_chunks m"
  using assms(4) unfolding parse_head [OF assms(1-3)] Let_def
  by (auto simp: result_iff split: prod.splits if_splits)

lemma parse_serialize:
  assumes "wf_manifest m"
  shows "parseManifestText (serializeManifest m) = Inr m"
proof -
  have wf: "is_token (mf_originalName m)" "\<forall>i \<in> set (mf_chunks m). is_token i" "length (mf_chunks m) \<le> entries_max"
    using assms by (simp_all add: wf_manifest_def)
  have e: "NL # tl (enc_text m) = enc_text m" by (simp add: enc_text_def)
  show ?thesis
  proof (cases "mf_encrypted m")
    case False
    then have "mf_encAlgo m = []" "mf_keyEncAlgo m = []" "mf_encryptedKeyHex m = []"
      using assms by (simp_all add: wf_manifest_def)
    moreover have "enc_text m = NL # ''encrypted'' @ SP # show_int 0 @ [NL]"
      using False by (simp add: enc_text_def)
    moreover have "in_int_range 0" "at_break [NL]" by (simp_all add: in_int_range_def)
    ultimately show ?thesis
      using read_flag [of 0 "[NL]"] False
      unfolding serializeManifest_alt [OF wf(3)] parse_head [OF wf] e
      by (cases m) (simp only: prod.case Let_def, simp add: empty_manifest_def)
  next
    case True
    then have enc: "is_token (mf_encAlgo m)" "is_token (mf_keyEncAlgo m)" "is_token (mf_encryptedKeyHex m)"
      using assms by (simp_all add: wf_manifest_def)
    define t8 where "t8 = NL # ''enc_key'' @ SP # mf_encryptedKeyHex m @ [NL]"
    define t7 where "t7 = NL # ''key_enc_algo'' @ SP # mf_keyEncAlgo m @ t8"
    define t6 where "t6 = NL # ''enc_algo'' @ SP # mf_encAlgo m @ t7"
    have "enc_text m = NL # ''encrypted'' @ SP # show_int 1 @ t6"
      using True by (simp add: enc_text_def t6_def t7_def t8_def)
    moreover have "labelled ''enc_algo'' read_token [] (istringstream t6) = Inr (mf_encAlgo m, istringstream t7)"
      unfolding t6_def by (rule labelled_token [OF enc(1)]) (simp_all add: t7_def)
    moreover have "labelled ''key_enc_algo'' read_token [] (istringstream t7) = Inr (mf_keyEncAlgo m, istringstream t8)"
      unfolding t7_def by (rule labelled_token [OF enc(2)]) (simp_all add: t8_def)
    moreover have "labelled ''enc_key'' read_token [] (istringstream t8) = Inr (mf_encryptedKeyHex m, istringstream [NL])"
      unfolding t8_def by (rule labelled_token [OF enc(3)]) simp_all
    moreover have "in_int_range 1" "at_break t6" by (simp_all add: in_int_range_def t6_def)
    ultimately show ?thesis
      using read_flag [of 1 t6] True
      unfolding serializeManifest_alt [OF wf(3)] parse_head [OF wf] e
      by (cases m) (simp only: prod.case Let_def, simp add: empty_manifest_def)
  qed
qed

text \<open>
  C19: Round trip: the parser reads back every manifest the serializer writes, field for
  field, as long as the file name and the ids are free of white space, a plain manifest
  has no encryption data, and \<^verbatim>\<open>reserve\<close> accepts the number of chunks.
\<close>

theorem manifest_roundtrip:
  assumes "wf_manifest m"
  shows "parseManifestText (serializeManifest m) = Inr m"
    by (rule parse_serialize [OF assms])

definition sample_manifest :: manifest where
  "sample_manifest = \<lparr>mf_originalName = ''a.txt'', mf_originalSize = 5, mf_chunkSize = 3, mf_chunks = [''c0'', ''c1''],
     mf_encrypted = True, mf_encAlgo = ''AES-256-GCM'', mf_keyEncAlgo = ''RSA'', mf_encryptedKeyHex = ''00ff''\<rparr>"

theorem manifest_roundtrip_witness:
  "parseManifestText (serializeManifest sample_manifest) = Inr sample_manifest"
  by (rule manifest_roundtrip)
    (simp add: wf_manifest_def sample_manifest_def is_token_def isspace_def entries_max_def vector_char_max_def)

text \<open>
  A file name with a space in it breaks the round trip: the serializer writes it as it
  is, and the parser takes the second word for the label of the next line and throws
  \<^verbatim>\<open>Malformed manifest (size)\<close>. The file can be stored but not fetched again.
\<close>

theorem spaced_name_not_parsed:
  assumes "mf_originalName m = a @ SP # b @ t" "is_token a" "is_token b" "b \<noteq> ''size''" "at_break t"
  shows "parseManifestText (serializeManifest m) = Inl (Runtime_error ''Malformed manifest (size)'')"
proof -
  obtain rest where ser: "serializeManifest m = ''filename'' @ SP # a @ (SP # b @ (t @ NL # rest))"
    by (simp add: serializeManifest_def assms(1))
  have "labelled ''filename'' read_token [] (istringstream (''filename'' @ SP # a @ (SP # b @ (t @ NL # rest))))
      = Inr (a, istringstream (SP # b @ (t @ NL # rest)))"
    by (rule labelled_at [OF tok.field_codec_axioms assms(2)]) simp_all
  moreover have "at_break (t @ NL # rest)" using assms(5) by (cases t) auto
  then have "read_token [] (istringstream (SP # b @ (t @ NL # rest))) = (b, istringstream (t @ NL # rest))"
    by (intro tok.extract_after_space assms(3)) simp_all
  then have "labelled ''size'' read_u64 0 (istringstream (SP # b @ (t @ NL # rest))) = Inl (malformed ''size'')"
    using assms(4) by (simp only: labelled_def prod.case) (simp split: prod.splits)
  ultimately show ?thesis
    unfolding parseManifestText_def ser by (simp only: bindR_simps prod.case malformed_def) simp
qed

theorem spaced_name_not_parsed_witness:
  "parseManifestText (serializeManifest (sample_manifest\<lparr>mf_originalName := ''my file.txt''\<rparr>))
    = Inl (Runtime_error ''Malformed manifest (size)'')"
  by (rule spaced_name_not_parsed [of _ "''my''" "''file.txt''" "[]"]) (simp_all add: is_token_def isspace_def)

text \<open>
  A manifest written to a file that can be opened is read back from it; reading a path
  that holds no file, or a text that does not parse, throws with the path in the message.
\<close>

theorem manifest_file_roundtrip:
  assumes "wf_manifest m" "can_open d path"
  shows "(\<exists>d'. writeManifest d path m = Inr d' \<and> readManifest d' path = Inr m)
    \<and> (fs_read d path = None \<longrightarrow> readManifest d path = Inl (Runtime_error (''Failed to open manifest for read: '' @ path)))
    \<and> (\<forall>s e. fs_read d path = Some s \<and> parseManifestText s = Inl e \<longrightarrow>
         readManifest d path = Inl (Runtime_error (exn_what e @ '': '' @ path)))"
proof -
  obtain d' where d': "fs_write d path (serializeManifest m) = Some d'" using assms(2) by (simp add: fs_write_def)
  then have "fs_read d' path = Some (serializeManifest m)" by (simp add: fs_read_write)
  with d' have "writeManifest d path m = Inr d' \<and> readManifest d' path = Inr m"
    using parse_serialize [OF assms(1)] by (simp add: writeManifest_def readManifest_def)
  then show ?thesis by (auto simp: readManifest_def)
qed

theorem manifest_file_roundtrip_witness:
  "\<exists>d'. writeManifest \<lparr>files = [], dirs = [], can_open = \<lambda>_. True, can_rename = \<lambda>_ _. True, can_mkdir = \<lambda>_. True\<rparr>
      ''m'' sample_manifest = Inr d' \<and> readManifest d' ''m'' = Inr sample_manifest"
proof -
  have "wf_manifest sample_manifest"
    by (simp add: wf_manifest_def sample_manifest_def is_token_def isspace_def entries_max_def vector_char_max_def)
  from manifest_file_roundtrip [OF this, of "\<lparr>files = [], dirs = [], can_open = \<lambda>_. True, can_rename = \<lambda>_ _. True,
      can_mkdir = \<lambda>_. True\<rparr>" "''m''"] show ?thesis by simp
qed

end
