(* ===== verification/Peer_Client.thy ===== *)
theory Peer_Client
  imports Tcp Manifest
begin

text \<open>
  The client side of the peer protocol, \<^verbatim>\<open>core/peer/peer_client.cpp\<close>: six static functions,
  each of which opens one connection, sends a request, reads the answer and closes. The
  network is a parameter: how names resolve and which addresses accept a connection, what
  \<^verbatim>\<open>send\<close> answers, and what the program at an address does with the bytes it gets. Every
  function returns its result (\<open>Inl\<close> for an exception), how often it closed its
  descriptor, and the state of the network afterwards.
\<close>

section \<open>The network\<close>

record 'w network =
  net_sys :: "'w \<Rightarrow> net_os"
  net_sends :: "'w \<Rightarrow> sockaddr \<Rightarrow> int list"
  net_reply :: "'w \<Rightarrow> sockaddr \<Rightarrow> bytes \<Rightarrow> recv_event list \<times> 'w"

text \<open>
  \<^verbatim>\<open>send_all_or_throw\<close> for the parts of a request in order; the other end acts on what was
  sent even when a later part fails.
\<close>

fun send_parts :: "int list \<Rightarrow> bytes list \<Rightarrow> unit result \<times> bytes" where
  "send_parts os [] = (Inr (), [])"
| "send_parts os (m # ms) =
     (case send_all_or_throw os m of
        (Inl e, sent, _) \<Rightarrow> (Inl e, sent)
      | (Inr _, sent, os') \<Rightarrow> (case send_parts os' ms of (r, sent') \<Rightarrow> (r, sent @ sent')))"

definition exchange :: "'w network \<Rightarrow> 'w \<Rightarrow> sockaddr \<Rightarrow> bytes list \<Rightarrow> unit result \<times> recv_event list \<times> 'w" where
  "exchange net w a parts =
     (case send_parts (net_sends net w a) parts of (r, sent) \<Rightarrow>
      case net_reply net w a sent of (es, w') \<Rightarrow> (r, es, w'))"

definition net_connect :: "'w network \<Rightarrow> 'w \<Rightarrow> peer_endpoint \<Rightarrow> sockaddr result \<times> nat" where
  "net_connect net w p = connect_tcp_fatal_or_throw (net_sys net w) (ip p) (port p)"

section \<open>Requests\<close>

definition put_request :: "string \<Rightarrow> string \<Rightarrow> bytes \<Rightarrow> bytes list" where
  "put_request cmd k data =
     (cmd @ SP # k @ SP # show_nat (length data) @ [NL]) # (if data \<noteq> [] then [data] else [])"

definition name_request :: "string \<Rightarrow> string \<Rightarrow> bytes list" where
  "name_request cmd k = [cmd @ SP # k @ [NL]]"

definition putChunk :: "'w network \<Rightarrow> 'w \<Rightarrow> peer_endpoint \<Rightarrow> string \<Rightarrow> bytes \<Rightarrow> unit result \<times> nat \<times> 'w" where
  "putChunk net w peer chunkId data =
     (case net_connect net w peer of
        (Inl e, n) \<Rightarrow> (Inl e, n, w)
      | (Inr a, n) \<Rightarrow>
         (case exchange net w a (put_request ''PUT_CHUNK'' chunkId data) of
            (Inl e, es, w') \<Rightarrow> (Inl e, n + 1, w')
          | (Inr _, es, w') \<Rightarrow>
             (case recv_all_text es of
                Inl e \<Rightarrow> (Inl e, n + 1, w')
              | Inr resp \<Rightarrow>
                  if \<not> starts_with resp ''OK''
                  then (Inl (Runtime_error (''Peer PUT_CHUNK failed for '' @ chunkId)), n + 2, w')
                  else (Inr (), n + 1, w'))))"

text \<open>
  The part that \<^verbatim>\<open>getChunk\<close> and \<^verbatim>\<open>getManifest\<close> share, from the header on: the result and
  how often the descriptor is closed. \<open>what\<close> is the command, \<open>alloc\<close> the outcome of making
  a buffer of the announced size.
\<close>

definition receive_object :: "string \<Rightarrow> (u64 \<Rightarrow> unit result) \<Rightarrow> recv_event list \<Rightarrow> bytes result \<times> nat" where
  "receive_object what alloc es =
     (case recv_line es of (ok, header, es1) \<Rightarrow>
        if \<not> ok then (Inl (Runtime_error (''Failed to read '' @ what @ '' header'')), 2)
        else
          (case read_token [] (istringstream header) of (status, s1) \<Rightarrow>
           case read_u64 0 s1 of (sz, _) \<Rightarrow>
             if status \<noteq> ''OK'' then (Inl (Runtime_error (''Peer returned non-OK for '' @ what)), 2)
             else (case alloc sz of
                Inl e \<Rightarrow> (Inl e, 1)
              | Inr _ \<Rightarrow>
                 (case recv_exact (unat sz) (unat sz) es1 of
                    (None, _) \<Rightarrow> (Inl (Runtime_error (''Incomplete '' @ what @ '' payload'')), 2)
                  | (Some data, _) \<Rightarrow> (Inr data, 1)))))"

definition alloc_vector :: "u64 \<Rightarrow> unit result" where
  "alloc_vector sz = (if unat sz > vector_char_max
     then Inl (Length_error ''cannot create std::vector larger than max_size()'') else Inr ())"

definition alloc_string :: "u64 \<Rightarrow> unit result" where
  "alloc_string sz = (if unat sz > 2 ^ 63 - 2
     then Inl (Length_error ''basic_string::_M_replace_aux'') else Inr ())"

definition get_object ::
    "string \<Rightarrow> (u64 \<Rightarrow> unit result) \<Rightarrow> 'w network \<Rightarrow> 'w \<Rightarrow> peer_endpoint \<Rightarrow> string \<Rightarrow> bytes result \<times> nat \<times> 'w" where
  "get_object cmd alloc net w peer k =
     (case net_connect net w peer of
        (Inl e, n) \<Rightarrow> (Inl e, n, w)
      | (Inr a, n) \<Rightarrow>
         (case exchange net w a (name_request cmd k) of
            (Inl e, es, w') \<Rightarrow> (Inl e, n + 1, w')
          | (Inr _, es, w') \<Rightarrow> (case receive_object cmd alloc es of (r, m) \<Rightarrow> (r, n + m, w'))))"

definition getChunk :: "'w network \<Rightarrow> 'w \<Rightarrow> peer_endpoint \<Rightarrow> string \<Rightarrow> bytes result \<times> nat \<times> 'w" where
  "getChunk = get_object ''GET_CHUNK'' alloc_vector"

text \<open>\<^verbatim>\<open>hasChunk\<close> and \<^verbatim>\<open>hasManifest\<close>: only the failure to connect is thrown.\<close>

definition has_object :: "string \<Rightarrow> 'w network \<Rightarrow> 'w \<Rightarrow> peer_endpoint \<Rightarrow> string \<Rightarrow> bool result \<times> nat \<times> 'w" where
  "has_object cmd net w peer k =
     (case net_connect net w peer of
        (Inl e, n) \<Rightarrow> (Inl e, n, w)
      | (Inr a, n) \<Rightarrow>
         (case exchange net w a (name_request cmd k) of
            (Inl e, es, w') \<Rightarrow> (Inr False, n + 1, w')
          | (Inr _, es, w') \<Rightarrow>
             (case recv_line es of (ok, line, _) \<Rightarrow>
                (Inr (ok \<and> starts_with line ''OK''), n + 1, w'))))"

definition hasChunk_rpc :: "'w network \<Rightarrow> 'w \<Rightarrow> peer_endpoint \<Rightarrow> string \<Rightarrow> bool result \<times> nat \<times> 'w" where
  "hasChunk_rpc = has_object ''HAS_CHUNK''"

definition putManifest :: "'w network \<Rightarrow> 'w \<Rightarrow> peer_endpoint \<Rightarrow> string \<Rightarrow> string \<Rightarrow> unit result \<times> nat \<times> 'w" where
  "putManifest net w peer manifestId manifestText =
     (case net_connect net w peer of
        (Inl e, n) \<Rightarrow> (Inl e, n, w)
      | (Inr a, n) \<Rightarrow>
         (case exchange net w a (put_request ''PUT_MANIFEST'' manifestId manifestText) of
            (Inl e, es, w') \<Rightarrow> (Inl e, n + 1, w')
          | (Inr _, es, w') \<Rightarrow>
             (case recv_all_text es of
                Inl e \<Rightarrow> (Inl e, n + 1, w')
              | Inr resp \<Rightarrow>
                  if \<not> starts_with resp ''OK''
                  then (Inl (Runtime_error (''Peer PUT_MANIFEST failed for '' @ manifestId)), n + 2, w')
                  else (Inr (), n + 1, w'))))"

definition getManifest :: "'w network \<Rightarrow> 'w \<Rightarrow> peer_endpoint \<Rightarrow> string \<Rightarrow> bytes result \<times> nat \<times> 'w" where
  "getManifest = get_object ''GET_MANIFEST'' alloc_string"

definition hasManifest :: "'w network \<Rightarrow> 'w \<Rightarrow> peer_endpoint \<Rightarrow> string \<Rightarrow> bool result \<times> nat \<times> 'w" where
  "hasManifest = has_object ''HAS_MANIFEST''"

section \<open>Answers\<close>

lemma net_connect_cases: "net_connect net w p = (Inr a, n) \<Longrightarrow> n = 0"
  by (auto simp: net_connect_def connect_tcp_fatal_or_throw_def split: if_splits option.splits)

lemma net_connect_closes: "snd (net_connect net w p) \<le> 1"
  by (auto simp: net_connect_def connect_tcp_fatal_or_throw_def split: option.splits)

lemma send_parts_Inl: "send_parts os ms = (Inl e, sent) \<Longrightarrow> e = System_error ''send''"
  by (induction os ms arbitrary: sent rule: send_parts.induct)
    (auto simp: send_all_or_throw_def split: prod.splits sum.splits if_splits)

lemma send_parts_open: "send_parts [] ms = (Inr (), concat ms)"
  by (induction ms) (auto simp: send_all_or_throw_def send_all_nothrow.simps)

lemma recv_all_loop_Inl: "recv_all_loop out es = Inl e \<Longrightarrow> e = System_error ''recv''"
proof (induction out es rule: recv_all_loop.induct)
  case (1 out es)
  then show ?case
    by (subst (asm) (2) recv_all_loop.simps) (auto split: prod.splits recv_result.splits if_splits)
qed

lemma receive_object_closes:
  "receive_object what alloc es = (r, m) \<Longrightarrow> (case r of Inr _ \<Rightarrow> m = 1 | Inl _ \<Rightarrow> m = 1 \<or> m = 2)"
  by (auto simp: receive_object_def split: prod.splits if_splits sum.splits option.splits)

text \<open>
  C37: Closing of descriptors: a call that succeeds closes its socket exactly once, and a
  call that fails at most twice. It is closed twice exactly when the peer answered the
  \<^verbatim>\<open>PUT_CHUNK\<close> with anything but \<^verbatim>\<open>OK\<close>: before the exception and again in the handler, by
  when the number may belong to another thread's descriptor.
\<close>

theorem putChunk_closes:
  assumes "putChunk net w p k data = (r, n, w')"
  shows "(r = Inr () \<longrightarrow> n = 1) \<and> n \<le> 2
    \<and> (n = 2 \<longleftrightarrow> r = Inl (Runtime_error (''Peer PUT_CHUNK failed for '' @ k)))"
  using assms net_connect_closes [of net w p]
  by (auto simp: putChunk_def exchange_def net_connect_def connect_tcp_fatal_or_throw_def recv_all_text_def
      split: prod.splits sum.splits if_splits option.splits dest: send_parts_Inl recv_all_loop_Inl)

text \<open>A peer that answers every request with \<^verbatim>\<open>ERR\<close>.\<close>

definition refusing_net :: "unit network" where
  "refusing_net =
     \<lparr>net_sys = \<lambda>_. \<lparr>os_socket = True, os_inet_pton = \<lambda>_. Some 1, os_getaddrinfo = \<lambda>_. None, os_connect = \<lambda>_. True\<rparr>,
      net_sends = \<lambda>_ _. [], net_reply = \<lambda>w _ _. ([Data (''ERR'' @ [NL])], w)\<rparr>"

lemma refused_put:
  "fst (putChunk refusing_net () \<lparr>ip = ''h'', port = 9101\<rparr> ''ab'' ''xyz'')
     = Inl (Runtime_error (''Peer PUT_CHUNK failed for '' @ ''ab''))"
  by code_simp

theorem putChunk_closes_witness:
  "fst (snd (putChunk refusing_net () \<lparr>ip = ''h'', port = 9101\<rparr> ''ab'' ''xyz'')) = 2"
  using putChunk_closes [of refusing_net "()" "\<lparr>ip = ''h'', port = 9101\<rparr>" "''ab''" "''xyz''"] refused_put
  by (metis prod.collapse)

end
