(* ===== verification/Hex_Format.thy ===== *)
theory Hex_Format
  imports Iostream
begin

text \<open>
  Hexadecimal text. The program converts bytes to lower-case hex in three places
  (\<^verbatim>\<open>sha256_hex\<close>, the Kademlia helpers and the hybrid-encryption helpers) and back in
  two. This theory holds the shared digits and the locale \<open>hex_codec\<close>, the contract
  of such a pair of functions; each pair of the program is an interpretation of it.
\<close>

unbundle bit_operations_syntax

definition kHex :: string where
  "kHex = ''0123456789abcdef''"

text \<open>The two digits written for one byte: \<^verbatim>\<open>kHex[(b >> 4) & 0xF]\<close>, \<^verbatim>\<open>kHex[b & 0xF]\<close>.\<close>

definition hex_octet :: "octet \<Rightarrow> string" where
  "hex_octet b = [kHex ! unat (drop_bit 4 b AND 0xF), kHex ! unat (b AND 0xF)]"

text \<open>
  The decoding loop, \<^verbatim>\<open>for (i = 0; i + 1 < hex.size(); i += 2)\<close> over two-character
  substrings; \<^verbatim>\<open>stoi\<close> may throw. The cast to an 8-bit type keeps the low byte.
\<close>

fun hex_pairs :: "string \<Rightarrow> octet list result" where
  "hex_pairs (c # d # cs) =
     bindR (stoi16 [c, d]) (\<lambda>v. bindR (hex_pairs cs) (\<lambda>bs. Inr (of_int v # bs)))"
| "hex_pairs _ = Inr []"

text \<open>\<^verbatim>\<open>oss << std::hex << std::setw(2) << std::setfill('0') << n\<close> for a non-negative \<open>n\<close>.\<close>

fun show_hex :: "nat \<Rightarrow> string" where
  "show_hex n = (if n < 16 then [kHex ! n] else show_hex (n div 16) @ [kHex ! (n mod 16)])"

declare show_hex.simps [simp del]

definition setw2_hex :: "nat \<Rightarrow> string" where
  "setw2_hex n = replicate (2 - length (show_hex n)) (CHR ''0'') @ show_hex n"

lemma kHex_no_space: "c \<in> set kHex \<Longrightarrow> \<not> isspace c"
  by (auto simp: kHex_def isspace_def)

section \<open>The contract of a hex codec\<close>

locale hex_codec =
  fixes enc :: "octet list \<Rightarrow> string" and dec :: "string \<Rightarrow> octet list result"
  assumes length_enc: "length (enc bs) = 2 * length bs"
    and enc_alphabet: "set (enc bs) \<subseteq> set kHex"
    and dec_enc: "dec (enc bs) = Inr bs"
    and dec_odd: "odd (length s) \<Longrightarrow> dec s = Inr []"
    and dec_length: "even (length s) \<Longrightarrow> dec s = Inr bs \<Longrightarrow> length s = 2 * length bs"
begin

lemma enc_inj: "enc as = enc bs \<Longrightarrow> as = bs"
  using dec_enc by (metis sum.inject(2))

lemma enc_is_token: "bs \<noteq> [] \<Longrightarrow> is_token (enc bs)"
  using length_enc [of bs] enc_alphabet [of bs] kHex_no_space by (cases "enc bs") (auto simp: is_token_def)

lemma enc_no_char: "c \<notin> set kHex \<Longrightarrow> c \<notin> set (enc bs)"
  using enc_alphabet by blast

lemma enc_eq_Nil [simp]: "enc bs = [] \<longleftrightarrow> bs = []"
  using length_enc [of bs] by (metis length_0_conv mult_eq_0_iff zero_neq_numeral)

end

section \<open>Lemmas on hex digits\<close>

lemma nibble_bound: "unat ((b :: octet) AND 0xF) < 16"
proof -
  have "b AND 0xF \<le> 0xF" by (rule word_and_le1)
  then show ?thesis by (simp add: word_le_nat_alt)
qed

lemma kHex_nth_in: "n < 16 \<Longrightarrow> kHex ! n \<in> set kHex"
  by (rule nth_mem) (simp add: kHex_def)

lemma hex_octet_alphabet: "set (hex_octet b) \<subseteq> set kHex"
  by (simp add: hex_octet_def kHex_nth_in nibble_bound)

lemma length_hex_octet [simp]: "length (hex_octet b) = 2"
  by (simp add: hex_octet_def)

lemma upt16_cases: "n < 16 \<Longrightarrow> n \<in> set [0..<16]"
  by simp

lemma kHex_digit:
  assumes "n < 16"
  shows "isxdigit (kHex ! n) \<and> xdigit_val (kHex ! n) = n \<and> \<not> isspace (kHex ! n)
    \<and> kHex ! n \<noteq> CHR ''-'' \<and> kHex ! n \<noteq> CHR ''+'' \<and> kHex ! n \<noteq> CHR ''x'' \<and> kHex ! n \<noteq> CHR ''X''"
proof -
  have "\<forall>n \<in> set [0..<16]. isxdigit (kHex ! n) \<and> xdigit_val (kHex ! n) = n \<and> \<not> isspace (kHex ! n)
    \<and> kHex ! n \<noteq> CHR ''-'' \<and> kHex ! n \<noteq> CHR ''+'' \<and> kHex ! n \<noteq> CHR ''x'' \<and> kHex ! n \<noteq> CHR ''X''"
    by code_simp
  with assms show ?thesis by simp
qed

lemma stoi16_digits:
  assumes "m < 16" "n < 16"
  shows "stoi16 [kHex ! m, kHex ! n] = Inr (int (16 * m + n))"
  using kHex_digit [OF assms(1)] kHex_digit [OF assms(2)] assms
  by (auto simp: stoi16_def skip_0x_def)

lemma unat_low_nibble: "unat ((b :: octet) AND 0xF) = unat b mod 16"
proof -
  have "b AND 0xF = b mod 16"
    using take_bit_eq_mask [of 4 b] by (simp add: take_bit_eq_mod mask_eq_exp_minus_1)
  then show ?thesis by (simp add: unat_mod_distrib)
qed

lemma unat_high_nibble: "unat (drop_bit 4 (b :: octet) AND 0xF) = unat b div 16"
proof -
  have "unat b < 256" using unsigned_less [where w = b] by simp
  then have "unat b div 16 < 16" by simp
  moreover have "unat (drop_bit 4 b) = unat b div 16"
    by (simp add: drop_bit_eq_div unat_div_distrib)
  ultimately show ?thesis by (simp only: unat_low_nibble) simp
qed

lemma nibbles_join: "16 * unat (drop_bit 4 b AND 0xF) + unat ((b :: octet) AND 0xF) = unat b"
  unfolding unat_high_nibble by (simp add: unat_low_nibble)

lemma stoi16_hex_octet: "stoi16 (hex_octet b) = Inr (int (unat b))"
  unfolding hex_octet_def by (simp only: stoi16_digits [OF nibble_bound nibble_bound] nibbles_join)

lemma hex_pairs_octet: "hex_pairs (hex_octet b @ s) = bindR (hex_pairs s) (\<lambda>bs. Inr (b # bs))"
proof -
  have "hex_pairs (hex_octet b @ s) = bindR (stoi16 (hex_octet b)) (\<lambda>v. bindR (hex_pairs s) (\<lambda>bs. Inr (of_int v # bs)))"
    by (simp add: hex_octet_def)
  then show ?thesis by (simp add: stoi16_hex_octet)
qed

lemma hex_pairs_concat: "hex_pairs (concat (map hex_octet bs)) = Inr bs"
  by (induction bs) (auto simp: hex_pairs_octet)

lemma length_concat_hex: "length (concat (map hex_octet bs)) = 2 * length bs"
  by (induction bs) auto

lemma set_concat_hex: "set (concat (map hex_octet bs)) \<subseteq> set kHex"
  using hex_octet_alphabet by fastforce

lemma hex_pairs_length:
  "even (length s) \<Longrightarrow> hex_pairs s = Inr bs \<Longrightarrow> length s = 2 * length bs"
  by (induction s arbitrary: bs rule: hex_pairs.induct) (auto simp: result_iff)

lemma hex_octet_div_mod: "hex_octet b = [kHex ! (unat b div 16), kHex ! (unat b mod 16)]"
  unfolding hex_octet_def unat_high_nibble by (simp add: unat_low_nibble)

lemma setw2_hex_octet: "setw2_hex (unat b) = hex_octet b"
proof -
  have b: "unat b < 256" using unsigned_less [where w = b] by simp
  show ?thesis
  proof (cases "unat b < 16")
    case True
    then show ?thesis by (simp add: setw2_hex_def hex_octet_div_mod show_hex.simps kHex_def)
  next
    case False
    with b have "unat b div 16 < 16" by simp
    with False show ?thesis
      by (simp add: setw2_hex_def hex_octet_div_mod show_hex.simps [of "unat b"]
          show_hex.simps [of "unat b div 16"])
  qed
qed

end
