(* ===== verification/Crypto.thy ===== *)
theory Crypto
  imports Hex_Format Filesystem
begin

text \<open>
  The cryptographic layer: \<^verbatim>\<open>core/crypto/shq256.cpp\<close> (SHA-256 to lower-case hex) and
  \<^verbatim>\<open>core/crypto/hybrid.cpp\<close> (AES-256-GCM per chunk, RSA-OAEP wrapping of the file key,
  hex helpers). OpenSSL is a parameter: the digest is a function argument, the cipher
  and key APIs are records with one field per OpenSSL call, so the order of the calls,
  the check after each one and every exception are those of the source. The frees of
  the OpenSSL handles are counted, since the error paths free them too.
\<close>

section \<open>SHA-256\<close>

text \<open>\<^verbatim>\<open>sha256_hex\<close>: the 32 bytes of the digest, each as two hex digits through \<^verbatim>\<open>iomanip\<close>.\<close>

definition sha256_hex :: "(bytes \<Rightarrow> octet list) \<Rightarrow> bytes \<Rightarrow> string" where
  "sha256_hex sha256 data =
     (let hash = sha256 data in concat (map (\<lambda>i. setw2_hex (unat (hash ! i))) [0..<32]))"

text \<open>What the documentation of SHA-256 promises: a digest has \<^verbatim>\<open>SHA256_DIGEST_LENGTH\<close> bytes.\<close>

definition digest32 :: "(bytes \<Rightarrow> octet list) \<Rightarrow> bool" where
  "digest32 sha256 \<longleftrightarrow> (\<forall>data. length (sha256 data) = 32)"

section \<open>Hex helpers\<close>

definition to_hex :: "octet list \<Rightarrow> string" where
  "to_hex data = concat (map (\<lambda>b. [kHex ! unat (drop_bit 4 b AND 0xF), kHex ! unat (b AND 0xF)]) data)"

definition from_hex :: "string \<Rightarrow> octet list result" where
  "from_hex hex = (if length hex mod 2 \<noteq> 0 then Inr [] else hex_pairs hex)"

section \<open>File keys\<close>

record file_encryption_params =
  fp_key :: "octet list"
  fp_iv :: "octet list"

record encrypted_key =
  ek_alg :: string
  ek_blob :: "octet list"

text \<open>
  \<^verbatim>\<open>generate_file_key\<close>: the arguments are the outcomes of the two calls of \<^verbatim>\<open>RAND_bytes\<close>,
  \<open>None\<close> when the call does not return 1.
\<close>

definition generate_file_key ::
    "octet list option \<Rightarrow> octet list option \<Rightarrow> file_encryption_params result" where
  "generate_file_key rand_key rand_iv =
     (case rand_key of
        None \<Rightarrow> Inl (Runtime_error ''RAND_bytes failed'')
      | Some k \<Rightarrow> (case rand_iv of
          None \<Rightarrow> Inl (Runtime_error ''RAND_bytes failed'')
        | Some v \<Rightarrow> Inr \<lparr>fp_key = k, fp_iv = v\<rparr>))"

text \<open>\<^verbatim>\<open>ensure_ok(rc, what)\<close>: \<open>None\<close> stands for a return code other than 1.\<close>

definition ensure_ok :: "string \<Rightarrow> 'a option \<Rightarrow> 'a result" where
  "ensure_ok what rc =
     (case rc of None \<Rightarrow> Inl (Runtime_error (''OpenSSL error in '' @ what)) | Some x \<Rightarrow> Inr x)"

definition derive_chunk_iv :: "octet list \<Rightarrow> u64 \<Rightarrow> octet list result" where
  "derive_chunk_iv baseIv idx =
     (if length baseIv \<noteq> 12 then Inl (Runtime_error ''base IV must be 12 bytes'')
      else let ctr = (ucast (idx AND 0xFFFFFFFF) :: u32) in
        Inr (baseIv[8 := ucast (drop_bit 24 ctr AND 0xFF),
                    9 := ucast (drop_bit 16 ctr AND 0xFF),
                    10 := ucast (drop_bit 8 ctr AND 0xFF),
                    11 := ucast (ctr AND 0xFF)]))"

section \<open>AES-256-GCM\<close>

text \<open>\<^verbatim>\<open>static_cast<int>\<close> of a \<^verbatim>\<open>size_t\<close>, which keeps the low 32 bits as a signed number.\<close>

definition int_of_size :: "nat \<Rightarrow> int" where
  "int_of_size n = sint (of_nat n :: 32 word)"

text \<open>
  \<^verbatim>\<open>vector::resize(n)\<close> for an \<^verbatim>\<open>int\<close>: a negative number converts to a \<^verbatim>\<open>size_t\<close> beyond any
  vector.
\<close>

definition resize_ok :: "int \<Rightarrow> unit result" where
  "resize_ok n = (if n < 0 then Inl (Length_error ''vector::_M_default_append'') else Inr ())"

text \<open>
  The EVP cipher calls. A context is threaded through them; \<open>None\<close> is failure. The update
  calls get the buffer and the \<^verbatim>\<open>int\<close> that says how much of it to read.
\<close>

record 'c evp_cipher =
  ev_new :: "'c option"
  ev_einit :: "'c \<Rightarrow> 'c option"
  ev_ekey :: "'c \<Rightarrow> octet list \<Rightarrow> octet list \<Rightarrow> 'c option"
  ev_eupdate :: "'c \<Rightarrow> octet list \<Rightarrow> int \<Rightarrow> (octet list \<times> 'c) option"
  ev_efinal :: "'c \<Rightarrow> (octet list \<times> 'c) option"
  ev_get_tag :: "'c \<Rightarrow> octet list option"
  ev_dinit :: "'c \<Rightarrow> 'c option"
  ev_dkey :: "'c \<Rightarrow> octet list \<Rightarrow> octet list \<Rightarrow> 'c option"
  ev_dupdate :: "'c \<Rightarrow> octet list \<Rightarrow> int \<Rightarrow> (octet list \<times> 'c) option"
  ev_set_tag :: "'c \<Rightarrow> octet list \<Rightarrow> 'c option"
  ev_dfinal :: "'c \<Rightarrow> (octet list \<times> 'c) option"

text \<open>\<^verbatim>\<open>reinterpret_cast\<close> between \<^verbatim>\<open>char\<close> and \<^verbatim>\<open>unsigned char\<close> buffers.\<close>

definition octets_of :: "bytes \<Rightarrow> octet list" where
  "octets_of = map of_char"

definition chars_of :: "octet list \<Rightarrow> bytes" where
  "chars_of = map (\<lambda>b. char_of (unat b))"

text \<open>
  The \<^verbatim>\<open>try\<close> block of \<^verbatim>\<open>aes_gcm_encrypt\<close>, from a fresh context on. \<^verbatim>\<open>EncryptUpdate\<close> is
  skipped for an empty plaintext and otherwise gets the plaintext's length as an \<^verbatim>\<open>int\<close>; the
  tag is appended after a \<^verbatim>\<open>resize\<close> by \<^verbatim>\<open>ciphertext_len + 16\<close>, again an \<^verbatim>\<open>int\<close>.
\<close>

definition gcm_encrypt_body ::
    "'c evp_cipher \<Rightarrow> 'c \<Rightarrow> octet list \<Rightarrow> octet list \<Rightarrow> octet list \<Rightarrow> (octet list \<times> octet list) result" where
  "gcm_encrypt_body api ctx key iv pt =
     bindR (ensure_ok ''EVP_EncryptInit_ex'' (ev_einit api ctx)) (\<lambda>c1.
     bindR (ensure_ok ''EVP_EncryptInit_ex (key/iv)'' (ev_ekey api c1 key iv)) (\<lambda>c2.
     bindR (if pt \<noteq> [] then ensure_ok ''EVP_EncryptUpdate'' (ev_eupdate api c2 pt (int_of_size (length pt)))
            else Inr ([], c2))
       (\<lambda>(out, c3).
     bindR (ensure_ok ''EVP_EncryptFinal_ex'' (ev_efinal api c3)) (\<lambda>(fin, c4).
     bindR (ensure_ok ''EVP_CIPHER_CTX_ctrl(GET_TAG)'' (ev_get_tag api c4)) (\<lambda>tag.
     bindR (resize_ok (int_of_size (length (out @ fin) + 16))) (\<lambda>_.
     Inr (out @ fin, tag)))))))"

text \<open>\<^verbatim>\<open>aes_gcm_encrypt\<close>. The first component counts the calls of \<^verbatim>\<open>EVP_CIPHER_CTX_free\<close>.\<close>

definition aes_gcm_encrypt ::
    "'c evp_cipher \<Rightarrow> bytes \<Rightarrow> octet list \<Rightarrow> octet list \<Rightarrow> u64 \<Rightarrow> nat \<times> bytes result" where
  "aes_gcm_encrypt api plaintext key baseIv chunkIndex =
     (case derive_chunk_iv baseIv chunkIndex of
        Inl e \<Rightarrow> (0, Inl e)
      | Inr iv \<Rightarrow> (case ev_new api of
          None \<Rightarrow> (0, Inl (Runtime_error ''EVP_CIPHER_CTX_new failed''))
        | Some ctx \<Rightarrow> (1, bindR (gcm_encrypt_body api ctx key iv (octets_of plaintext))
            (\<lambda>(out, tag). Inr (chars_of (out @ tag))))))"

text \<open>
  The \<^verbatim>\<open>try\<close> block of \<^verbatim>\<open>aes_gcm_decrypt\<close> up to the call of \<^verbatim>\<open>EVP_DecryptFinal_ex\<close>,
  whose outcome the caller inspects. \<open>ctextLen\<close> is an \<^verbatim>\<open>int\<close>.
\<close>

definition gcm_decrypt_body ::
    "'c evp_cipher \<Rightarrow> 'c \<Rightarrow> octet list \<Rightarrow> octet list \<Rightarrow> octet list \<Rightarrow> int \<Rightarrow> octet list
       \<Rightarrow> (octet list \<times> (octet list \<times> 'c) option) result" where
  "gcm_decrypt_body api ctx key iv ctext ctextLen tag =
     bindR (ensure_ok ''EVP_DecryptInit_ex'' (ev_dinit api ctx)) (\<lambda>c1.
     bindR (ensure_ok ''EVP_DecryptInit_ex (key/iv)'' (ev_dkey api c1 key iv)) (\<lambda>c2.
     bindR (if 0 < ctextLen then ensure_ok ''EVP_DecryptUpdate'' (ev_dupdate api c2 ctext ctextLen)
            else Inr ([], c2))
       (\<lambda>(out, c3).
     bindR (ensure_ok ''EVP_CIPHER_CTX_ctrl(SET_TAG)'' (ev_set_tag api c3 tag)) (\<lambda>c4.
     Inr (out, ev_dfinal api c4)))))"

text \<open>
  \<^verbatim>\<open>aes_gcm_decrypt\<close>. When the tag does not verify, the context is freed before the
  \<^verbatim>\<open>throw\<close> and again by the enclosing \<^verbatim>\<open>catch (...)\<close>. The first \<^verbatim>\<open>resize\<close> stands before the
  \<^verbatim>\<open>try\<close>, so when it throws the context is not freed at all.
\<close>

definition aes_gcm_decrypt ::
    "'c evp_cipher \<Rightarrow> bytes \<Rightarrow> octet list \<Rightarrow> octet list \<Rightarrow> u64 \<Rightarrow> nat \<times> bytes result" where
  "aes_gcm_decrypt api ciphertext key baseIv chunkIndex =
     (if length ciphertext < 16 then (0, Inl (Runtime_error ''ciphertext too short''))
      else (case derive_chunk_iv baseIv chunkIndex of
        Inl e \<Rightarrow> (0, Inl e)
      | Inr iv \<Rightarrow>
         (let tagPos = length ciphertext - 16;
              ctext = octets_of (take tagPos ciphertext);
              tag = octets_of (drop tagPos ciphertext) in
          case ev_new api of
            None \<Rightarrow> (0, Inl (Runtime_error ''EVP_CIPHER_CTX_new failed''))
          | Some ctx \<Rightarrow> (case resize_ok (int_of_size tagPos) of
              Inl e \<Rightarrow> (0, Inl e)
            | Inr _ \<Rightarrow> (case gcm_decrypt_body api ctx key iv ctext (int_of_size tagPos) tag of
                Inl e \<Rightarrow> (1, Inl e)
              | Inr (out, None) \<Rightarrow> (2, Inl (Runtime_error ''AES-GCM tag verification failed''))
              | Inr (out, Some (fin, _)) \<Rightarrow>
                  (1, bindR (resize_ok (int_of_size (length (out @ fin)))) (\<lambda>_. Inr (chars_of (out @ fin)))))))))"

section \<open>RSA key wrapping\<close>

record ('k, 'x) evp_pkey =
  pk_read_pub :: "bytes \<Rightarrow> 'k option"
  pk_read_priv :: "bytes \<Rightarrow> 'k option"
  pk_ctx_new :: "'k \<Rightarrow> 'x option"
  pk_enc_init :: "'x \<Rightarrow> 'x option"
  pk_dec_init :: "'x \<Rightarrow> 'x option"
  pk_set_oaep :: "'x \<Rightarrow> 'x option"
  pk_enc_size :: "'x \<Rightarrow> octet list \<Rightarrow> nat option"
  pk_encrypt :: "'x \<Rightarrow> octet list \<Rightarrow> octet list option"
  pk_dec_size :: "'x \<Rightarrow> octet list \<Rightarrow> nat option"
  pk_decrypt :: "'x \<Rightarrow> octet list \<Rightarrow> octet list option"

definition encrypt_file_key_rsa ::
    "('k, 'x) evp_pkey \<Rightarrow> disk \<Rightarrow> file_encryption_params \<Rightarrow> string \<Rightarrow> encrypted_key result" where
  "encrypt_file_key_rsa api d params publicKeyPemPath =
     (case fs_read d publicKeyPemPath of
        None \<Rightarrow> Inl (Runtime_error (''Failed to open RSA public key: '' @ publicKeyPemPath))
      | Some pem \<Rightarrow> (case pk_read_pub api pem of
          None \<Rightarrow> Inl (Runtime_error ''Failed to read RSA public key'')
        | Some pkey \<Rightarrow>
           (let blob = fp_key params @ fp_iv params in
            case pk_ctx_new api pkey of
              None \<Rightarrow> Inl (Runtime_error ''EVP_PKEY_CTX_new failed'')
            | Some ctx \<Rightarrow>
                bindR (ensure_ok ''EVP_PKEY_encrypt_init'' (pk_enc_init api ctx)) (\<lambda>x1.
                bindR (ensure_ok ''EVP_PKEY_CTX_set_rsa_padding'' (pk_set_oaep api x1)) (\<lambda>x2.
                bindR (ensure_ok ''EVP_PKEY_encrypt (size)'' (pk_enc_size api x2 blob)) (\<lambda>_.
                bindR (ensure_ok ''EVP_PKEY_encrypt'' (pk_encrypt api x2 blob)) (\<lambda>out.
                Inr \<lparr>ek_alg = ''RSA'', ek_blob = out\<rparr>)))))))"

text \<open>
  \<^verbatim>\<open>decrypt_file_key_rsa\<close>. The first component counts the calls of \<^verbatim>\<open>EVP_PKEY_free\<close>: the
  check of the blob's length comes after the two frees and throws inside the \<^verbatim>\<open>try\<close>.
\<close>

definition decrypt_file_key_rsa ::
    "('k, 'x) evp_pkey \<Rightarrow> disk \<Rightarrow> encrypted_key \<Rightarrow> string \<Rightarrow> nat \<times> file_encryption_params result" where
  "decrypt_file_key_rsa api d ek privateKeyPemPath =
     (case fs_read d privateKeyPemPath of
        None \<Rightarrow> (0, Inl (Runtime_error (''Failed to open RSA private key: '' @ privateKeyPemPath)))
      | Some pem \<Rightarrow> (case pk_read_priv api pem of
          None \<Rightarrow> (0, Inl (Runtime_error ''Failed to read RSA private key''))
        | Some pkey \<Rightarrow> (case pk_ctx_new api pkey of
            None \<Rightarrow> (1, Inl (Runtime_error ''EVP_PKEY_CTX_new failed''))
          | Some ctx \<Rightarrow>
             (case bindR (ensure_ok ''EVP_PKEY_decrypt_init'' (pk_dec_init api ctx)) (\<lambda>x1.
                   bindR (ensure_ok ''EVP_PKEY_CTX_set_rsa_padding'' (pk_set_oaep api x1)) (\<lambda>x2.
                   bindR (ensure_ok ''EVP_PKEY_decrypt (size)'' (pk_dec_size api x2 (ek_blob ek))) (\<lambda>_.
                   ensure_ok ''EVP_PKEY_decrypt'' (pk_decrypt api x2 (ek_blob ek))))) of
                Inl e \<Rightarrow> (1, Inl e)
              | Inr out \<Rightarrow>
                  if length out < 32 + 12
                  then (2, Inl (Runtime_error ''Decrypted key blob too short''))
                  else (1, Inr \<lparr>fp_key = take 32 out, fp_iv = take 12 (drop 32 out)\<rparr>)))))"

section \<open>Hex digests\<close>

lemma to_hex_alt: "to_hex bs = concat (map hex_octet bs)"
  by (simp add: to_hex_def hex_octet_def [abs_def])

interpretation hexc: hex_codec to_hex from_hex
proof
  show "length (to_hex bs) = 2 * length bs" for bs
    by (simp add: to_hex_alt length_concat_hex)
  show "set (to_hex bs) \<subseteq> set kHex" for bs
    unfolding to_hex_alt by (rule set_concat_hex)
  show "from_hex (to_hex bs) = Inr bs" for bs
    by (simp add: to_hex_alt from_hex_def hex_pairs_concat length_concat_hex)
  show "odd (length s) \<Longrightarrow> from_hex s = Inr []" for s
    by (simp add: from_hex_def odd_iff_mod_2_eq_one)
  show "even (length s) \<Longrightarrow> from_hex s = Inr bs \<Longrightarrow> length s = 2 * length bs" for s bs
    by (auto simp: from_hex_def split: if_splits dest: hex_pairs_length)
qed

lemma digest32D: "digest32 sha256 \<Longrightarrow> length (sha256 d) = 32"
  by (simp add: digest32_def)

lemma sha256_hex_to_hex:
  assumes "length (sha256 d) = 32"
  shows "sha256_hex sha256 d = to_hex (sha256 d)"
proof -
  have "map (\<lambda>i. setw2_hex (unat (sha256 d ! i))) [0..<32] = map hex_octet (map ((!) (sha256 d)) [0..<32])"
    by (simp only: setw2_hex_octet map_map o_def)
  also have "map ((!) (sha256 d)) [0..<32] = sha256 d"
    using map_nth [of "sha256 d"] assms by simp
  finally show ?thesis by (simp only: sha256_hex_def to_hex_alt Let_def)
qed

lemma sha256_hex_length: "length (sha256 d) = 32 \<Longrightarrow> length (sha256_hex sha256 d) = 64"
  by (simp add: sha256_hex_to_hex hexc.length_enc)

lemma sha256_hex_token: "length (sha256 d) = 32 \<Longrightarrow> is_token (sha256_hex sha256 d)"
  by (simp add: sha256_hex_to_hex) (rule hexc.enc_is_token, auto)

lemma sha256_hex_alphabet: "length (sha256 d) = 32 \<Longrightarrow> set (sha256_hex sha256 d) \<subseteq> set kHex"
  by (simp add: sha256_hex_to_hex hexc.enc_alphabet)

lemma sha256_hex_eq_iff:
  "length (sha256 a) = 32 \<Longrightarrow> length (sha256 b) = 32 \<Longrightarrow>
   sha256_hex sha256 a = sha256_hex sha256 b \<longleftrightarrow> sha256 a = sha256 b"
  by (auto simp: sha256_hex_to_hex dest: hexc.enc_inj)

text \<open>A digest function for the witnesses: the first 32 bytes of the zero-padded data.\<close>

definition pad_digest :: "bytes \<Rightarrow> octet list" where
  "pad_digest d = take 32 (map of_char d @ replicate 32 0)"

lemma digest32_pad [simp]: "digest32 pad_digest"
  by (auto simp: digest32_def pad_digest_def min_def)

section \<open>Nonces\<close>

lemma bit_byte_of_u32:
  "r < 8 \<Longrightarrow> bit (ucast (drop_bit k (a :: u32) AND 0xFF) :: octet) r = bit a (k + r)"
proof -
  assume r: "r < 8"
  have "bit (0xFF :: u32) r = (r < 8)"
    using bit_mask_iff [where 'a = u32, of 8 r] r by (simp add: mask_eq_exp_minus_1)
  with r show ?thesis by (simp add: bit_ucast_iff bit_and_iff bit_drop_bit_eq)
qed

lemma u32_eq_of_bytes:
  fixes a b :: u32
  assumes "\<And>k. k \<in> {0, 8, 16, 24} \<Longrightarrow>
    (ucast (drop_bit k a AND 0xFF) :: octet) = ucast (drop_bit k b AND 0xFF)"
  shows "a = b"
proof (rule bit_word_eqI)
  fix n assume "n < LENGTH(32)"
  then have n: "n < 32" by simp
  define k where "k = 8 * (n div 8)"
  define r where "r = n mod 8"
  have nk: "n = k + r" and r: "r < 8" by (simp_all add: k_def r_def)
  have "n div 8 < 4" using n by simp
  then have "n div 8 = 0 \<or> n div 8 = 1 \<or> n div 8 = 2 \<or> n div 8 = 3" by auto
  then have "k \<in> {0, 8, 16, 24}" by (auto simp: k_def)
  then have "bit (ucast (drop_bit k a AND 0xFF) :: octet) r = bit (ucast (drop_bit k b AND 0xFF) :: octet) r"
    using assms by simp
  with r show "bit a n = bit b n" by (simp only: bit_byte_of_u32 nk)
qed

lemma unat_u32_counter: "unat (ucast (i AND 0xFFFFFFFF :: u64) :: u32) = unat i mod 2 ^ 32"
proof -
  have "i AND 0xFFFFFFFF = i AND mask 32" by (simp add: mask_eq_exp_minus_1)
  then have "unat (ucast (i AND 0xFFFFFFFF) :: u32) = unat (ucast (take_bit 32 i) :: u32)"
    by (simp add: take_bit_eq_mask)
  also have "\<dots> = take_bit 32 (take_bit 32 (unat i))"
    by (simp only: unsigned_ucast_eq unsigned_take_bit_eq) simp
  finally show ?thesis by (simp add: take_bit_eq_mod)
qed

lemma chunk_iv_eq:
  assumes "length baseIv = 12"
  shows "\<exists>v w. derive_chunk_iv baseIv i = Inr v \<and> derive_chunk_iv baseIv j = Inr w
    \<and> length v = 12 \<and> take 8 v = take 8 baseIv
    \<and> (v = w \<longleftrightarrow> unat i mod 2 ^ 32 = unat j mod 2 ^ 32)"
proof -
  obtain b0 b1 b2 b3 b4 b5 b6 b7 b8 b9 b10 b11 where
    b: "baseIv = [b0, b1, b2, b3, b4, b5, b6, b7, b8, b9, b10, b11]"
    using assms by (auto simp: length_Suc_conv eval_nat_numeral)
  define c d :: u32 where "c = ucast (i AND 0xFFFFFFFF)" and "d = ucast (j AND 0xFFFFFFFF)"
  define f where "f = (\<lambda>x :: u32. [b0, b1, b2, b3, b4, b5, b6, b7, ucast (drop_bit 24 x AND 0xFF),
      ucast (drop_bit 16 x AND 0xFF), ucast (drop_bit 8 x AND 0xFF), ucast (x AND 0xFF)] :: octet list)"
  have iv: "derive_chunk_iv baseIv i = Inr (f c)" "derive_chunk_iv baseIv j = Inr (f d)"
    by (simp_all add: derive_chunk_iv_def b Let_def f_def c_def d_def)
  have "c = d" if "f c = f d"
    using that by (intro u32_eq_of_bytes) (auto simp: f_def)
  then have "f c = f d \<longleftrightarrow> c = d" by auto
  also have "\<dots> \<longleftrightarrow> unat i mod 2 ^ 32 = unat j mod 2 ^ 32"
    unfolding c_def d_def by (simp only: word_unat_eq_iff unat_u32_counter)
  finally show ?thesis using iv by (auto simp: f_def b)
qed

text \<open>
  C39: Two chunks of one file get the same AES-GCM nonce exactly when their indices agree
  modulo \<open>2 ^ 32\<close>; the first eight bytes of the base IV are kept. So no nonce repeats
  within a file of at most \<open>2 ^ 32\<close> chunks, and one repeats beyond.
\<close>

theorem derive_chunk_iv_nonce:
  assumes "length baseIv = 12"
  shows "\<exists>v w. derive_chunk_iv baseIv i = Inr v \<and> derive_chunk_iv baseIv j = Inr w
    \<and> length v = 12 \<and> take 8 v = take 8 baseIv
    \<and> (v = w \<longleftrightarrow> unat i mod 2 ^ 32 = unat j mod 2 ^ 32)"
  by (rule chunk_iv_eq [OF assms])

theorem derive_chunk_iv_nonce_witness:
  "\<exists>v w. derive_chunk_iv (replicate 12 7) 3 = Inr v \<and> derive_chunk_iv (replicate 12 7) 4 = Inr w
    \<and> length v = 12 \<and> take 8 v = take 8 (replicate 12 (7 :: octet))
    \<and> (v = w \<longleftrightarrow> unat (3 :: u64) mod 2 ^ 32 = unat (4 :: u64) mod 2 ^ 32)"
  by (rule derive_chunk_iv_nonce) simp

section \<open>What OpenSSL documents of AES-GCM\<close>

text \<open>
  \<open>sealed api key iv pt ct tag\<close>: a sequence of encryption calls under \<open>key\<close> and \<open>iv\<close>
  on the plaintext \<open>pt\<close> produced \<open>ct\<close> and \<open>tag\<close>. \<open>opened\<close> is the same for the
  decryption calls. The documented law is that what was sealed opens again, with a
  16-byte tag and a ciphertext as long as the plaintext, for the lengths an \<^verbatim>\<open>int\<close> can say.
\<close>

definition sealed :: "'c evp_cipher \<Rightarrow> octet list \<Rightarrow> octet list \<Rightarrow> octet list \<Rightarrow> octet list \<Rightarrow> octet list \<Rightarrow> bool" where
  "sealed api key iv pt ct tag \<longleftrightarrow> (\<exists>c0 c1 c2 c3 c4 out fin.
     ev_new api = Some c0 \<and> ev_einit api c0 = Some c1 \<and> ev_ekey api c1 key iv = Some c2 \<and>
     (if pt = [] then out = [] \<and> c3 = c2 else ev_eupdate api c2 pt (int (length pt)) = Some (out, c3)) \<and>
     ev_efinal api c3 = Some (fin, c4) \<and> ev_get_tag api c4 = Some tag \<and> ct = out @ fin)"

definition opened :: "'c evp_cipher \<Rightarrow> octet list \<Rightarrow> octet list \<Rightarrow> octet list \<Rightarrow> octet list \<Rightarrow> octet list \<Rightarrow> bool" where
  "opened api key iv ct tag pt \<longleftrightarrow> (\<exists>c0 c1 c2 c3 c4 c5 out fin.
     ev_new api = Some c0 \<and> ev_dinit api c0 = Some c1 \<and> ev_dkey api c1 key iv = Some c2 \<and>
     (if ct = [] then out = [] \<and> c3 = c2 else ev_dupdate api c2 ct (int (length ct)) = Some (out, c3)) \<and>
     ev_set_tag api c3 tag = Some c4 \<and> ev_dfinal api c4 = Some (fin, c5) \<and> pt = out @ fin)"

definition gcm_documented :: "'c evp_cipher \<Rightarrow> bool" where
  "gcm_documented api \<longleftrightarrow> (\<forall>key iv pt ct tag. length pt + 16 < 2 ^ 31 \<and> sealed api key iv pt ct tag \<longrightarrow>
     length tag = 16 \<and> length ct = length pt \<and> opened api key iv ct tag pt)"

lemma ensure_ok_iff [result_iff]:
  "ensure_ok what rc = Inr x \<longleftrightarrow> rc = Some x"
  "ensure_ok what rc = Inl e \<longleftrightarrow> rc = None \<and> e = Runtime_error (''OpenSSL error in '' @ what)"
  by (auto simp: ensure_ok_def split: option.splits)

lemma ensure_ok_simps [simp]:
  "ensure_ok what (Some x) = Inr x"
  "ensure_ok what None = Inl (Runtime_error (''OpenSSL error in '' @ what))"
  by (simp_all add: ensure_ok_def)

lemma octets_chars [simp]: "octets_of (chars_of bs) = bs"
proof -
  have "of_char (char_of (unat b)) = b" for b :: octet
  proof -
    have "unat b < 256" using unsigned_less [where w = b] by simp
    then have "(of_char (char_of (unat b)) :: nat) = unat b" by (simp add: of_char_of)
    then have "(of_nat (of_char (char_of (unat b))) :: octet) = of_nat (unat b)" by (rule arg_cong)
    then show ?thesis by (simp only: of_nat_of_char) simp
  qed
  then show ?thesis by (simp add: octets_of_def chars_of_def o_def)
qed

lemma chars_octets [simp]: "chars_of (octets_of cs) = cs"
proof -
  have "char_of (unat (of_char c :: octet)) = c" for c
  proof -
    have "unat (of_nat (of_char c) :: octet) = (of_char c :: nat)"
      using nat_of_char_less_256 [of c] by (simp add: unat_of_nat)
    then have "unat (of_char c :: octet) = (of_char c :: nat)" by (simp add: of_nat_of_char)
    then show ?thesis by simp
  qed
  then show ?thesis by (simp add: octets_of_def chars_of_def o_def)
qed

lemma length_octets_chars [simp]:
  "length (octets_of cs) = length cs" "length (chars_of bs) = length bs"
  by (simp_all add: octets_of_def chars_of_def)

lemma octets_of_eq_Nil [simp]: "octets_of cs = [] \<longleftrightarrow> cs = []"
  by (simp add: octets_of_def)

lemma octets_of_Nil [simp]: "octets_of [] = []" "chars_of [] = []"
  by (simp_all add: octets_of_def chars_of_def)

lemma chars_of_append: "chars_of (xs @ ys) = chars_of xs @ chars_of ys"
  by (simp add: chars_of_def)

lemma octets_take_drop: "octets_of (take n cs) = take n (octets_of cs)" "octets_of (drop n cs) = drop n (octets_of cs)"
  by (simp_all add: octets_of_def take_map drop_map)

lemma int_of_size_small: "n < 2 ^ 31 \<Longrightarrow> int_of_size n = int n"
  by (simp add: int_of_size_def signed_of_nat signed_take_bit_int_eq_self)

text \<open>What the cast loses: of \<open>2 ^ 32 + k\<close> bytes the cipher is told about \<open>k\<close>.\<close>

lemma int_of_size_wraps:
  assumes "k < 2 ^ 31"
  shows "int_of_size (2 ^ 32 + k) = int k"
proof -
  have "(of_nat (2 ^ 32 + k) :: 32 word) = of_nat k"
    by (rule word_unat_eq_iff [THEN iffD2]) (simp add: unat_of_nat del: of_nat_add)
  then show ?thesis using int_of_size_small [OF assms] by (simp only: int_of_size_def)
qed

lemma resize_ok_small [simp]: "n < 2 ^ 31 \<Longrightarrow> resize_ok (int_of_size n) = Inr ()"
  by (simp add: resize_ok_def int_of_size_small)

lemma resize_ok_iff [result_iff]:
  "resize_ok n = Inr x \<longleftrightarrow> 0 \<le> n"
  "resize_ok n = Inl e \<longleftrightarrow> n < 0 \<and> e = Length_error ''vector::_M_default_append''"
  by (auto simp: resize_ok_def)

lemma gcm_encrypt_sealed:
  "length pt < 2 ^ 31 \<Longrightarrow> ev_new api = Some c0 \<Longrightarrow> gcm_encrypt_body api c0 key iv pt = Inr (ct, tag) \<Longrightarrow>
   sealed api key iv pt ct tag"
  unfolding sealed_def gcm_encrypt_body_def bindR_Inr_iff ensure_ok_iff
  by (cases "pt = []") (auto simp: result_iff int_of_size_small)

lemma opened_gcm_decrypt:
  assumes "opened api key iv ct tag pt"
  shows "\<exists>c0 out fin c. ev_new api = Some c0 \<and> gcm_decrypt_body api c0 key iv ct (int (length ct)) tag = Inr (out, Some (fin, c))
    \<and> pt = out @ fin"
  using assms by (auto simp: gcm_decrypt_body_def opened_def split: if_splits)

lemma aes_gcm_encrypt_InrD:
  assumes "aes_gcm_encrypt api pt key baseIv i = (n, Inr ct)" "length pt < 2 ^ 31"
  shows "\<exists>iv out tag. derive_chunk_iv baseIv i = Inr iv \<and> sealed api key iv (octets_of pt) out tag
    \<and> ct = chars_of (out @ tag) \<and> n = 1"
proof -
  obtain iv ctx out tag where "derive_chunk_iv baseIv i = Inr iv" "ev_new api = Some ctx" "n = 1"
      "gcm_encrypt_body api ctx key iv (octets_of pt) = Inr (out, tag)" "ct = chars_of (out @ tag)"
    using assms(1) by (auto simp: aes_gcm_encrypt_def bindR_Inr_iff split: sum.splits option.splits)
  moreover from this have "sealed api key iv (octets_of pt) out tag"
    using gcm_encrypt_sealed [of "octets_of pt" api ctx] assms(2) by simp
  ultimately show ?thesis by blast
qed

lemma aes_gcm_reopens:
  assumes "gcm_documented api" "aes_gcm_encrypt api pt key baseIv i = (n, Inr ct)" "length pt + 16 < 2 ^ 31"
  shows "length ct = length pt + 16 \<and> aes_gcm_decrypt api ct key baseIv i = (1, Inr pt)"
proof -
  obtain iv out tag where iv: "derive_chunk_iv baseIv i = Inr iv"
    and s: "sealed api key iv (octets_of pt) out tag" and ct: "ct = chars_of (out @ tag)"
    using aes_gcm_encrypt_InrD [OF assms(2)] assms(3) by auto
  have doc: "length tag = 16" "length out = length pt" "opened api key iv out tag (octets_of pt)"
    using assms(1) [unfolded gcm_documented_def, rule_format, OF conjI, OF _ s] assms(3) by simp_all
  then obtain c0 o' f c where op: "ev_new api = Some c0"
    "gcm_decrypt_body api c0 key iv out (int (length out)) tag = Inr (o', Some (f, c))" "octets_of pt = o' @ f"
    using opened_gcm_decrypt by blast
  have len: "length ct = length pt + 16" by (simp add: ct doc)
  have "octets_of (take (length ct - 16) ct) = out" "octets_of (drop (length ct - 16) ct) = tag"
    by (simp_all add: octets_take_drop ct doc)
  moreover have "length (o' @ f) = length pt" by (metis op(3) length_octets_chars(1))
  moreover have "int_of_size (length pt) = int (length pt)" "resize_ok (int (length pt)) = Inr ()"
    using assms(3) by (simp_all add: int_of_size_small resize_ok_def)
  ultimately have "aes_gcm_decrypt api ct key baseIv i = (1, Inr (chars_of (o' @ f)))"
    using op(2) [unfolded doc(2)] by (simp add: aes_gcm_decrypt_def len iv op(1) Let_def)
  also have "chars_of (o' @ f) = pt"
    by (metis op(3) chars_octets)
  finally show ?thesis using len by simp
qed

text \<open>
  C17: A chunk encrypted by \<^verbatim>\<open>aes_gcm_encrypt\<close> is 16 bytes longer than its plaintext and
  \<^verbatim>\<open>aes_gcm_decrypt\<close> with the same key, base IV and index gives the plaintext back, freeing
  the context once, for every cipher API that behaves as OpenSSL documents and every chunk
  below \<open>2 ^ 31 - 16\<close> bytes. (From there on the lengths no longer fit the code's \<^verbatim>\<open>int\<close>s.)
\<close>

theorem aes_gcm_roundtrip:
  assumes "gcm_documented api" "aes_gcm_encrypt api pt key baseIv i = (n, Inr ct)" "length pt + 16 < 2 ^ 31"
  shows "length ct = length pt + 16 \<and> aes_gcm_decrypt api ct key baseIv i = (1, Inr pt)"
  by (rule aes_gcm_reopens [OF assms])

text \<open>An instance of the API for the witnesses: the identity cipher with a constant tag, which it checks.\<close>

definition plain_cipher :: "bool evp_cipher" where
  "plain_cipher = \<lparr>ev_new = Some False, ev_einit = Some, ev_ekey = (\<lambda>c k v. Some c),
     ev_eupdate = (\<lambda>c p n. Some (take (nat n) p, c)), ev_efinal = (\<lambda>c. Some ([], c)),
     ev_get_tag = (\<lambda>c. Some (replicate 16 9)), ev_dinit = Some, ev_dkey = (\<lambda>c k v. Some c),
     ev_dupdate = (\<lambda>c p n. Some (take (nat n) p, c)), ev_set_tag = (\<lambda>c t. Some (t = replicate 16 9)),
     ev_dfinal = (\<lambda>c. if c then Some ([], c) else None)\<rparr>"

lemma plain_cipher_documented: "gcm_documented plain_cipher"
  by (auto simp: gcm_documented_def sealed_def opened_def plain_cipher_def split: if_splits)

lemma plain_cipher_encrypt:
  "length iv = 12 \<Longrightarrow> length pt + 16 < 2 ^ 31 \<Longrightarrow> aes_gcm_encrypt plain_cipher pt key iv i = (1, Inr (pt @ chars_of (replicate 16 9)))"
  by (cases "pt = []") (simp_all add: aes_gcm_encrypt_def derive_chunk_iv_def gcm_encrypt_body_def
      plain_cipher_def Let_def int_of_size_small resize_ok_def chars_of_append octets_of_eq_Nil octets_of_Nil)

theorem aes_gcm_roundtrip_witness:
  "length (''hi'' @ chars_of (replicate 16 9)) = length ''hi'' + 16
   \<and> aes_gcm_decrypt plain_cipher (''hi'' @ chars_of (replicate 16 9)) (replicate 32 1) (replicate 12 2) 5
       = (1, Inr ''hi'')"
  by (rule aes_gcm_roundtrip [OF plain_cipher_documented plain_cipher_encrypt]) simp_all

text \<open>
  C40: \<^verbatim>\<open>aes_gcm_decrypt\<close> frees its cipher context at most once on every path but one: when the
  tag does not verify it frees it twice, which is undefined behaviour.
\<close>

theorem aes_gcm_decrypt_frees:
  "fst (aes_gcm_decrypt api ct key baseIv i) \<le> 1 \<longleftrightarrow>
   snd (aes_gcm_decrypt api ct key baseIv i) \<noteq> Inl (Runtime_error ''AES-GCM tag verification failed'')"
  by (auto simp: aes_gcm_decrypt_def gcm_decrypt_body_def derive_chunk_iv_def Let_def result_iff
      split: sum.splits option.splits prod.splits if_splits)

section \<open>What OpenSSL documents of RSA-OAEP\<close>

text \<open>
  \<open>rsa_pair api pub priv\<close>: the two PEM texts hold the halves of one key, so that whatever
  the encryption calls made of a blob, the decryption calls turn back into it.
\<close>

definition rsa_pair :: "('k, 'x) evp_pkey \<Rightarrow> bytes \<Rightarrow> bytes \<Rightarrow> bool" where
  "rsa_pair api pub priv \<longleftrightarrow> (\<forall>k c0 c1 c2 n blob out.
     pk_read_pub api pub = Some k \<and> pk_ctx_new api k = Some c0 \<and> pk_enc_init api c0 = Some c1 \<and>
     pk_set_oaep api c1 = Some c2 \<and> pk_enc_size api c2 blob = Some n \<and> pk_encrypt api c2 blob = Some out \<longrightarrow>
     (\<exists>k' d0 d1 d2 m. pk_read_priv api priv = Some k' \<and> pk_ctx_new api k' = Some d0 \<and>
       pk_dec_init api d0 = Some d1 \<and> pk_set_oaep api d1 = Some d2 \<and>
       pk_dec_size api d2 out = Some m \<and> pk_decrypt api d2 out = Some blob))"

lemma file_key_recovered:
  assumes "encrypt_file_key_rsa api d params pubPath = Inr ek"
    and "fs_read d pubPath = Some pub" "fs_read d' privPath = Some priv" "rsa_pair api pub priv"
    and "length (fp_key params) = 32" "length (fp_iv params) = 12"
  shows "ek_alg ek = ''RSA'' \<and> decrypt_file_key_rsa api d' ek privPath = (1, Inr params)"
proof -
  let ?blob = "fp_key params @ fp_iv params"
  obtain k c0 c1 c2 n out where enc: "pk_read_pub api pub = Some k" "pk_ctx_new api k = Some c0"
    "pk_enc_init api c0 = Some c1" "pk_set_oaep api c1 = Some c2" "pk_enc_size api c2 ?blob = Some n"
    "pk_encrypt api c2 ?blob = Some out" and ek: "ek = \<lparr>ek_alg = ''RSA'', ek_blob = out\<rparr>"
    using assms(1,2) by (auto simp: encrypt_file_key_rsa_def result_iff Let_def split: option.splits)
  then obtain k' d0 d1 d2 m where dec: "pk_read_priv api priv = Some k'" "pk_ctx_new api k' = Some d0"
    "pk_dec_init api d0 = Some d1" "pk_set_oaep api d1 = Some d2" "pk_dec_size api d2 out = Some m"
    "pk_decrypt api d2 out = Some ?blob"
    using assms(4) unfolding rsa_pair_def by blast
  have "params = \<lparr>fp_key = fp_key params, fp_iv = fp_iv params\<rparr>" by simp
  with dec assms(3,5,6) show ?thesis by (simp add: decrypt_file_key_rsa_def ek)
qed

text \<open>
  A file key (32 bytes) and base IV (12 bytes) wrapped by \<^verbatim>\<open>encrypt_file_key_rsa\<close> with a
  public key are recovered by \<^verbatim>\<open>decrypt_file_key_rsa\<close> with the private key of the pair, and
  the key handle is freed once.
\<close>

theorem file_key_roundtrip:
  assumes "encrypt_file_key_rsa api d params pubPath = Inr ek"
    and "fs_read d pubPath = Some pub" "fs_read d' privPath = Some priv" "rsa_pair api pub priv"
    and "length (fp_key params) = 32" "length (fp_iv params) = 12"
  shows "ek_alg ek = ''RSA'' \<and> decrypt_file_key_rsa api d' ek privPath = (1, Inr params)"
  by (rule file_key_recovered [OF assms])

definition plain_rsa :: "(unit, unit) evp_pkey" where
  "plain_rsa = \<lparr>pk_read_pub = (\<lambda>_. Some ()), pk_read_priv = (\<lambda>_. Some ()), pk_ctx_new = Some,
     pk_enc_init = Some, pk_dec_init = Some, pk_set_oaep = Some,
     pk_enc_size = (\<lambda>_ b. Some (length b)), pk_encrypt = (\<lambda>_ b. Some (rev b)),
     pk_dec_size = (\<lambda>_ b. Some (length b)), pk_decrypt = (\<lambda>_ b. Some (rev b))\<rparr>"

definition key_disk :: disk where
  "key_disk = \<lparr>files = [(''pub.pem'', ''P''), (''priv.pem'', ''S'')], dirs = [], can_open = (\<lambda>_. True),
     can_rename = (\<lambda>_ _. True), can_mkdir = (\<lambda>_. True)\<rparr>"

theorem file_key_roundtrip_witness:
  "ek_alg \<lparr>ek_alg = ''RSA'', ek_blob = replicate 12 2 @ replicate 32 1\<rparr> = ''RSA''
   \<and> decrypt_file_key_rsa plain_rsa key_disk \<lparr>ek_alg = ''RSA'', ek_blob = replicate 12 2 @ replicate 32 1\<rparr> ''priv.pem''
       = (1, Inr \<lparr>fp_key = replicate 32 1, fp_iv = replicate 12 2\<rparr>)"
proof (rule file_key_roundtrip)
  show "encrypt_file_key_rsa plain_rsa key_disk \<lparr>fp_key = replicate 32 1, fp_iv = replicate 12 2\<rparr> ''pub.pem''
      = Inr \<lparr>ek_alg = ''RSA'', ek_blob = replicate 12 2 @ replicate 32 1\<rparr>"
    by (simp add: encrypt_file_key_rsa_def fs_read_def key_disk_def plain_rsa_def Let_def)
  show "fs_read key_disk ''pub.pem'' = Some ''P''" "fs_read key_disk ''priv.pem'' = Some ''S''"
    by (simp_all add: fs_read_def key_disk_def)
  show "rsa_pair plain_rsa ''P'' ''S''" by (simp add: rsa_pair_def plain_rsa_def)
qed simp_all

end
