(* ===== verification/Kademlia.thy ===== *)
theory Kademlia
  imports Crypto
begin

text \<open>
  The distributed hash table: identifiers and XOR distance (\<^verbatim>\<open>core/dht/kademlia_id.cpp\<close>),
  the flat routing table (\<^verbatim>\<open>kademlia_routing_table.cpp\<close>) and the client's node
  (\<^verbatim>\<open>dht_node.cpp\<close>), which decides the peers responsible for a key. The lemmas show that
  the lexicographic comparison of XOR distances is the order of the distances read as
  big-endian numbers, that those numbers form a metric, that the table keeps distinct
  identifiers, that \<^verbatim>\<open>std::sort\<close> has one possible outcome on it, and that \<^verbatim>\<open>store\<close>
  returns the closest peers.
\<close>

section \<open>Identifiers\<close>

text \<open>\<^verbatim>\<open>std::array<std::uint8_t, 20>\<close> is a list of 20 octets.\<close>

type_synonym kad_id = "octet list"

definition hexToBytes :: "string \<Rightarrow> octet list result" where
  "hexToBytes hex = (if length hex mod 2 \<noteq> 0 then Inr [] else hex_pairs hex)"

definition bytesToHex :: "octet list \<Rightarrow> string" where
  "bytesToHex data = concat (map (\<lambda>b. [kHex ! unat (drop_bit 4 b AND 0xF), kHex ! unat (b AND 0xF)]) data)"

definition idFromBytes :: "octet list \<Rightarrow> kad_id" where
  "idFromBytes bytes =
     (let n = min (length bytes) 20 in take n bytes @ replicate (20 - n) 0)"

definition makeKeyId :: "(bytes \<Rightarrow> octet list) \<Rightarrow> string \<Rightarrow> kad_id result" where
  "makeKeyId sha256 key =
     bindR (hexToBytes (sha256_hex sha256 key)) (\<lambda>bytes. Inr (idFromBytes bytes))"

definition makeNodeId :: "(bytes \<Rightarrow> octet list) \<Rightarrow> peer_endpoint \<Rightarrow> kad_id result" where
  "makeNodeId sha256 peer =
     (let s = ip peer @ '':'' @ show_int (port peer) in
      bindR (hexToBytes (sha256_hex sha256 s)) (\<lambda>bytes. Inr (idFromBytes bytes)))"

definition xorDistance :: "kad_id \<Rightarrow> kad_id \<Rightarrow> kad_id" where
  "xorDistance a b = map (\<lambda>i. (a ! i) XOR (b ! i)) [0..<20]"

text \<open>\<^verbatim>\<open>operator<\<close> of \<^verbatim>\<open>std::array\<close> is \<^verbatim>\<open>std::lexicographical_compare\<close>.\<close>

fun lex_less :: "octet list \<Rightarrow> octet list \<Rightarrow> bool" where
  "lex_less xs [] = False"
| "lex_less [] (y # ys) = True"
| "lex_less (x # xs) (y # ys) = (if x < y then True else if y < x then False else lex_less xs ys)"

definition closerTo :: "kad_id \<Rightarrow> kad_id \<Rightarrow> kad_id \<Rightarrow> bool" where
  "closerTo a b target = lex_less (xorDistance a target) (xorDistance b target)"

definition toHex :: "kad_id \<Rightarrow> string" where
  "toHex i = bytesToHex i"

definition fromHex :: "string \<Rightarrow> kad_id result" where
  "fromHex hex = bindR (hexToBytes hex) (\<lambda>bytes.
     let n = min (length bytes) 20 in Inr (take n bytes @ replicate (20 - n) 0))"

section \<open>The routing table\<close>

record node_info =
  node_id :: kad_id
  endpoint :: peer_endpoint

record routing_table =
  rt_selfId :: kad_id
  rt_nodes :: "node_info list"

definition RoutingTable :: "kad_id \<Rightarrow> routing_table" where
  "RoutingTable selfId = \<lparr>rt_selfId = selfId, rt_nodes = []\<rparr>"

text \<open>The loop of \<^verbatim>\<open>addNode\<close>: replace the endpoint of the first entry with this id.\<close>

fun replace_node :: "node_info \<Rightarrow> node_info list \<Rightarrow> node_info list option" where
  "replace_node node [] = None"
| "replace_node node (n # ns) =
     (if node_id n = node_id node then Some (n\<lparr>endpoint := endpoint node\<rparr> # ns)
      else map_option (\<lambda>ns'. n # ns') (replace_node node ns))"

definition addNode :: "node_info \<Rightarrow> routing_table \<Rightarrow> routing_table" where
  "addNode node t =
     (if node_id node = rt_selfId t then t
      else (case replace_node node (rt_nodes t) of
              Some ns \<Rightarrow> t\<lparr>rt_nodes := ns\<rparr>
            | None \<Rightarrow> t\<lparr>rt_nodes := rt_nodes t @ [node]\<rparr>))"

definition closestNodes :: "routing_table \<Rightarrow> kad_id \<Rightarrow> nat \<Rightarrow> node_info list" where
  "closestNodes t target k =
     (if rt_nodes t = [] \<or> k = 0 then []
      else let tmp = sort_by (\<lambda>a b. closerTo (node_id a) (node_id b) target) (rt_nodes t) in
        if length tmp > k then take k tmp else tmp)"

section \<open>The client's DHT node\<close>

fun add_peers :: "(bytes \<Rightarrow> octet list) \<Rightarrow> peer_endpoint list \<Rightarrow> routing_table \<Rightarrow> routing_table result" where
  "add_peers sha256 [] t = Inr t"
| "add_peers sha256 (p # ps) t =
     bindR (makeNodeId sha256 p) (\<lambda>i. add_peers sha256 ps (addNode \<lparr>node_id = i, endpoint = p\<rparr> t))"

definition DhtNode :: "(bytes \<Rightarrow> octet list) \<Rightarrow> peer_endpoint list \<Rightarrow> routing_table result" where
  "DhtNode sha256 peers =
     bindR (makeKeyId sha256 ''client'') (\<lambda>self. add_peers sha256 peers (RoutingTable self))"

definition findNode :: "routing_table \<Rightarrow> kad_id \<Rightarrow> nat \<Rightarrow> node_info list" where
  "findNode t target k =
     (let all = rt_nodes t in
      if all = [] \<or> k = 0 then []
      else closestNodes t target (if k > length all then length all else k))"

definition dht_store :: "(bytes \<Rightarrow> octet list) \<Rightarrow> routing_table \<Rightarrow> string \<Rightarrow> int \<Rightarrow> peer_endpoint list result" where
  "dht_store sha256 t key replicas =
     (let r = (if replicas \<le> 0 then 1 else replicas); all = rt_nodes t in
      if all = [] then Inr []
      else let k = nat r; k' = (if k > length all then length all else k) in
        bindR (makeKeyId sha256 key) (\<lambda>keyId.
          Inr (map endpoint (closestNodes t keyId k'))))"

definition findValue :: "(bytes \<Rightarrow> octet list) \<Rightarrow> routing_table \<Rightarrow> string \<Rightarrow> int \<Rightarrow> peer_endpoint list result" where
  "findValue sha256 t key replicas = dht_store sha256 t key replicas"

section \<open>Well-formedness\<close>

definition wf_id :: "kad_id \<Rightarrow> bool" where
  "wf_id i \<longleftrightarrow> length i = 20"

definition wf_table :: "routing_table \<Rightarrow> bool" where
  "wf_table t \<longleftrightarrow> (\<forall>n \<in> set (rt_nodes t). wf_id (node_id n) \<and> node_id n \<noteq> rt_selfId t)
     \<and> distinct (map node_id (rt_nodes t))"

text \<open>The number an identifier stands for, most significant byte first.\<close>

definition be_nat :: "octet list \<Rightarrow> nat" where
  "be_nat bs = foldl (\<lambda>n b. 256 * n + unat b) 0 bs"

section \<open>Lemmas on identifiers\<close>

interpretation kadhex: hex_codec bytesToHex hexToBytes
proof -
  have "bytesToHex = to_hex" "hexToBytes = from_hex"
    by (auto simp: fun_eq_iff bytesToHex_def to_hex_def hexToBytes_def from_hex_def)
  then show "hex_codec bytesToHex hexToBytes" using hexc.hex_codec_axioms by simp
qed

lemma hexToBytes_sha256_hex: "length (sha256 d) = 32 \<Longrightarrow> hexToBytes (sha256_hex sha256 d) = Inr (sha256 d)"
proof -
  assume "length (sha256 d) = 32"
  then have "sha256_hex sha256 d = bytesToHex (sha256 d)"
    by (simp add: sha256_hex_to_hex to_hex_def bytesToHex_def)
  then show ?thesis by (simp only: kadhex.dec_enc)
qed

lemma idFromBytes_digest: "length bs = 32 \<Longrightarrow> idFromBytes bs = take 20 bs"
  by (simp add: idFromBytes_def)

lemma wf_idFromBytes [simp]: "wf_id (idFromBytes bs)"
  by (auto simp: wf_id_def idFromBytes_def Let_def min_def)

lemma makeKeyId_eq: "digest32 sha256 \<Longrightarrow> makeKeyId sha256 key = Inr (take 20 (sha256 key))"
  by (simp add: makeKeyId_def hexToBytes_sha256_hex digest32D idFromBytes_digest)

lemma makeNodeId_eq:
  "digest32 sha256 \<Longrightarrow> makeNodeId sha256 p = Inr (take 20 (sha256 (ip p @ '':'' @ show_int (port p))))"
  by (simp add: makeNodeId_def hexToBytes_sha256_hex digest32D idFromBytes_digest Let_def)

lemma wf_id_take_digest: "digest32 sha256 \<Longrightarrow> wf_id (take 20 (sha256 d))"
  by (simp add: wf_id_def digest32D)

lemma length_xorDistance [simp]: "length (xorDistance a b) = 20"
  by (simp add: xorDistance_def)

lemma xorDistance_map2:
  "wf_id a \<Longrightarrow> wf_id b \<Longrightarrow> xorDistance a b = map2 (XOR) a b"
  unfolding xorDistance_def wf_id_def
  by (rule nth_equalityI) auto

lemma xorDistance_zero: "wf_id a \<Longrightarrow> xorDistance a (replicate 20 0) = a"
  by (rule nth_equalityI) (auto simp: wf_id_def xorDistance_def)

lemma lex_less_replicate: "x < y \<Longrightarrow> 0 < n \<Longrightarrow> lex_less (replicate n x) (replicate n y)"
  by (cases n) auto

lemma be_nat_Nil [simp]: "be_nat [] = 0"
  by (simp add: be_nat_def)

lemma be_nat_snoc [simp]: "be_nat (bs @ [b]) = 256 * be_nat bs + unat b"
  by (simp add: be_nat_def)

lemma be_nat_Cons: "be_nat (b # bs) = unat b * 256 ^ length bs + be_nat bs"
proof (induction bs rule: rev_induct)
  case Nil
  then show ?case by (simp add: be_nat_def)
next
  case (snoc x xs)
  have "be_nat (b # xs @ [x]) = 256 * be_nat (b # xs) + unat x"
    using be_nat_snoc [of "b # xs" x] by simp
  with snoc show ?case by (simp add: algebra_simps)
qed

lemma unat_octet_bound: "unat (b :: octet) < 256"
  using unsigned_less [where w = b] by simp

lemma be_nat_bound: "be_nat bs < 256 ^ length bs"
proof (induction bs rule: rev_induct)
  case Nil
  then show ?case by simp
next
  case (snoc x xs)
  then have "be_nat xs + 1 \<le> 256 ^ length xs" by simp
  then have "256 * be_nat xs + 256 \<le> 256 * 256 ^ length xs"
    using mult_le_mono2 [of "be_nat xs + 1" "256 ^ length xs" 256] by (simp add: algebra_simps)
  with unat_octet_bound [of x] show ?case by simp
qed

lemma lex_less_be_nat:
  "length xs = length ys \<Longrightarrow> lex_less xs ys \<longleftrightarrow> be_nat xs < be_nat ys"
proof (induction xs ys rule: lex_less.induct)
  case (3 x xs y ys)
  let ?B = "(256 :: nat) ^ length ys"
  have len: "length xs = length ys" using 3 by simp
  have bounds: "be_nat xs < ?B" "be_nat ys < ?B" using be_nat_bound [of xs] be_nat_bound [of ys] len by simp_all
  have step: "unat u * ?B + p < unat v * ?B + q" if "u < v" "p < ?B" for u v :: octet and p q
  proof -
    have "unat u + 1 \<le> unat v" using that(1) by (simp add: word_less_nat_alt)
    then have "(unat u + 1) * ?B \<le> unat v * ?B" by (rule mult_le_mono1)
    with that(2) show ?thesis by (simp add: algebra_simps)
  qed
  consider "x < y" | "y < x" | "x = y" by fastforce
  then show ?case
  proof cases
    case 1
    with step [OF 1 bounds(1), of "be_nat ys"] show ?thesis by (simp add: be_nat_Cons len)
  next
    case 2
    with step [OF 2 bounds(2), of "be_nat xs"] show ?thesis by (simp add: be_nat_Cons len)
  next
    case 3
    with "3.IH" len show ?thesis by (simp add: be_nat_Cons)
  qed
qed auto

lemma base256_inj:
  fixes p q u v :: nat
  assumes "256 * p + u = 256 * q + v" "u < 256" "v < 256"
  shows "p = q \<and> u = v"
  using arg_cong [OF assms(1), of "\<lambda>n. n div 256"] arg_cong [OF assms(1), of "\<lambda>n. n mod 256"] assms(2,3)
  by simp

lemma be_nat_inj: "length xs = length ys \<Longrightarrow> be_nat xs = be_nat ys \<Longrightarrow> xs = ys"
proof (induction xs arbitrary: ys rule: rev_induct)
  case Nil
  then show ?case by simp
next
  case (snoc x xs)
  then obtain y ys' where ys: "ys = ys' @ [y]" by (cases ys rule: rev_cases) auto
  with snoc.prems have "256 * be_nat xs + unat x = 256 * be_nat ys' + unat y" by simp
  then have "be_nat xs = be_nat ys' \<and> unat x = unat y"
    by (rule base256_inj) (rule unat_octet_bound)+
  with snoc ys show ?case by (simp add: word_unat_eq_iff)
qed

section \<open>XOR of numbers\<close>

lemma xor_nat_shift:
  "u < 2 ^ k \<Longrightarrow> v < 2 ^ k \<Longrightarrow> (2 ^ k * p + u) XOR (2 ^ k * q + v) = 2 ^ k * (p XOR q) + (u XOR v :: nat)"
proof (induction k arbitrary: u v)
  case 0
  then show ?case by simp
next
  case (Suc k)
  have m: "2 ^ Suc k * r + w = 2 * (2 ^ k * r + w div 2) + w mod 2" for r w :: nat by simp
  have "odd (2 ^ Suc k * r + w) = odd w" "(2 ^ Suc k * r + w) div 2 = 2 ^ k * r + w div 2" for r w :: nat
    using m [of r w] by (simp_all)
  then have "(2 ^ Suc k * p + u) XOR (2 ^ Suc k * q + v)
      = of_bool (odd u \<noteq> odd v) + 2 * ((2 ^ k * p + u div 2) XOR (2 ^ k * q + v div 2))"
    by (subst xor_nat_rec) simp
  also have "\<dots> = of_bool (odd u \<noteq> odd v) + 2 * (2 ^ k * (p XOR q) + ((u div 2) XOR (v div 2)))"
    using Suc by (subst Suc.IH) auto
  also have "\<dots> = 2 ^ Suc k * (p XOR q) + (u XOR v)"
    by (subst (2) xor_nat_rec) simp
  finally show ?case .
qed

lemma xor_nat_le_add: "m XOR n \<le> m + (n :: nat)"
proof (induction m arbitrary: n rule: less_induct)
  case (less m)
  show ?case
  proof (cases "m = 0")
    case True
    then show ?thesis by simp
  next
    case False
    then have "(m div 2) XOR (n div 2) \<le> m div 2 + n div 2" using less.IH [of "m div 2"] by simp
    then show ?thesis by (subst xor_nat_rec) (auto, presburger+)
  qed
qed

lemma be_nat_xor:
  "length as = length bs \<Longrightarrow> be_nat (map2 (XOR) as bs) = be_nat as XOR be_nat bs"
proof (induction as arbitrary: bs rule: rev_induct)
  case Nil
  then show ?case by simp
next
  case (snoc a as)
  then obtain b bs' where bs: "bs = bs' @ [b]" and len: "length as = length bs'"
    by (cases bs rule: rev_cases) auto
  have "(256 * be_nat as + unat a) XOR (256 * be_nat bs' + unat b)
      = 256 * (be_nat as XOR be_nat bs') + (unat a XOR unat b)"
    using xor_nat_shift [of "unat a" 8 "unat b"] unat_octet_bound by simp
  with snoc.IH [OF len] show ?case by (simp add: bs len unsigned_xor_eq)
qed

text \<open>
  \<^verbatim>\<open>closerTo\<close> compares the XOR distances as 160-bit numbers, and that distance is a
  metric: zero exactly between equal identifiers, symmetric, and it satisfies the triangle
  inequality; for one identifier and one distance there is one identifier at that distance.
\<close>

theorem xor_metric:
  assumes "wf_id a" "wf_id b" "wf_id c"
  shows "(closerTo a b c \<longleftrightarrow> be_nat (xorDistance a c) < be_nat (xorDistance b c))
    \<and> (be_nat (xorDistance a b) = 0 \<longleftrightarrow> a = b)
    \<and> xorDistance a b = xorDistance b a
    \<and> be_nat (xorDistance a c) \<le> be_nat (xorDistance a b) + be_nat (xorDistance b c)
    \<and> (xorDistance a b = c \<longleftrightarrow> b = xorDistance a c)"
proof -
  have dist: "be_nat (xorDistance x y) = be_nat x XOR be_nat y" if "wf_id x" "wf_id y" for x y
    using that by (simp add: xorDistance_map2 be_nat_xor wf_id_def)
  have closer: "closerTo a b c \<longleftrightarrow> be_nat (xorDistance a c) < be_nat (xorDistance b c)"
    by (simp add: closerTo_def lex_less_be_nat)
  have eq: "x = y \<longleftrightarrow> be_nat x = be_nat y" if "wf_id x" "wf_id y" for x y
    using that be_nat_inj by (auto simp: wf_id_def)
  have wf: "wf_id (xorDistance x y)" for x y by (simp add: wf_id_def)
  have xor3: "be_nat a XOR be_nat c = (be_nat a XOR be_nat b) XOR (be_nat b XOR be_nat c)"
    by (simp add: xor.assoc) (simp add: xor.assoc [symmetric])
  have zero: "be_nat a XOR be_nat b = 0 \<longleftrightarrow> be_nat a = be_nat b"
    by (metis xor.assoc xor_self_eq xor.right_neutral xor.commute)
  have inv: "be_nat a XOR be_nat b = be_nat c \<longleftrightarrow> be_nat b = be_nat a XOR be_nat c"
    by (metis xor.assoc xor_self_eq xor.left_neutral)
  show ?thesis
    using assms wf xor_nat_le_add [of "be_nat a XOR be_nat b" "be_nat b XOR be_nat c"]
    by (simp add: closer dist eq xor.commute zero inv flip: xor3) 
qed

theorem xor_metric_witness:
  "(closerTo (replicate 20 1) (replicate 20 2) (replicate 20 3) \<longleftrightarrow>
     be_nat (xorDistance (replicate 20 1) (replicate 20 3)) < be_nat (xorDistance (replicate 20 2) (replicate 20 3)))
    \<and> (be_nat (xorDistance (replicate 20 1) (replicate 20 2)) = 0 \<longleftrightarrow> replicate 20 (1 :: octet) = replicate 20 2)
    \<and> xorDistance (replicate 20 1) (replicate 20 2) = xorDistance (replicate 20 2) (replicate 20 1)
    \<and> be_nat (xorDistance (replicate 20 1) (replicate 20 3))
        \<le> be_nat (xorDistance (replicate 20 1) (replicate 20 2)) + be_nat (xorDistance (replicate 20 2) (replicate 20 3))
    \<and> (xorDistance (replicate 20 1) (replicate 20 2) = replicate 20 3
        \<longleftrightarrow> replicate 20 2 = xorDistance (replicate 20 1) (replicate 20 3))"
  by (rule xor_metric) (simp_all add: wf_id_def)

section \<open>The routing table keeps distinct identifiers\<close>

lemma xor_octet_cancel:
  fixes a b t :: octet
  assumes "a XOR t = b XOR t"
  shows "a = b"
proof -
  have "(a XOR t) XOR t = (b XOR t) XOR t" by (simp only: assms)
  then show ?thesis by (simp add: xor.assoc)
qed

interpretation closer: strict_order_on "\<lambda>a b. closerTo a b target" "Collect wf_id" for target
proof
  have lex: "closerTo a b target \<longleftrightarrow> be_nat (xorDistance a target) < be_nat (xorDistance b target)" for a b
    by (simp add: closerTo_def lex_less_be_nat)
  fix x y z assume wf: "x \<in> Collect wf_id" "y \<in> Collect wf_id"
  show "\<not> closerTo x x target" by (simp add: lex)
  show "closerTo x z target" if "closerTo x y target" "closerTo y z target"
    using that by (simp add: lex)
  show "closerTo x y target \<or> closerTo y x target" if "x \<noteq> y"
  proof (rule ccontr)
    assume "\<not> ?thesis"
    then have "xorDistance x target = xorDistance y target"
      by (intro be_nat_inj) (auto simp: lex)
    then have "x ! i XOR target ! i = y ! i XOR target ! i" if "i < 20" for i
      using that arg_cong [OF \<open>xorDistance x target = _\<close>, of "\<lambda>l. l ! i"] by (simp add: xorDistance_def)
    then have "x ! i = y ! i" if "i < 20" for i
      using that by (blast intro: xor_octet_cancel)
    with wf \<open>x \<noteq> y\<close> show False by (auto simp: wf_id_def list_eq_iff_nth_eq)
  qed
qed

lemma replace_node_None: "replace_node n ns = None \<longleftrightarrow> node_id n \<notin> node_id ` set ns"
  by (induction ns) auto

lemma replace_node_ids: "replace_node n ns = Some ns' \<Longrightarrow> map node_id ns' = map node_id ns"
  by (induction ns arbitrary: ns') (auto split: if_splits)

definition table_map :: "routing_table \<Rightarrow> kad_id \<Rightarrow> peer_endpoint option" where
  "table_map t = map_of (map (\<lambda>n. (node_id n, endpoint n)) (rt_nodes t))"

lemma replace_node_map_of:
  "replace_node n ns = Some ns' \<Longrightarrow>
   map_of (map (\<lambda>n. (node_id n, endpoint n)) ns')
     = (map_of (map (\<lambda>n. (node_id n, endpoint n)) ns))(node_id n \<mapsto> endpoint n)"
  by (induction ns arbitrary: ns') (auto split: if_splits)

lemma map_add_notin: "k \<notin> dom m \<Longrightarrow> [k \<mapsto> v] ++ m = m(k \<mapsto> v)"
  by (auto simp: fun_eq_iff map_add_def split: option.splits)

lemma addNode_selfId [simp]: "rt_selfId (addNode n t) = rt_selfId t"
  by (auto simp: addNode_def split: option.splits)

lemma wf_addNode: "wf_table t \<Longrightarrow> wf_id (node_id n) \<Longrightarrow> wf_table (addNode n t)"
proof (cases "replace_node n (rt_nodes t)")
  case None
  assume "wf_table t" "wf_id (node_id n)"
  moreover have "node_id n \<notin> node_id ` set (rt_nodes t)" using None by (simp add: replace_node_None)
  ultimately show ?thesis using None by (auto simp: wf_table_def addNode_def)
next
  case (Some ns)
  assume "wf_table t" "wf_id (node_id n)"
  moreover have "node_id ` set ns = node_id ` set (rt_nodes t)"
    using replace_node_ids [OF Some] by (metis set_map)
  ultimately show ?thesis
    using Some replace_node_ids [OF Some] unfolding wf_table_def addNode_def
    by simp (metis (no_types, lifting) image_iff)
qed

text \<open>
  C31: As a map from identifiers to endpoints the routing table is updated by \<^verbatim>\<open>addNode\<close> at
  the node's identifier and nowhere else, never at the table's own identifier; the update
  keeps the table's identifiers distinct, 20 bytes long and different from its own.
\<close>

theorem addNode_refines_map:
  assumes "wf_table t" "wf_id (node_id n)"
  shows "wf_table (addNode n t)
    \<and> table_map (addNode n t) = (if node_id n = rt_selfId t then table_map t
        else (table_map t)(node_id n \<mapsto> endpoint n))"
proof -
  have "table_map (addNode n t) = (if node_id n = rt_selfId t then table_map t
        else (table_map t)(node_id n \<mapsto> endpoint n))"
    by (auto simp: addNode_def table_map_def replace_node_map_of replace_node_None
        intro!: map_add_notin dest!: map_of_SomeD split: option.splits)
  with wf_addNode [OF assms] show ?thesis by simp
qed

definition sample_node :: node_info where
  "sample_node = \<lparr>node_id = replicate 20 5, endpoint = \<lparr>ip = ''10.0.0.1'', port = 9101\<rparr>\<rparr>"

theorem addNode_refines_map_witness:
  "wf_table (addNode sample_node (RoutingTable (replicate 20 0)))
    \<and> table_map (addNode sample_node (RoutingTable (replicate 20 0)))
      = (if node_id sample_node = rt_selfId (RoutingTable (replicate 20 0))
         then table_map (RoutingTable (replicate 20 0))
         else (table_map (RoutingTable (replicate 20 0)))(node_id sample_node \<mapsto> endpoint sample_node))"
  by (rule addNode_refines_map) (simp_all add: wf_table_def wf_id_def RoutingTable_def sample_node_def)

lemma wf_add_peers:
  "digest32 sha256 \<Longrightarrow> wf_table t \<Longrightarrow> \<exists>t'. add_peers sha256 ps t = Inr t' \<and> wf_table t' \<and> rt_selfId t' = rt_selfId t"
proof (induction ps arbitrary: t)
  case Nil
  then show ?case by simp
next
  case (Cons p ps)
  let ?n = "\<lparr>node_id = take 20 (sha256 (ip p @ '':'' @ show_int (port p))), endpoint = p\<rparr>"
  have "wf_table (addNode ?n t)" using Cons.prems by (intro wf_addNode) (auto simp: wf_id_take_digest)
  from Cons.IH [OF Cons.prems(1) this] show ?case using Cons.prems by (simp add: makeNodeId_eq)
qed

lemma wf_DhtNode:
  "digest32 sha256 \<Longrightarrow> \<exists>t. DhtNode sha256 ps = Inr t \<and> wf_table t \<and> rt_selfId t = take 20 (sha256 ''client'')"
  using wf_add_peers [of sha256 "RoutingTable (take 20 (sha256 ''client''))" ps]
  by (simp add: DhtNode_def makeKeyId_eq wf_table_def RoutingTable_def)

section \<open>Placement\<close>

lemma closestNodes_take:
  "closestNodes t target k = take k (sort_by (\<lambda>a b. closerTo (node_id a) (node_id b) target) (rt_nodes t))"
  by (auto simp: closestNodes_def Let_def)

text \<open>
  On a table with distinct identifiers every list that is a permutation of the nodes
  sorted by \<^verbatim>\<open>closerTo\<close> is the same list, so the result of \<^verbatim>\<open>closestNodes\<close> does not depend on
  how \<^verbatim>\<open>std::sort\<close>, which is not stable, works.
\<close>

theorem closestNodes_any_sort:
  assumes "wf_table t" "mset tmp = mset (rt_nodes t)"
    "sorted_wrt (\<lambda>a b. closerTo (node_id a) (node_id b) target) tmp"
  shows "take k tmp = closestNodes t target k"
proof -
  have "tmp = sort_by (\<lambda>a b. closerTo (node_id a) (node_id b) target) (rt_nodes t)"
    using assms by (intro closer.sort_by_unique) (auto simp: wf_table_def)
  then show ?thesis by (simp add: closestNodes_take)
qed

definition sample_table :: routing_table where
  "sample_table = \<lparr>rt_selfId = replicate 20 0,
     rt_nodes = [\<lparr>node_id = replicate 20 9, endpoint = \<lparr>ip = ''10.0.0.2'', port = 9102\<rparr>\<rparr>, sample_node]\<rparr>"

lemma wf_sample_table: "wf_table sample_table"
  by (simp add: wf_table_def sample_table_def sample_node_def wf_id_def)

theorem closestNodes_any_sort_witness:
  "take 1 (rev (rt_nodes sample_table)) = closestNodes sample_table (replicate 20 0) 1"
proof (rule closestNodes_any_sort [OF wf_sample_table])
  show "mset (rev (rt_nodes sample_table)) = mset (rt_nodes sample_table)" by simp
  show "sorted_wrt (\<lambda>a b. closerTo (node_id a) (node_id b) (replicate 20 0)) (rev (rt_nodes sample_table))"
    by (simp add: sample_table_def sample_node_def closerTo_def xorDistance_zero wf_id_def lex_less_replicate)
qed

text \<open>
  C18: \<^verbatim>\<open>closestNodes\<close> returns \<open>min k n\<close> of the table's \<open>n\<close> nodes, without repetition, and every
  returned node is strictly closer to the target than every node it leaves out.
\<close>

theorem closestNodes_closest:
  assumes "wf_table t"
  shows "length (closestNodes t target k) = min k (length (rt_nodes t))
    \<and> distinct (map node_id (closestNodes t target k))
    \<and> set (closestNodes t target k) \<subseteq> set (rt_nodes t)
    \<and> (\<forall>a \<in> set (closestNodes t target k). \<forall>b \<in> set (rt_nodes t) - set (closestNodes t target k).
         closerTo (node_id a) (node_id b) target)"
proof -
  let ?s = "sort_by (\<lambda>a b. closerTo (node_id a) (node_id b) target) (rt_nodes t)"
  have ids: "node_id ` set (rt_nodes t) \<subseteq> Collect wf_id" "distinct (map node_id (rt_nodes t))"
    using assms by (auto simp: wf_table_def)
  have "mset (map node_id ?s) = mset (map node_id (rt_nodes t))" by simp
  then have "distinct (map node_id ?s)" using ids(2) mset_eq_imp_distinct_iff by blast
  then have "distinct (take k (map node_id ?s))" by (rule distinct_take)
  then have d: "distinct (map node_id (take k ?s))" by (simp only: take_map)
  have c: "closerTo (node_id a) (node_id b) target"
    if "a \<in> set (take k ?s)" "b \<in> set (rt_nodes t)" "b \<notin> set (take k ?s)" for a b
  proof (rule closer.take_sort_by_least [OF ids that(1)])
    have "set (rt_nodes t) = set (take k ?s) \<union> set (drop k ?s)"
      by (simp flip: set_append)
    with that show "b \<in> set (drop k ?s)" by blast
  qed
  have sub: "set (take k ?s) \<subseteq> set (rt_nodes t)"
    using set_take_subset [of k ?s] by simp
  show ?thesis unfolding closestNodes_take
  proof (intro conjI ballI)
    show "length (take k ?s) = min k (length (rt_nodes t))" by simp
    show "closerTo (node_id a) (node_id b) target"
      if "a \<in> set (take k ?s)" "b \<in> set (rt_nodes t) - set (take k ?s)" for a b
      using c that by blast
  qed (rule d sub)+
qed

theorem closestNodes_closest_witness:
  "length (closestNodes sample_table (replicate 20 0) 1) = min 1 (length (rt_nodes sample_table))
    \<and> distinct (map node_id (closestNodes sample_table (replicate 20 0) 1))
    \<and> set (closestNodes sample_table (replicate 20 0) 1) \<subseteq> set (rt_nodes sample_table)"
  using closestNodes_closest [OF wf_sample_table, of "replicate 20 0" 1] by blast

lemma dht_store_eq:
  assumes "digest32 sha256"
  shows "dht_store sha256 t key r
    = Inr (map endpoint (closestNodes t (take 20 (sha256 key)) (min (nat (max 1 r)) (length (rt_nodes t)))))"
proof (cases "rt_nodes t = []")
  case True
  then show ?thesis by (simp add: dht_store_def closestNodes_def)
next
  case False
  then have "1 \<le> length (rt_nodes t)" by (cases "rt_nodes t") auto
  moreover have "nat (max 1 r) = (if r \<le> 0 then 1 else nat r)" by auto
  ultimately show ?thesis
    using assms False by (auto simp: dht_store_def makeKeyId_eq min_def Let_def)
qed

text \<open>
  C32: Placement for fewer replicas is a prefix of placement for more: the peers \<^verbatim>\<open>store\<close> chose
  with a capped replica count are the first ones \<^verbatim>\<open>findValue\<close> asks with a larger one.
\<close>

theorem store_prefix_findValue:
  assumes "digest32 sha256" "r \<le> r'"
  shows "\<exists>ps qs. dht_store sha256 t key r = Inr ps \<and> findValue sha256 t key r' = Inr (ps @ qs)"
proof -
  let ?s = "sort_by (\<lambda>a b. closerTo (node_id a) (node_id b) (take 20 (sha256 key))) (rt_nodes t)"
  let ?n = "length (rt_nodes t)"
  have "min (nat (max 1 r)) ?n \<le> min (nat (max 1 r')) ?n"
    using assms(2) by (intro min.mono nat_mono) auto
  then obtain d where d: "min (nat (max 1 r')) ?n = min (nat (max 1 r)) ?n + d"
    using le_Suc_ex by blast
  have "findValue sha256 t key r' = Inr (map endpoint (take (min (nat (max 1 r)) ?n) ?s)
      @ map endpoint (take d (drop (min (nat (max 1 r)) ?n) ?s)))"
    by (simp only: findValue_def dht_store_eq [OF assms(1)] closestNodes_take d take_add map_append)
  moreover have "dht_store sha256 t key r = Inr (map endpoint (take (min (nat (max 1 r)) ?n) ?s))"
    by (simp only: dht_store_eq [OF assms(1)] closestNodes_take)
  ultimately show ?thesis by blast
qed

theorem store_prefix_findValue_witness:
  "\<exists>ps qs. dht_store pad_digest sample_table ''k'' 1 = Inr ps \<and> findValue pad_digest sample_table ''k'' 2 = Inr (ps @ qs)"
  by (rule store_prefix_findValue) simp_all

end
