(* ===== verification/Dss_Client.thy ===== *)
theory Dss_Client
  imports Peer_Client Kademlia Crypto
begin

text \<open>
  Putting and getting files, \<^verbatim>\<open>core/dss/dss_client.cpp\<close>: chunking, encryption, placement of
  the replicas by the DHT, upload with deduplication, the manifest and its local copy; and
  the way back, with a hash check on everything a peer returns. The network, OpenSSL and
  the working directory are parameters. Shown are the integrity of what \<^verbatim>\<open>getFile\<close> writes
  against arbitrary peers, and the manifest that \<^verbatim>\<open>putFile\<close> publishes.
\<close>

section \<open>Configuration and state\<close>

record client_config =
  cc_peers :: "peer_endpoint list"
  cc_chunkSize :: u64
  cc_desiredReplicas :: int
  cc_rsaPublicKeyPath :: string
  cc_rsaPrivateKeyPath :: string
  cc_localManifestDir :: string

record progress =
  pg_done :: int
  pg_total :: int
  pg_message :: string

record put_file_result =
  pr_shareUri :: string
  pr_localManifestPath :: string

text \<open>What the client runs on: SHA-256, the EVP interfaces, the network and the working directory.\<close>

record ('w, 'c, 'k, 'x) dss_env =
  en_sha256 :: "bytes \<Rightarrow> octet list"
  en_cipher :: "'c evp_cipher"
  en_pkey :: "('k, 'x) evp_pkey"
  en_net :: "'w network"
  en_cwd :: string

text \<open>
  The state a call changes: the network, the local disk, the progress reported so far and
  whether an object was freed twice, after which C++ promises nothing; the model carries on
  as if the second free had no effect.
\<close>

record 'w dss_state =
  ds_world :: 'w
  ds_disk :: disk
  ds_progress :: "progress list"
  ds_double_free :: bool

text \<open>
  \<^verbatim>\<open>++done\<close> on an \<^verbatim>\<open>int\<close>. Beyond the largest one C++ leaves the result open; what the
  compiler's addition gives is the smallest.
\<close>

definition int_succ :: "int \<Rightarrow> int" where
  "int_succ n = sint (word_of_int (n + 1) :: 32 word)"

definition normalize_manifest_id :: "string \<Rightarrow> string" where
  "normalize_manifest_id manifestRef =
     (let pre = ''dss://file/'' in if starts_with manifestRef pre then drop (length pre) manifestRef else manifestRef)"

definition looks_like_local_manifest_path :: "disk \<Rightarrow> string \<Rightarrow> bool" where
  "looks_like_local_manifest_path d manifestRef = fs_exists d manifestRef"

section \<open>Paths\<close>

text \<open>\<^verbatim>\<open>path::filename\<close>, \<^verbatim>\<open>fs::absolute\<close> and \<^verbatim>\<open>operator/\<close> of POSIX paths.\<close>

definition path_filename :: "string \<Rightarrow> string" where
  "path_filename p = rev (takeWhile (\<lambda>c. c \<noteq> CHR ''/'') (rev p))"

definition path_append :: "string \<Rightarrow> string \<Rightarrow> string" where
  "path_append d x = (if d = [] \<or> last d = CHR ''/'' then d @ x else d @ CHR ''/'' # x)"

definition path_absolute :: "string \<Rightarrow> string \<Rightarrow> string" where
  "path_absolute cwd p = (if starts_with p ''/'' then p else path_append cwd p)"

section \<open>Uploading\<close>

text \<open>The number of replicas: at least one, at most one per configured peer.\<close>

definition clamp_replicas :: "client_config \<Rightarrow> int" where
  "clamp_replicas cfg =
     (let r = (if cc_desiredReplicas cfg \<le> 0 then 1 else cc_desiredReplicas cfg);
          n = int_of_size (length (cc_peers cfg)) in if r > n then n else r)"

text \<open>The loop that asks each target whether it has the chunk: how many have, and which lack it.\<close>

fun query_targets ::
    "'w network \<Rightarrow> string \<Rightarrow> peer_endpoint list \<Rightarrow> 'w \<Rightarrow> (int \<times> peer_endpoint list) result \<times> 'w" where
  "query_targets net cid [] w = (Inr (0, []), w)"
| "query_targets net cid (p # ps) w =
     (case hasChunk_rpc net w p cid of
        (Inl e, _, w1) \<Rightarrow> (Inl e, w1)
      | (Inr has, _, w1) \<Rightarrow>
         (case query_targets net cid ps w1 of
            (Inl e, w2) \<Rightarrow> (Inl e, w2)
          | (Inr (already, missing), w2) \<Rightarrow>
              (Inr (if has then (already + 1, missing) else (already, p # missing)), w2)))"

text \<open>\<^verbatim>\<open>for (p : missing) { putChunk(*p, ...); if (--needed <= 0) break; }\<close>\<close>

fun put_needed ::
    "'w network \<Rightarrow> string \<Rightarrow> bytes \<Rightarrow> int \<Rightarrow> peer_endpoint list \<Rightarrow> 'w \<Rightarrow> unit result \<times> 'w" where
  "put_needed net cid data needed [] w = (Inr (), w)"
| "put_needed net cid data needed (p # ps) w =
     (case putChunk net w p cid data of
        (Inl e, _, w1) \<Rightarrow> (Inl e, w1)
      | (Inr _, _, w1) \<Rightarrow>
          if needed - 1 \<le> 0 then (Inr (), w1) else put_needed net cid data (needed - 1) ps w1)"

fun put_to_all :: "'w network \<Rightarrow> string \<Rightarrow> bytes \<Rightarrow> peer_endpoint list \<Rightarrow> 'w \<Rightarrow> unit result \<times> 'w" where
  "put_to_all net cid data [] w = (Inr (), w)"
| "put_to_all net cid data (p # ps) w =
     (case putChunk net w p cid data of
        (Inl e, _, w1) \<Rightarrow> (Inl e, w1)
      | (Inr _, _, w1) \<Rightarrow> put_to_all net cid data ps w1)"

definition upload_plain ::
    "'w network \<Rightarrow> string \<Rightarrow> bytes \<Rightarrow> int \<Rightarrow> peer_endpoint list \<Rightarrow> 'w \<Rightarrow> unit result \<times> 'w" where
  "upload_plain net cid data replicas targets w =
     (case query_targets net cid targets w of
        (Inl e, w1) \<Rightarrow> (Inl e, w1)
      | (Inr (already, missing), w1) \<Rightarrow>
         (let needed = replicas - already in
          if needed > 0 then put_needed net cid data needed missing w1 else (Inr (), w1)))"

text \<open>\<open>keys = None\<close> is plaintext mode.\<close>

definition put_one_chunk ::
    "('w, 'c, 'k, 'x) dss_env \<Rightarrow> routing_table \<Rightarrow> int \<Rightarrow> file_encryption_params option \<Rightarrow> u64 \<Rightarrow> bytes
       \<Rightarrow> 'w \<Rightarrow> string result \<times> 'w" where
  "put_one_chunk env dht replicas keys idx data w =
     (let cid = sha256_hex (en_sha256 env) data in
      case (case keys of None \<Rightarrow> Inr data
            | Some fp \<Rightarrow> snd (aes_gcm_encrypt (en_cipher env) data (fp_key fp) (fp_iv fp) idx)) of
        Inl e \<Rightarrow> (Inl e, w)
      | Inr toSend \<Rightarrow>
         (case dht_store (en_sha256 env) dht cid replicas of
            Inl e \<Rightarrow> (Inl e, w)
          | Inr targets \<Rightarrow>
             (case (case keys of
                      None \<Rightarrow> upload_plain (en_net env) cid toSend replicas targets w
                    | Some _ \<Rightarrow> put_to_all (en_net env) cid toSend targets w) of
                (Inl e, w') \<Rightarrow> (Inl e, w')
              | (Inr _, w') \<Rightarrow> (Inr cid, w'))))"

text \<open>The loop over the chunks, with the ids it adds to the manifest and the progress it reports.\<close>

fun put_chunks ::
    "('w, 'c, 'k, 'x) dss_env \<Rightarrow> routing_table \<Rightarrow> int \<Rightarrow> file_encryption_params option \<Rightarrow> int
       \<Rightarrow> int \<Rightarrow> u64 \<Rightarrow> bytes list \<Rightarrow> 'w dss_state \<Rightarrow> string list result \<times> 'w dss_state" where
  "put_chunks env dht replicas keys tot don idx [] s = (Inr [], s)"
| "put_chunks env dht replicas keys tot don idx (c # cs) s =
     (case put_one_chunk env dht replicas keys idx c (ds_world s) of
        (Inl e, w) \<Rightarrow> (Inl e, s\<lparr>ds_world := w\<rparr>)
      | (Inr cid, w) \<Rightarrow>
         (let s1 = s\<lparr>ds_world := w, ds_progress := ds_progress s
                @ [\<lparr>pg_done = int_succ don, pg_total = tot, pg_message = ''Uploading chunks''\<rparr>]\<rparr> in
          case put_chunks env dht replicas keys tot (int_succ don) (idx + 1) cs s1 of
            (Inl e, s2) \<Rightarrow> (Inl e, s2)
          | (Inr cids, s2) \<Rightarrow> (Inr (cid # cids), s2)))"

fun put_manifest_to ::
    "'w network \<Rightarrow> string \<Rightarrow> string \<Rightarrow> peer_endpoint list \<Rightarrow> 'w \<Rightarrow> unit result \<times> 'w" where
  "put_manifest_to net mid txt [] w = (Inr (), w)"
| "put_manifest_to net mid txt (p # ps) w =
     (case putManifest net w p mid txt of
        (Inl e, _, w1) \<Rightarrow> (Inl e, w1)
      | (Inr _, _, w1) \<Rightarrow> put_manifest_to net mid txt ps w1)"

definition share_prefix :: string where
  "share_prefix = ''dss://file/''"

text \<open>The local copy of the manifest, from \<^verbatim>\<open>manifestDir\<close> on.\<close>

definition write_local_manifest ::
    "client_config \<Rightarrow> string \<Rightarrow> manifest \<Rightarrow> disk \<Rightarrow> string result \<times> disk" where
  "write_local_manifest cfg cwd m d =
     (let dir = path_absolute cwd (if cc_localManifestDir cfg = [] then ''manifests'' else cc_localManifestDir cfg) in
      case create_directories d dir of (made, d1) \<Rightarrow>
        if \<not> made then (Inl (System_error (''Cannot create manifest directory: '' @ dir)), d1)
        else let path = path_append dir (mf_originalName m @ ''.manifest.txt'') in
          (case writeManifest d1 path m of
             Inl e \<Rightarrow> (Inl e, d1)
           | Inr d2 \<Rightarrow> (Inr path, d2)))"

text \<open>The key and its wrapped form, when a public key is configured.\<close>

definition make_file_key ::
    "('w, 'c, 'k, 'x) dss_env \<Rightarrow> client_config \<Rightarrow> octet list option \<Rightarrow> octet list option \<Rightarrow> disk
       \<Rightarrow> (file_encryption_params \<times> encrypted_key) option result" where
  "make_file_key env cfg rand_key rand_iv d =
     (if cc_rsaPublicKeyPath cfg = [] then Inr None
      else bindR (generate_file_key rand_key rand_iv) (\<lambda>fp.
           bindR (encrypt_file_key_rsa (en_pkey env) d fp (cc_rsaPublicKeyPath cfg)) (\<lambda>ek.
           Inr (Some (fp, ek)))))"

text \<open>The manifest before its chunk ids are known.\<close>

definition manifest_head :: "client_config \<Rightarrow> string \<Rightarrow> nat \<Rightarrow> encrypted_key option \<Rightarrow> manifest" where
  "manifest_head cfg filePath fileSize key =
     (let m = empty_manifest\<lparr>mf_originalName := path_filename filePath, mf_originalSize := of_nat fileSize,
                mf_chunkSize := cc_chunkSize cfg\<rparr> in
      case key of None \<Rightarrow> m
      | Some ek \<Rightarrow> m\<lparr>mf_encrypted := True, mf_encAlgo := ''AES-256-GCM'', mf_keyEncAlgo := ek_alg ek,
                     mf_encryptedKeyHex := to_hex (ek_blob ek)\<rparr>)"

text \<open>From the serialized manifest on: publish it, keep a local copy, return the share URI.\<close>

definition publish_manifest ::
    "('w, 'c, 'k, 'x) dss_env \<Rightarrow> client_config \<Rightarrow> routing_table \<Rightarrow> int \<Rightarrow> manifest
       \<Rightarrow> 'w dss_state \<Rightarrow> put_file_result result \<times> 'w dss_state" where
  "publish_manifest env cfg dht replicas m s =
     (let txt = serializeManifest m; mid = sha256_hex (en_sha256 env) txt in
      case dht_store (en_sha256 env) dht (''manifest:'' @ mid) replicas of
        Inl e \<Rightarrow> (Inl e, s)
      | Inr targets \<Rightarrow>
         (case put_manifest_to (en_net env) mid txt targets (ds_world s) of
            (Inl e, w) \<Rightarrow> (Inl e, s\<lparr>ds_world := w\<rparr>)
          | (Inr _, w) \<Rightarrow>
             (case write_local_manifest cfg (en_cwd env) m (ds_disk s) of
                (Inl e, d) \<Rightarrow> (Inl e, s\<lparr>ds_world := w, ds_disk := d\<rparr>)
              | (Inr path, d) \<Rightarrow>
                  (Inr \<lparr>pr_shareUri = share_prefix @ mid, pr_localManifestPath = path\<rparr>,
                   s\<lparr>ds_world := w, ds_disk := d\<rparr>))))"

definition putFile ::
    "('w, 'c, 'k, 'x) dss_env \<Rightarrow> client_config \<Rightarrow> octet list option \<Rightarrow> octet list option \<Rightarrow> string
       \<Rightarrow> 'w dss_state \<Rightarrow> put_file_result result \<times> 'w dss_state" where
  "putFile env cfg rand_key rand_iv filePath s =
     (if cc_peers cfg = [] then (Inl (Runtime_error ''No peers configured for DHT''), s)
      else case DhtNode (en_sha256 env) (cc_peers cfg) of
        Inl e \<Rightarrow> (Inl e, s)
      | Inr dht \<Rightarrow>
         (let replicas = clamp_replicas cfg in
          case fs_read (ds_disk s) filePath of
            None \<Rightarrow> (Inl (Filesystem_error (''cannot get file size: '' @ filePath)), s)
          | Some content \<Rightarrow>
             (case make_file_key env cfg rand_key rand_iv (ds_disk s) of
                Inl e \<Rightarrow> (Inl e, s)
              | Inr key \<Rightarrow>
                 (case chunkFile (ds_disk s) filePath (cc_chunkSize cfg) of
                    Inl e \<Rightarrow> (Inl e, s)
                  | Inr chunks \<Rightarrow>
                     (case put_chunks env dht replicas (map_option fst key) (int_of_size (length chunks)) 0 0
                             (map ck_bytes chunks) s of
                        (Inl e, s1) \<Rightarrow> (Inl e, s1)
                      | (Inr cids, s1) \<Rightarrow>
                          publish_manifest env cfg dht replicas
                            ((manifest_head cfg filePath (length content) (map_option snd key))\<lparr>mf_chunks := cids\<rparr>)
                            s1)))))"

section \<open>Downloading\<close>

text \<open>Append every configured peer that is not yet among the candidates.\<close>

fun append_missing :: "peer_endpoint list \<Rightarrow> peer_endpoint list \<Rightarrow> peer_endpoint list" where
  "append_missing cands [] = cands"
| "append_missing cands (p # ps) =
     (let already = (\<exists>c \<in> set cands. ip c = ip p \<and> port c = port p) in
      append_missing (if already then cands else cands @ [p]) ps)"

definition lookup_replicas :: "client_config \<Rightarrow> int" where
  "lookup_replicas cfg = (if cc_desiredReplicas cfg \<le> 0 then 1 else cc_desiredReplicas cfg)"

definition candidates ::
    "('w, 'c, 'k, 'x) dss_env \<Rightarrow> client_config \<Rightarrow> routing_table \<Rightarrow> string \<Rightarrow> peer_endpoint list result" where
  "candidates env cfg dht key =
     bindR (findValue (en_sha256 env) dht key (lookup_replicas cfg)) (\<lambda>cs. Inr (append_missing cs (cc_peers cfg)))"

text \<open>Ask the candidates in turn; every exception, wrong hash or malformed text moves on to the next.\<close>

fun fetch_manifest ::
    "('w, 'c, 'k, 'x) dss_env \<Rightarrow> string \<Rightarrow> peer_endpoint list \<Rightarrow> 'w \<Rightarrow> manifest option \<times> 'w" where
  "fetch_manifest env mid [] w = (None, w)"
| "fetch_manifest env mid (p # ps) w =
     (case getManifest (en_net env) w p mid of
        (Inl _, _, w1) \<Rightarrow> fetch_manifest env mid ps w1
      | (Inr txt, _, w1) \<Rightarrow>
          if sha256_hex (en_sha256 env) txt \<noteq> mid then fetch_manifest env mid ps w1
          else (case parseManifestText txt of
                  Inl _ \<Rightarrow> fetch_manifest env mid ps w1
                | Inr m \<Rightarrow> (Some m, w1)))"

definition resolve_manifest ::
    "('w, 'c, 'k, 'x) dss_env \<Rightarrow> client_config \<Rightarrow> routing_table \<Rightarrow> string \<Rightarrow> 'w dss_state
       \<Rightarrow> manifest result \<times> 'w dss_state" where
  "resolve_manifest env cfg dht ref s =
     (let mid = normalize_manifest_id ref in
      if looks_like_local_manifest_path (ds_disk s) ref then (readManifest (ds_disk s) ref, s)
      else (case candidates env cfg dht (''manifest:'' @ mid) of
          Inl e \<Rightarrow> (Inl e, s)
        | Inr cs \<Rightarrow>
           (case fetch_manifest env mid cs (ds_world s) of
              (None, w) \<Rightarrow> (Inl (Runtime_error (''Failed to retrieve manifest '' @ mid)), s\<lparr>ds_world := w\<rparr>)
            | (Some m, w) \<Rightarrow> (Inr m, s\<lparr>ds_world := w\<rparr>))))"

text \<open>
  The file key of an encrypted manifest; the flag is set when the key blob was too short
  and the OpenSSL objects were freed twice.
\<close>

definition unwrap_key ::
    "('w, 'c, 'k, 'x) dss_env \<Rightarrow> client_config \<Rightarrow> disk \<Rightarrow> manifest \<Rightarrow> file_encryption_params option result \<times> bool" where
  "unwrap_key env cfg d m =
     (let encryptedManifest = (mf_encrypted m \<and> mf_encryptedKeyHex m \<noteq> []);
          canDecrypt = (encryptedManifest \<and> cc_rsaPrivateKeyPath cfg \<noteq> []) in
      if encryptedManifest \<and> \<not> canDecrypt
      then (Inl (Runtime_error ''Manifest is encrypted but no RSA private key configured''), False)
      else if canDecrypt then
        (case from_hex (mf_encryptedKeyHex m) of
           Inl e \<Rightarrow> (Inl e, False)
         | Inr blob \<Rightarrow>
            (case decrypt_file_key_rsa (en_pkey env) d \<lparr>ek_alg = mf_keyEncAlgo m, ek_blob = blob\<rparr>
                    (cc_rsaPrivateKeyPath cfg) of
               (frees, r) \<Rightarrow> (map_sum id Some r, frees > 1)))
      else (Inr None, False))"

text \<open>The loop over the candidates of one chunk; the flag collects double frees.\<close>

fun fetch_chunk ::
    "('w, 'c, 'k, 'x) dss_env \<Rightarrow> file_encryption_params option \<Rightarrow> u64 \<Rightarrow> string \<Rightarrow> peer_endpoint list
       \<Rightarrow> 'w \<Rightarrow> bytes option \<times> bool \<times> 'w" where
  "fetch_chunk env keys idx cid [] w = (None, False, w)"
| "fetch_chunk env keys idx cid (p # ps) w =
     (case getChunk (en_net env) w p cid of
        (Inl _, _, w1) \<Rightarrow> fetch_chunk env keys idx cid ps w1
      | (Inr encData, _, w1) \<Rightarrow>
         (case (case keys of None \<Rightarrow> (0, Inr encData)
                | Some fp \<Rightarrow> aes_gcm_decrypt (en_cipher env) encData (fp_key fp) (fp_iv fp) idx) of
            (frees, Inl _) \<Rightarrow>
              (case fetch_chunk env keys idx cid ps w1 of (r, df, w2) \<Rightarrow> (r, frees > 1 \<or> df, w2))
          | (frees, Inr plain) \<Rightarrow>
              if sha256_hex (en_sha256 env) plain \<noteq> cid then fetch_chunk env keys idx cid ps w1
              else (Some plain, False, w1)))"

text \<open>The loop over the manifest's chunks: the text written so far is kept on every path.\<close>

fun fetch_chunks ::
    "('w, 'c, 'k, 'x) dss_env \<Rightarrow> client_config \<Rightarrow> routing_table \<Rightarrow> file_encryption_params option \<Rightarrow> int
       \<Rightarrow> int \<Rightarrow> u64 \<Rightarrow> string list \<Rightarrow> 'w dss_state \<Rightarrow> unit result \<times> bytes \<times> 'w dss_state" where
  "fetch_chunks env cfg dht keys tot don idx [] s = (Inr (), [], s)"
| "fetch_chunks env cfg dht keys tot don idx (cid # cids) s =
     (case candidates env cfg dht cid of
        Inl e \<Rightarrow> (Inl e, [], s)
      | Inr cs \<Rightarrow>
         (case fetch_chunk env keys idx cid cs (ds_world s) of
            (found, df, w) \<Rightarrow>
              (let s1 = s\<lparr>ds_world := w, ds_double_free := ds_double_free s \<or> df\<rparr> in
               case found of
                 None \<Rightarrow> (Inl (Runtime_error (''Failed to retrieve chunk '' @ cid)), [], s1)
               | Some plain \<Rightarrow>
                  (let s2 = s1\<lparr>ds_progress := ds_progress s1
                         @ [\<lparr>pg_done = int_succ don, pg_total = tot, pg_message = ''Downloading chunks''\<rparr>]\<rparr> in
                   case fetch_chunks env cfg dht keys tot (int_succ don) (idx + 1) cids s2 of
                     (r, rest, s3) \<Rightarrow> (r, plain @ rest, s3)))))"

definition write_output ::
    "('w, 'c, 'k, 'x) dss_env \<Rightarrow> client_config \<Rightarrow> routing_table \<Rightarrow> file_encryption_params option \<Rightarrow> manifest
       \<Rightarrow> string \<Rightarrow> 'w dss_state \<Rightarrow> unit result \<times> 'w dss_state" where
  "write_output env cfg dht keys m outPath s =
     (case fs_write (ds_disk s) outPath [] of
        None \<Rightarrow> (Inl (Runtime_error (''Cannot open output file: '' @ outPath)), s)
      | Some d \<Rightarrow>
         (case fetch_chunks env cfg dht keys (int_of_size (length (mf_chunks m))) 0 0 (mf_chunks m)
                 (s\<lparr>ds_disk := d\<rparr>) of
            (r, content, s1) \<Rightarrow>
              (r, s1\<lparr>ds_disk := (case fs_write (ds_disk s1) outPath content of None \<Rightarrow> ds_disk s1 | Some d' \<Rightarrow> d')\<rparr>)))"

definition getFile ::
    "('w, 'c, 'k, 'x) dss_env \<Rightarrow> client_config \<Rightarrow> string \<Rightarrow> string \<Rightarrow> 'w dss_state \<Rightarrow> unit result \<times> 'w dss_state" where
  "getFile env cfg ref outPath s =
     (if cc_peers cfg = [] then (Inl (Runtime_error ''No peers configured for DHT''), s)
      else case DhtNode (en_sha256 env) (cc_peers cfg) of
        Inl e \<Rightarrow> (Inl e, s)
      | Inr dht \<Rightarrow>
         (case resolve_manifest env cfg dht ref s of
            (Inl e, s1) \<Rightarrow> (Inl e, s1)
          | (Inr m, s1) \<Rightarrow>
             (case unwrap_key env cfg (ds_disk s1) m of
                (r, df) \<Rightarrow>
                  (let s2 = s1\<lparr>ds_double_free := ds_double_free s1 \<or> df\<rparr> in
                   case r of
                     Inl e \<Rightarrow> (Inl e, s2)
                   | Inr keys \<Rightarrow> write_output env cfg dht keys m outPath s2))))"

definition repair :: "int \<Rightarrow> unit result" where
  "repair batch = Inl (Runtime_error ''Repair is not supported without a tracker/DHT index yet'')"

section \<open>What is accepted from a peer\<close>

lemma fetch_chunk_sound:
  "fetch_chunk env keys idx cid ps w = (Some plain, df, w') \<Longrightarrow> sha256_hex (en_sha256 env) plain = cid"
proof (induction ps arbitrary: w df w')
  case (Cons p ps)
  then show ?case by (auto split: prod.splits sum.splits if_splits option.splits)
qed simp

lemma fetch_chunks_sound:
  "fetch_chunks env cfg dht keys tot don idx cids s = (r, content, s') \<Longrightarrow>
   \<exists>got pieces. (if r = Inr () then got = cids else prefix got cids)
     \<and> map (sha256_hex (en_sha256 env)) pieces = got \<and> content = concat pieces \<and> ds_disk s' = ds_disk s"
proof (induction cids arbitrary: don idx s content)
  case (Cons cid cids)
  obtain c where c: "candidates env cfg dht cid = c" by simp
  show ?case
  proof (cases c)
    case (Inl e)
    then show ?thesis using Cons.prems c by (intro exI [of _ "[]"]) auto
  next
    case (Inr cs)
    obtain found df w where f: "fetch_chunk env keys idx cid cs (ds_world s) = (found, df, w)"
      by (cases "fetch_chunk env keys idx cid cs (ds_world s)")
    show ?thesis
    proof (cases found)
      case None
      then show ?thesis using Cons.prems c Inr f by (intro exI [of _ "[]"]) (auto simp: Let_def)
    next
      case (Some plain)
      let ?s2 = "s\<lparr>ds_world := w, ds_double_free := ds_double_free s \<or> df, ds_progress := ds_progress s
        @ [\<lparr>pg_done = int_succ don, pg_total = tot, pg_message = ''Downloading chunks''\<rparr>]\<rparr>"
      obtain rest where rest: "fetch_chunks env cfg dht keys tot (int_succ don) (idx + 1) cids ?s2 = (r, rest, s')"
          "content = plain @ rest"
        using Cons.prems c Inr f Some by (auto simp: Let_def split: prod.splits)
      obtain got pieces where IH: "if r = Inr () then got = cids else prefix got cids"
          "map (sha256_hex (en_sha256 env)) pieces = got" "rest = concat pieces" "ds_disk s' = ds_disk s"
        using Cons.IH [OF rest(1)] by auto
      have "sha256_hex (en_sha256 env) plain = cid" using f Some by (auto dest: fetch_chunk_sound)
      then show ?thesis
        using IH rest(2) by (intro exI [of _ "cid # got"] exI [of _ "plain # pieces"]) (auto split: if_splits)
    qed
  qed
qed simp

lemma fetch_manifest_sound:
  "fetch_manifest env mid ps w = (Some m, w') \<Longrightarrow>
   \<exists>txt. sha256_hex (en_sha256 env) txt = mid \<and> parseManifestText txt = Inr m"
  by (induction ps arbitrary: w) (auto split: prod.splits sum.splits if_splits)

lemma getFile_run:
  assumes "getFile env cfg ref out s = (r, s')" "r = Inr ()"
  shows "\<exists>dht m s1 keys s2 content d. DhtNode (en_sha256 env) (cc_peers cfg) = Inr dht
    \<and> resolve_manifest env cfg dht ref s = (Inr m, s1)
    \<and> fetch_chunks env cfg dht keys (int_of_size (length (mf_chunks m))) 0 0 (mf_chunks m) s2 = (Inr (), content, s'\<lparr>ds_disk := d\<rparr>)
    \<and> fs_read (ds_disk s') out = Some content"
proof -
  obtain dht m s1 keys df where run: "DhtNode (en_sha256 env) (cc_peers cfg) = Inr dht"
      "resolve_manifest env cfg dht ref s = (Inr m, s1)"
      "write_output env cfg dht keys m out (s1\<lparr>ds_double_free := ds_double_free s1 \<or> df\<rparr>) = (Inr (), s')"
    using assms by (auto simp: getFile_def Let_def split: if_splits sum.splits prod.splits)
  let ?s1 = "s1\<lparr>ds_double_free := ds_double_free s1 \<or> df\<rparr>"
  obtain d where d: "fs_write (ds_disk ?s1) out [] = Some d"
    using run(3) by (auto simp: write_output_def split: option.splits)
  obtain content s3 where f: "fetch_chunks env cfg dht keys (int_of_size (length (mf_chunks m))) 0 0 (mf_chunks m) (?s1\<lparr>ds_disk := d\<rparr>)
        = (Inr (), content, s3)"
      "s' = s3\<lparr>ds_disk := (case fs_write (ds_disk s3) out content of None \<Rightarrow> ds_disk s3 | Some d' \<Rightarrow> d')\<rparr>"
    using run(3) d by (auto simp: write_output_def split: prod.splits)
  have "ds_disk s3 = d" using fetch_chunks_sound [OF f(1)] by auto
  moreover have "can_open d out" using d by (auto simp: fs_write_Some)
  ultimately obtain d' where d': "fs_write (ds_disk s3) out content = Some d'" by (simp add: fs_write_def)
  then have "fs_read (ds_disk s') out = Some content" "s'\<lparr>ds_disk := ds_disk s3\<rparr> = s3"
    using f(2) by (simp_all add: fs_read_write)
  then show ?thesis using run(1,2) f(1) by metis
qed

lemma getFile_verified:
  assumes "getFile env cfg ref out s = (Inr (), s')" "\<not> fs_exists (ds_disk s) ref"
  shows "\<exists>txt m pieces. sha256_hex (en_sha256 env) txt = normalize_manifest_id ref
    \<and> parseManifestText txt = Inr m \<and> map (sha256_hex (en_sha256 env)) pieces = mf_chunks m
    \<and> fs_read (ds_disk s') out = Some (concat pieces)"
proof -
  obtain dht m s1 keys s2 content d where run: "resolve_manifest env cfg dht ref s = (Inr m, s1)"
      "fetch_chunks env cfg dht keys (int_of_size (length (mf_chunks m))) 0 0 (mf_chunks m) s2 = (Inr (), content, s'\<lparr>ds_disk := d\<rparr>)"
      "fs_read (ds_disk s') out = Some content"
    using getFile_run [OF assms(1) refl] by blast
  obtain tx where "sha256_hex (en_sha256 env) tx = normalize_manifest_id ref" "parseManifestText tx = Inr m"
    using run(1) assms(2)
    by (auto simp: resolve_manifest_def looks_like_local_manifest_path_def Let_def
        split: sum.splits prod.splits option.splits dest: fetch_manifest_sound)
  then show ?thesis using fetch_chunks_sound [OF run(2)] run(3) by auto
qed

text \<open>
  C20: Whatever the peers answer, a download that succeeds wrote only verified data: the
  manifest is a text with the requested hash, and the output file is the concatenation of
  pieces whose hashes are the manifest's chunk ids, in order.
\<close>

theorem getFile_integrity:
  assumes "getFile env cfg ref out s = (Inr (), s')" "\<not> fs_exists (ds_disk s) ref"
  shows "\<exists>txt m pieces. sha256_hex (en_sha256 env) txt = normalize_manifest_id ref
    \<and> parseManifestText txt = Inr m \<and> map (sha256_hex (en_sha256 env)) pieces = mf_chunks m
    \<and> fs_read (ds_disk s') out = Some (concat pieces)"
  by (rule getFile_verified [OF assms])

lemma resolve_manifest_disk: "resolve_manifest env cfg dht ref s = (r, s1) \<Longrightarrow> ds_disk s1 = ds_disk s"
  by (auto simp: resolve_manifest_def Let_def split: if_splits sum.splits prod.splits option.splits)

text \<open>
  C21: What a failed download leaves behind: either the output file is as it was, or it has
  been overwritten and holds verified data only, the pieces of a prefix of the manifest's
  chunk list. A partial file is not removed, and an older file of that name is lost.
\<close>

theorem getFile_failure:
  assumes "getFile env cfg ref out s = (Inl e, s')"
  shows "fs_read (ds_disk s') out = fs_read (ds_disk s) out \<or>
    (\<exists>dht m s1 pieces. resolve_manifest env cfg dht ref s = (Inr m, s1) \<and> prefix (map (sha256_hex (en_sha256 env)) pieces) (mf_chunks m)
      \<and> fs_read (ds_disk s') out = Some (concat pieces))"
proof (cases "fs_read (ds_disk s') out = fs_read (ds_disk s) out")
  case False
  then obtain dht m s1 keys df where run: "resolve_manifest env cfg dht ref s = (Inr m, s1)"
      "write_output env cfg dht keys m out (s1\<lparr>ds_double_free := ds_double_free s1 \<or> df\<rparr>) = (Inl e, s')"
    using assms resolve_manifest_disk
    by (fastforce simp: getFile_def Let_def split: if_splits sum.splits prod.splits)
  let ?s1 = "s1\<lparr>ds_double_free := ds_double_free s1 \<or> df\<rparr>"
  obtain d where d: "fs_write (ds_disk ?s1) out [] = Some d"
    using run False resolve_manifest_disk [OF run(1)] by (auto simp: write_output_def split: option.splits)
  obtain content s3 where f: "fetch_chunks env cfg dht keys (int_of_size (length (mf_chunks m))) 0 0 (mf_chunks m) (?s1\<lparr>ds_disk := d\<rparr>)
        = (Inl e, content, s3)"
      "s' = s3\<lparr>ds_disk := (case fs_write (ds_disk s3) out content of None \<Rightarrow> ds_disk s3 | Some d' \<Rightarrow> d')\<rparr>"
    using run(2) d by (auto simp: write_output_def split: prod.splits)
  obtain pieces where p: "prefix (map (sha256_hex (en_sha256 env)) pieces) (mf_chunks m)" "content = concat pieces" "ds_disk s3 = d"
    using fetch_chunks_sound [OF f(1)] by auto
  moreover have "can_open d out" using d by (auto simp: fs_write_Some)
  ultimately have "fs_read (ds_disk s') out = Some (concat pieces)" using f(2) by (auto simp: fs_write_def fs_read_def)
  then show ?thesis using run(1) p(1) by blast
qed simp

section \<open>What is published\<close>

lemma put_one_chunk_cid:
  "put_one_chunk env dht replicas keys idx data w = (Inr cid, w') \<Longrightarrow> cid = sha256_hex (en_sha256 env) data"
  by (auto simp: put_one_chunk_def Let_def split: sum.splits prod.splits)

lemma put_chunks_cids:
  "put_chunks env dht replicas keys tot don idx cs s = (Inr cids, s') \<Longrightarrow>
   cids = map (sha256_hex (en_sha256 env)) cs \<and> ds_disk s' = ds_disk s"
proof (induction cs arbitrary: don idx s cids)
  case (Cons c cs)
  then show ?case
    by (auto simp: Let_def split: sum.splits prod.splits dest: put_one_chunk_cid)
qed simp

lemma publish_manifest_uri:
  "publish_manifest env cfg dht replicas m s = (Inr res, s') \<Longrightarrow>
   pr_shareUri res = share_prefix @ sha256_hex (en_sha256 env) (serializeManifest m)"
  by (auto simp: publish_manifest_def Let_def split: sum.splits prod.splits)

lemma manifest_head_simps [simp]:
  "mf_originalName (manifest_head cfg path n key) = path_filename path"
  "mf_originalSize (manifest_head cfg path n key) = of_nat n"
  "mf_chunkSize (manifest_head cfg path n key) = cc_chunkSize cfg"
  "mf_encrypted (manifest_head cfg path n key) = (key \<noteq> None)"
  by (auto simp: manifest_head_def Let_def empty_manifest_def split: option.splits)

lemma putFile_published:
  assumes "putFile env cfg rk ri path s = (Inr res, s')"
  shows "\<exists>content chunks m. fs_read (ds_disk s) path = Some content
    \<and> chunkFile (ds_disk s) path (cc_chunkSize cfg) = Inr chunks
    \<and> mf_chunks m = map (sha256_hex (en_sha256 env)) (map ck_bytes chunks)
    \<and> mf_originalName m = path_filename path \<and> mf_originalSize m = of_nat (length content)
    \<and> mf_encrypted m = (cc_rsaPublicKeyPath cfg \<noteq> [])
    \<and> pr_shareUri res = share_prefix @ sha256_hex (en_sha256 env) (serializeManifest m)"
proof -
  obtain dht content key chunks cids s1 where run: "fs_read (ds_disk s) path = Some content"
      "make_file_key env cfg rk ri (ds_disk s) = Inr key"
      "chunkFile (ds_disk s) path (cc_chunkSize cfg) = Inr chunks"
      "put_chunks env dht (clamp_replicas cfg) (map_option fst key) (int_of_size (length chunks)) 0 0 (map ck_bytes chunks) s = (Inr cids, s1)"
      "publish_manifest env cfg dht (clamp_replicas cfg)
         ((manifest_head cfg path (length content) (map_option snd key))\<lparr>mf_chunks := cids\<rparr>) s1 = (Inr res, s')"
    using assms by (auto simp: putFile_def Let_def split: if_splits sum.splits prod.splits option.splits)
  let ?m = "(manifest_head cfg path (length content) (map_option snd key))\<lparr>mf_chunks := cids\<rparr>"
  have "key \<noteq> None \<longleftrightarrow> cc_rsaPublicKeyPath cfg \<noteq> []"
    using run(2) by (auto simp: make_file_key_def result_iff split: if_splits)
  then show ?thesis
    using run(1,3) put_chunks_cids [OF run(4)] publish_manifest_uri [OF run(5)]
    by (intro exI [of _ content] exI [of _ chunks] exI [of _ ?m]) auto
qed

lemma sha_hex_is_token: "digest32 sha \<Longrightarrow> is_token (sha256_hex sha x)"
  by (rule sha256_hex_token) (simp add: digest32_def)

lemma normalize_share_uri [simp]: "normalize_manifest_id (share_prefix @ mid) = mid"
  by (simp add: normalize_manifest_id_def share_prefix_def Let_def starts_with_def)

section \<open>What is sent and what is accepted\<close>

text \<open>
  The texts that \<^verbatim>\<open>putFile\<close> hashes: the manifest's and the chunks.
\<close>

definition file_manifest ::
    "(bytes \<Rightarrow> octet list) \<Rightarrow> client_config \<Rightarrow> string \<Rightarrow> bytes \<Rightarrow> encrypted_key option \<Rightarrow> bytes list \<Rightarrow> manifest" where
  "file_manifest sha cfg path content key pieces =
     (manifest_head cfg path (length content) key)\<lparr>mf_chunks := map (sha256_hex sha) pieces\<rparr>"

definition sent_texts ::
    "('w, 'c, 'k, 'x) dss_env \<Rightarrow> client_config \<Rightarrow> octet list option \<Rightarrow> octet list option \<Rightarrow> string \<Rightarrow> disk \<Rightarrow> bytes list" where
  "sent_texts env cfg rand_key rand_iv path d =
     (case (fs_read d path, chunkFile d path (cc_chunkSize cfg), make_file_key env cfg rand_key rand_iv d) of
        (Some content, Inr chunks, Inr key) \<Rightarrow>
          serializeManifest (file_manifest (en_sha256 env) cfg path content (map_option snd key) (map ck_bytes chunks))
            # map ck_bytes chunks
      | _ \<Rightarrow> [])"

text \<open>
  The texts that \<^verbatim>\<open>getFile\<close> takes from the peers, in the order of its loops: the manifest's,
  and of each chunk the text whose hash it compared with the id. They are what the run
  itself computes, no matter how the peers got them.
\<close>

fun accepted_manifest :: "('w, 'c, 'k, 'x) dss_env \<Rightarrow> string \<Rightarrow> peer_endpoint list \<Rightarrow> 'w \<Rightarrow> bytes list" where
  "accepted_manifest env mid [] w = []"
| "accepted_manifest env mid (p # ps) w =
     (case getManifest (en_net env) w p mid of
        (Inl _, _, w1) \<Rightarrow> accepted_manifest env mid ps w1
      | (Inr txt, _, w1) \<Rightarrow>
          if sha256_hex (en_sha256 env) txt \<noteq> mid then accepted_manifest env mid ps w1
          else (case parseManifestText txt of Inl _ \<Rightarrow> accepted_manifest env mid ps w1 | Inr _ \<Rightarrow> [txt]))"

fun accepted_pieces ::
    "('w, 'c, 'k, 'x) dss_env \<Rightarrow> client_config \<Rightarrow> routing_table \<Rightarrow> file_encryption_params option \<Rightarrow> u64
       \<Rightarrow> string list \<Rightarrow> 'w \<Rightarrow> bytes list" where
  "accepted_pieces env cfg dht keys idx [] w = []"
| "accepted_pieces env cfg dht keys idx (cid # cids) w =
     (case candidates env cfg dht cid of
        Inl _ \<Rightarrow> []
      | Inr cs \<Rightarrow>
         (case fetch_chunk env keys idx cid cs w of
            (None, _, _) \<Rightarrow> []
          | (Some plain, _, w1) \<Rightarrow> plain # accepted_pieces env cfg dht keys (idx + 1) cids w1))"

definition accepted_texts ::
    "('w, 'c, 'k, 'x) dss_env \<Rightarrow> client_config \<Rightarrow> string \<Rightarrow> 'w dss_state \<Rightarrow> bytes list" where
  "accepted_texts env cfg ref s =
     (case DhtNode (en_sha256 env) (cc_peers cfg) of
        Inl _ \<Rightarrow> []
      | Inr dht \<Rightarrow>
         (let mid = normalize_manifest_id ref in
          (case candidates env cfg dht (''manifest:'' @ mid) of
             Inl _ \<Rightarrow> [] | Inr cs \<Rightarrow> accepted_manifest env mid cs (ds_world s))
          @ (case resolve_manifest env cfg dht ref s of
               (Inl _, _) \<Rightarrow> []
             | (Inr m, s1) \<Rightarrow>
                 (case unwrap_key env cfg (ds_disk s1) m of
                    (Inl _, _) \<Rightarrow> []
                  | (Inr keys, _) \<Rightarrow> accepted_pieces env cfg dht keys 0 (mf_chunks m) (ds_world s1)))))"

lemma fetch_manifest_accepted:
  "fetch_manifest env mid ps w = (Some m, w') \<Longrightarrow>
   \<exists>txt. accepted_manifest env mid ps w = [txt] \<and> sha256_hex (en_sha256 env) txt = mid \<and> parseManifestText txt = Inr m"
  by (induction ps arbitrary: w) (auto split: prod.splits sum.splits if_splits)

lemma fetch_chunks_accepted:
  "fetch_chunks env cfg dht keys tot don idx cids s = (Inr (), content, s') \<Longrightarrow>
   content = concat (accepted_pieces env cfg dht keys idx cids (ds_world s))
   \<and> map (sha256_hex (en_sha256 env)) (accepted_pieces env cfg dht keys idx cids (ds_world s)) = cids"
proof (induction cids arbitrary: don idx s content)
  case (Cons cid cids)
  then obtain cs plain df w where f: "candidates env cfg dht cid = Inr cs" "fetch_chunk env keys idx cid cs (ds_world s) = (Some plain, df, w)"
    by (auto simp: Let_def split: sum.splits prod.splits option.splits)
  let ?s2 = "s\<lparr>ds_world := w, ds_double_free := ds_double_free s \<or> df, ds_progress := ds_progress s
      @ [\<lparr>pg_done = int_succ don, pg_total = tot, pg_message = ''Downloading chunks''\<rparr>]\<rparr>"
  obtain rest where "fetch_chunks env cfg dht keys tot (int_succ don) (idx + 1) cids ?s2 = (Inr (), rest, s')" "content = plain @ rest"
    using Cons.prems f by (auto simp: Let_def split: prod.splits)
  from Cons.IH [OF this(1)] this(2) show ?case using f fetch_chunk_sound [OF f(2)] by simp
qed simp

text \<open>What is written is what was accepted.\<close>

lemma getFile_accepted:
  assumes "getFile env cfg ref out s = (Inr (), s')" "\<not> fs_exists (ds_disk s) ref"
  shows "\<exists>txt m pieces. accepted_texts env cfg ref s = txt # pieces \<and> sha256_hex (en_sha256 env) txt = normalize_manifest_id ref
    \<and> parseManifestText txt = Inr m \<and> map (sha256_hex (en_sha256 env)) pieces = mf_chunks m
    \<and> fs_read (ds_disk s') out = Some (concat pieces)"
proof -
  obtain dht m s1 keys df where run: "DhtNode (en_sha256 env) (cc_peers cfg) = Inr dht"
      "resolve_manifest env cfg dht ref s = (Inr m, s1)" "unwrap_key env cfg (ds_disk s1) m = (Inr keys, df)"
      "write_output env cfg dht keys m out (s1\<lparr>ds_double_free := ds_double_free s1 \<or> df\<rparr>) = (Inr (), s')"
    using assms by (auto simp: getFile_def Let_def split: if_splits sum.splits prod.splits)
  let ?mid = "normalize_manifest_id ref" and ?ps = "accepted_pieces env cfg dht keys 0 (mf_chunks m) (ds_world s1)"
  obtain d content s3 where f: "fs_write (ds_disk s1) out [] = Some d"
      "fetch_chunks env cfg dht keys (int_of_size (length (mf_chunks m))) 0 0 (mf_chunks m)
         (s1\<lparr>ds_double_free := ds_double_free s1 \<or> df, ds_disk := d\<rparr>) = (Inr (), content, s3)"
      "ds_disk s' = (case fs_write (ds_disk s3) out content of None \<Rightarrow> ds_disk s3 | Some d' \<Rightarrow> d')"
    using run(4) by (auto simp: write_output_def split: option.splits prod.splits)
  have pieces: "content = concat ?ps" "map (sha256_hex (en_sha256 env)) ?ps = mf_chunks m"
    using fetch_chunks_accepted [OF f(2)] by simp_all
  have "ds_disk s3 = d" using fetch_chunks_sound [OF f(2)] by auto
  moreover have "can_open d out" using f(1) by (auto simp: fs_write_Some)
  ultimately have out: "fs_read (ds_disk s') out = Some content" using f(3) by (simp add: fs_write_def fs_read_def)
  obtain cs w where cs: "candidates env cfg dht (''manifest:'' @ ?mid) = Inr cs" "fetch_manifest env ?mid cs (ds_world s) = (Some m, w)"
    using run(2) assms(2)
    by (auto simp: resolve_manifest_def looks_like_local_manifest_path_def Let_def split: sum.splits prod.splits option.splits)
  obtain tx where tx: "accepted_manifest env ?mid cs (ds_world s) = [tx]" "sha256_hex (en_sha256 env) tx = ?mid" "parseManifestText tx = Inr m"
    using fetch_manifest_accepted [OF cs(2)] by blast
  have "accepted_texts env cfg ref s = tx # ?ps"
    using run(1-3) cs(1) tx(1) by (simp add: accepted_texts_def)
  then show ?thesis using tx(2,3) pieces out by blast
qed

text \<open>Two different texts, one from each list, with the same id.\<close>

definition collision :: "(bytes \<Rightarrow> octet list) \<Rightarrow> bytes list \<Rightarrow> bytes list \<Rightarrow> bool" where
  "collision sha xs ys \<longleftrightarrow> (\<exists>x \<in> set xs. \<exists>y \<in> set ys. x \<noteq> y \<and> sha256_hex sha x = sha256_hex sha y)"

lemma collision_Cons:
  "\<not> collision sha (x # xs) (y # ys) \<Longrightarrow> (sha256_hex sha y = sha256_hex sha x \<longrightarrow> y = x) \<and> \<not> collision sha xs ys"
  unfolding collision_def by auto

lemma pieces_unique:
  "map (sha256_hex sha) ys = map (sha256_hex sha) xs \<Longrightarrow> \<not> collision sha xs ys \<Longrightarrow> ys = xs"
proof (induction xs arbitrary: ys)
  case (Cons x xs)
  then obtain y ys' where y: "ys = y # ys'" "sha256_hex sha y = sha256_hex sha x" "map (sha256_hex sha) ys' = map (sha256_hex sha) xs"
    by auto
  with Cons.prems(2) collision_Cons [of sha x xs y ys'] have "y = x" "\<not> collision sha xs ys'" by auto
  then show ?case using Cons.IH [OF y(3)] y(1) by simp
qed simp

lemma putFile_sent:
  assumes "putFile env cfg rk ri path s = (Inr res, s1)" "fs_read (ds_disk s) path = Some content"
  shows "\<exists>chunks m. sent_texts env cfg rk ri path (ds_disk s) = serializeManifest m # map ck_bytes chunks
    \<and> chunkFile (ds_disk s) path (cc_chunkSize cfg) = Inr chunks
    \<and> mf_chunks m = map (sha256_hex (en_sha256 env)) (map ck_bytes chunks) \<and> mf_originalName m = path_filename path
    \<and> pr_shareUri res = share_prefix @ sha256_hex (en_sha256 env) (serializeManifest m)"
proof -
  obtain dht key chunks cids s' where run: "make_file_key env cfg rk ri (ds_disk s) = Inr key"
      "chunkFile (ds_disk s) path (cc_chunkSize cfg) = Inr chunks"
      "put_chunks env dht (clamp_replicas cfg) (map_option fst key) (int_of_size (length chunks)) 0 0 (map ck_bytes chunks) s = (Inr cids, s')"
      "publish_manifest env cfg dht (clamp_replicas cfg)
         ((manifest_head cfg path (length content) (map_option snd key))\<lparr>mf_chunks := cids\<rparr>) s' = (Inr res, s1)"
    using assms by (auto simp: putFile_def Let_def split: if_splits sum.splits prod.splits option.splits)
  let ?m = "file_manifest (en_sha256 env) cfg path content (map_option snd key) (map ck_bytes chunks)"
  have m: "(manifest_head cfg path (length content) (map_option snd key))\<lparr>mf_chunks := cids\<rparr> = ?m"
    using put_chunks_cids [OF run(3)] by (simp add: file_manifest_def)
  have "sent_texts env cfg rk ri path (ds_disk s) = serializeManifest ?m # map ck_bytes chunks"
    using assms(2) run(1,2) by (simp add: sent_texts_def)
  then show ?thesis
    using run(2) publish_manifest_uri [OF run(4)] unfolding m
    by (intro exI [of _ chunks] exI [of _ ?m]) (simp add: file_manifest_def)
qed

lemma put_get_same:
  assumes "putFile env cfg rk ri path s = (Inr res, s1)" "getFile env' cfg' (pr_shareUri res) out s2 = (Inr (), s3)"
    "en_sha256 env' = en_sha256 env" "digest32 (en_sha256 env)" "\<not> fs_exists (ds_disk s2) (pr_shareUri res)"
    "fs_read (ds_disk s) path = Some content" "is_token (path_filename path)" "length content \<le> entries_max"
    "\<not> collision (en_sha256 env) (sent_texts env cfg rk ri path (ds_disk s)) (accepted_texts env' cfg' (pr_shareUri res) s2)"
  shows "fs_read (ds_disk s3) out = Some content"
proof -
  let ?sha = "en_sha256 env"
  obtain chunks m where m: "sent_texts env cfg rk ri path (ds_disk s) = serializeManifest m # map ck_bytes chunks"
      "chunkFile (ds_disk s) path (cc_chunkSize cfg) = Inr chunks"
      "mf_chunks m = map (sha256_hex ?sha) (map ck_bytes chunks)" "mf_originalName m = path_filename path"
      "pr_shareUri res = share_prefix @ sha256_hex ?sha (serializeManifest m)"
    using putFile_sent [OF assms(1,6)] by blast
  obtain tx m' pieces where get: "accepted_texts env' cfg' (pr_shareUri res) s2 = tx # pieces"
      "sha256_hex ?sha tx = sha256_hex ?sha (serializeManifest m)"
      "parseManifestText tx = Inr m'" "map (sha256_hex ?sha) pieces = mf_chunks m'"
      "fs_read (ds_disk s3) out = Some (concat pieces)"
    using getFile_accepted [OF assms(2,5)] unfolding assms(3) m(5) normalize_share_uri by blast
  have tx: "tx = serializeManifest m" "\<not> collision ?sha (map ck_bytes chunks) pieces"
    using collision_Cons [OF assms(9) [unfolded m(1) get(1)]] get(2) by blast+
  note parts = chunkFile_parts [OF m(2) assms(6)]
  have "length (mf_chunks m) \<le> entries_max" using parts assms(8) m(3) by simp
  moreover have "\<forall>i \<in> set (mf_chunks m). is_token i" using m(3) sha_hex_is_token [OF assms(4)] by auto
  ultimately have "mf_chunks m' = mf_chunks m"
    using get(3) parse_head_chunks [of m _ m'] m(4) assms(7) unfolding tx(1) by (simp add: serializeManifest_alt)
  then have "map (sha256_hex ?sha) pieces = map (sha256_hex ?sha) (map ck_bytes chunks)" using get(4) m(3) by metis
  then have "pieces = map ck_bytes chunks" using tx(2) by (rule pieces_unique)
  then show ?thesis using get(5) parts by simp
qed

text \<open>
  C2: End-to-end integrity, with no assumption on the hash: if one client put a file and
  another, with the share URI the first got, fetched it from any network, then the file
  written is the file that was put, byte for byte, whether or not it was encrypted and
  whatever the peers did in between; or the two runs have come upon a collision of SHA-256,
  two different texts with one hash, of which the upload sent one and the download accepted
  the other. The file name must be one word, and the file no larger than \<open>entries_max\<close>
  (\<open>2 ^ 58 - 1\<close>) bytes, so that the manifest's chunk list can be read back.
\<close>

theorem put_get_integrity:
  assumes "putFile env cfg rk ri path s = (Inr res, s1)" "getFile env' cfg' (pr_shareUri res) out s2 = (Inr (), s3)"
    "en_sha256 env' = en_sha256 env" "digest32 (en_sha256 env)" "\<not> fs_exists (ds_disk s2) (pr_shareUri res)"
    "fs_read (ds_disk s) path = Some content" "is_token (path_filename path)" "length content \<le> entries_max"
  shows "fs_read (ds_disk s3) out = Some content \<or>
    collision (en_sha256 env) (sent_texts env cfg rk ri path (ds_disk s)) (accepted_texts env' cfg' (pr_shareUri res) s2)"
  using put_get_same [OF assms] by blast

end
