(* ===== verification/Replication.thy ===== *)
theory Replication
  imports Dss_Client
begin

text \<open>
  Where the client puts the replicas, and what it can count on when the peers answer: the
  targets the DHT names for a key, the contract between the client and the peers (locale
  \<open>peer_rpc\<close>), and under that contract the success of uploads and downloads of
  \<^verbatim>\<open>core/dss/dss_client.cpp\<close>, also when some of the peers have crashed in between (locale
  \<open>crashing_peers\<close>).
\<close>

section \<open>Placement\<close>

text \<open>The peers that the DHT names for a key.\<close>

definition targets_of :: "(bytes \<Rightarrow> octet list) \<Rightarrow> routing_table \<Rightarrow> int \<Rightarrow> string \<Rightarrow> peer_endpoint list" where
  "targets_of sha dht r key =
     map endpoint (closestNodes dht (take 20 (sha key)) (min (nat (max 1 r)) (length (rt_nodes dht))))"

lemma dht_store_targets: "digest32 sha \<Longrightarrow> dht_store sha dht key r = Inr (targets_of sha dht r key)"
  by (simp add: dht_store_eq targets_of_def)

lemma targets_of_props:
  "set (targets_of sha dht r key) \<subseteq> endpoint ` set (rt_nodes dht)"
  "length (targets_of sha dht r key) = min (nat (max 1 r)) (length (rt_nodes dht))"
proof -
  let ?srt = "sort_by (\<lambda>a b. closerTo (node_id a) (node_id b) (take 20 (sha key))) (rt_nodes dht)"
  have eq: "targets_of sha dht r key = map endpoint (take (min (nat (max 1 r)) (length (rt_nodes dht))) ?srt)"
    by (simp add: targets_of_def closestNodes_take)
  show "set (targets_of sha dht r key) \<subseteq> endpoint ` set (rt_nodes dht)"
    unfolding eq using set_take_subset [of _ ?srt] by fastforce
  show "length (targets_of sha dht r key) = min (nat (max 1 r)) (length (rt_nodes dht))"
    unfolding eq by simp
qed

text \<open>What a table built from the peer list holds: each node with the id of its own endpoint.\<close>

definition table_of :: "(bytes \<Rightarrow> octet list) \<Rightarrow> peer_endpoint set \<Rightarrow> routing_table \<Rightarrow> bool" where
  "table_of sha P t \<longleftrightarrow> (\<forall>n \<in> set (rt_nodes t). endpoint n \<in> P \<and> makeNodeId sha (endpoint n) = Inr (node_id n))
     \<and> distinct (map node_id (rt_nodes t))"

lemma replace_node_set:
  "replace_node n ns = Some ns' \<Longrightarrow> m \<in> set ns' \<Longrightarrow> m \<in> set ns \<or> m = \<lparr>node_id = node_id n, endpoint = endpoint n\<rparr>"
  by (induction ns arbitrary: ns') (auto split: if_splits)

lemma table_of_addNode:
  assumes "table_of sha P t" "makeNodeId sha p = Inr i" "p \<in> P"
  shows "table_of sha P (addNode \<lparr>node_id = i, endpoint = p\<rparr> t)"
proof (cases "i = rt_selfId t")
  case True
  then show ?thesis using assms(1) by (simp add: addNode_def)
next
  case False
  let ?n = "\<lparr>node_id = i, endpoint = p\<rparr>"
  show ?thesis
  proof (cases "replace_node ?n (rt_nodes t)")
    case None
    then show ?thesis using assms False replace_node_None [of ?n "rt_nodes t"]
      by (auto simp: table_of_def addNode_def)
  next
    case (Some ns)
    have ids: "map node_id ns = map node_id (rt_nodes t)" using replace_node_ids [OF Some] .
    have "endpoint m \<in> P \<and> makeNodeId sha (endpoint m) = Inr (node_id m)" if "m \<in> set ns" for m
      using replace_node_set [OF Some that] assms by (elim disjE) (auto simp: table_of_def)
    then show ?thesis using assms(1) False Some ids by (simp add: table_of_def addNode_def)
  qed
qed

lemma table_of_add_peers:
  "table_of sha P t \<Longrightarrow> set ps \<subseteq> P \<Longrightarrow> add_peers sha ps t = Inr t' \<Longrightarrow> table_of sha P t'"
  by (induction ps arbitrary: t) (auto simp: result_iff intro: table_of_addNode)

lemma table_of_DhtNode:
  assumes "DhtNode sha peers = Inr t"
  shows "table_of sha (set peers) t"
proof -
  obtain self where "add_peers sha peers (RoutingTable self) = Inr t"
    using assms by (auto simp: DhtNode_def result_iff)
  moreover have "table_of sha (set peers) (RoutingTable self)" by (simp add: table_of_def RoutingTable_def)
  ultimately show ?thesis using table_of_add_peers [of sha "set peers" _ peers] by blast
qed

text \<open>Two nodes of such a table have different endpoints, so the targets are distinct peers.\<close>

lemma distinct_targets:
  assumes "table_of sha P t"
  shows "distinct (targets_of sha t r key)"
proof -
  let ?srt = "sort_by (\<lambda>a b. closerTo (node_id a) (node_id b) (take 20 (sha key))) (rt_nodes t)"
  have "inj_on endpoint (set (rt_nodes t))"
  proof (rule inj_onI)
    fix m n assume mn: "m \<in> set (rt_nodes t)" "n \<in> set (rt_nodes t)" "endpoint m = endpoint n"
    then have "(Inr (node_id m) :: kad_id result) = Inr (node_id n)"
      using assms unfolding table_of_def by metis
    then show "m = n" using mn(3) by simp
  qed
  moreover have "distinct (rt_nodes t)" using assms by (auto simp: table_of_def distinct_map)
  then have "distinct ?srt" by (metis mset_eq_imp_distinct_iff mset_sort_by)
  ultimately have "distinct (map endpoint ?srt)" by (simp add: distinct_map)
  then show ?thesis by (simp add: targets_of_def closestNodes_take distinct_take flip: take_map)
qed

section \<open>The contract with the peers\<close>

text \<open>
  What the client relies on to succeed, not only to be safe: \<open>up w p n b\<close> says that the peer
  at \<open>p\<close> is reachable and has room for \<open>n\<close> further requests and \<open>b\<close> further bytes,
  \<open>held\<close> and \<open>published\<close> are the chunks and manifests it will return, \<open>name_ok\<close> the
  names it takes, \<open>same p q\<close> that two endpoints lead to one peer, and \<open>texts w\<close> are all the
  texts that the peers have: nothing else is ever answered.
\<close>

locale peer_rpc =
  fixes net :: "'w network"
    and up :: "'w \<Rightarrow> peer_endpoint \<Rightarrow> nat \<Rightarrow> nat \<Rightarrow> bool"
    and held :: "'w \<Rightarrow> peer_endpoint \<Rightarrow> string \<Rightarrow> bytes option"
    and published :: "'w \<Rightarrow> peer_endpoint \<Rightarrow> string \<Rightarrow> bytes option"
    and name_ok :: "string \<Rightarrow> bool"
    and same :: "peer_endpoint \<Rightarrow> peer_endpoint \<Rightarrow> bool"
    and texts :: "'w \<Rightarrow> bytes set"
  assumes put_chunk: "up w p (Suc n) (length v + b) \<Longrightarrow> name_ok k \<Longrightarrow> length v < vector_char_max \<Longrightarrow>
      \<exists>c w'. putChunk net w p k v = (Inr (), c, w') \<and> published w' = published w
        \<and> texts w' \<subseteq> insert v (texts w) \<and> (\<forall>q. held w' q = (if same p q then (held w q)(k \<mapsto> v) else held w q))
        \<and> (\<forall>q m b'. up w q (Suc m) (length v + b') \<longrightarrow> up w' q m b')"
    and has_chunk: "up w p n b \<Longrightarrow> name_ok k \<Longrightarrow> \<exists>c. hasChunk_rpc net w p k = (Inr (held w p k \<noteq> None), c, w)"
    and get_chunk: "up w p (Suc n) b \<Longrightarrow> name_ok k \<Longrightarrow>
      \<exists>r c w'. getChunk net w p k = (r, c, w') \<and> (\<forall>v. held w p k = Some v \<longrightarrow> r = Inr v)
        \<and> (\<forall>v. r = Inr v \<longrightarrow> v \<in> texts w) \<and> texts w' \<subseteq> texts w \<and> held w' = held w \<and> published w' = published w \<and> (\<forall>q m b'. up w q (Suc m) b' \<longrightarrow> up w' q m b')"
    and put_manifest: "up w p n b \<Longrightarrow> name_ok k \<Longrightarrow> length v < vector_char_max \<Longrightarrow>
      \<exists>c w'. putManifest net w p k v = (Inr (), c, w') \<and> held w' = held w
        \<and> texts w' \<subseteq> insert v (texts w) \<and> (\<forall>q. published w' q = (if same p q then (published w q)(k \<mapsto> v) else published w q))
        \<and> (\<forall>q m b'. up w q m b' \<longrightarrow> up w' q m b')"
    and get_manifest: "up w p n b \<Longrightarrow> name_ok k \<Longrightarrow>
      \<exists>r c. getManifest net w p k = (r, c, w) \<and> (\<forall>v. published w p k = Some v \<longleftrightarrow> r = Inr v)"
    and up_mono: "up w p m c \<Longrightarrow> n \<le> m \<Longrightarrow> b \<le> c \<Longrightarrow> up w p n b"
    and same_refl: "same p p"
begin

text \<open>Asking and putting only ever add copies of the chunk at hand.\<close>

definition extended :: "string \<Rightarrow> bytes \<Rightarrow> 'w \<Rightarrow> 'w \<Rightarrow> bool" where
  "extended k v w w' \<longleftrightarrow> published w' = published w \<and> texts w' \<subseteq> insert v (texts w)
     \<and> (\<forall>q j. held w' q j = held w q j \<or> j = k \<and> held w' q j = Some v)"

lemma extended_refl: "extended k v w w"
  by (auto simp: extended_def)

lemma extended_trans: "extended k v w w1 \<Longrightarrow> extended k v w1 w2 \<Longrightarrow> extended k v w w2"
  unfolding extended_def by (intro conjI; (metis | blast))

lemma query_targets_up:
  assumes "\<forall>p \<in> set ps. up w p n b" "name_ok k"
  shows "query_targets net k ps w = (Inr (int (length (filter (\<lambda>p. held w p k \<noteq> None) ps)),
    filter (\<lambda>p. held w p k = None) ps), w)"
  using assms(1)
proof (induction ps)
  case (Cons p ps)
  obtain c where "hasChunk_rpc net w p k = (Inr (held w p k \<noteq> None), c, w)"
    using has_chunk [of w p n b k] Cons.prems assms(2) by auto
  with Cons show ?case by auto
qed simp

lemma put_to_all_up:
  assumes "\<forall>p \<in> P. up w p (n + length ps) (length ps * length v + b)" "set ps \<subseteq> P" "name_ok k" "length v < vector_char_max"
  shows "\<exists>w'. put_to_all net k v ps w = (Inr (), w') \<and> published w' = published w \<and> texts w' \<subseteq> insert v (texts w)
    \<and> (\<forall>q. held w' q = (if \<exists>p \<in> set ps. same p q then (held w q)(k \<mapsto> v) else held w q))
    \<and> (\<forall>p \<in> P. up w' p n b)"
  using assms(1,2)
proof (induction ps arbitrary: w)
  case (Cons p ps)
  have "up w p (Suc (n + length ps)) (length v + (length ps * length v + b))"
    using Cons.prems by (auto simp: algebra_simps)
  from put_chunk [OF this assms(3,4)] obtain c w1 where w1: "putChunk net w p k v = (Inr (), c, w1)"
      "published w1 = published w" "\<forall>q. held w1 q = (if same p q then (held w q)(k \<mapsto> v) else held w q)"
      "\<forall>q m b'. up w q (Suc m) (length v + b') \<longrightarrow> up w1 q m b'" "texts w1 \<subseteq> insert v (texts w)" by blast
  have "\<forall>q \<in> P. up w1 q (n + length ps) (length ps * length v + b)"
    using w1(4) Cons.prems(1) by (auto simp: algebra_simps)
  with Cons.IH [of w1] Cons.prems(2) obtain w2 where w2: "put_to_all net k v ps w1 = (Inr (), w2)" "published w2 = published w1" "texts w2 \<subseteq> insert v (texts w1)"
      "\<forall>q. held w2 q = (if \<exists>p \<in> set ps. same p q then (held w1 q)(k \<mapsto> v) else held w1 q)" "\<forall>p \<in> P. up w2 p n b" by auto
  have "held w2 q = (if \<exists>p' \<in> set (p # ps). same p' q then (held w q)(k \<mapsto> v) else held w q)" for q
    using w1(3) w2(4) by (cases "same p q") auto
  moreover have "texts w2 \<subseteq> insert v (texts w)" using w1(5) w2(3) by blast
  ultimately show ?case using w1(1,2) w2(1,2,5) by simp
qed auto

lemma put_needed_up:
  assumes "\<forall>p \<in> P. up w p (n + length ps) (length ps * length v + b)" "set ps \<subseteq> P" "name_ok k"
    "length v < vector_char_max" "needed > 0"
  shows "\<exists>w'. put_needed net k v needed ps w = (Inr (), w') \<and> extended k v w w'
    \<and> (\<forall>p \<in> set (take (nat needed) ps). held w' p k = Some v) \<and> (\<forall>p \<in> P. up w' p n b)"
  using assms(1,2,5)
proof (induction ps arbitrary: w needed)
  case (Cons p ps)
  have "up w p (Suc (n + length ps)) (length v + (length ps * length v + b))"
    using Cons.prems by (auto simp: algebra_simps)
  from put_chunk [OF this assms(3,4)] obtain c w1 where w1: "putChunk net w p k v = (Inr (), c, w1)"
      "published w1 = published w" "\<forall>q. held w1 q = (if same p q then (held w q)(k \<mapsto> v) else held w q)"
      "\<forall>q m b'. up w q (Suc m) (length v + b') \<longrightarrow> up w1 q m b'" "texts w1 \<subseteq> insert v (texts w)" by blast
  have up1: "\<forall>q \<in> P. up w1 q (n + length ps) (length ps * length v + b)"
    using w1(4) Cons.prems(1) by (auto simp: algebra_simps)
  have ext1: "extended k v w w1" using w1(2,3,5) by (auto simp: extended_def)
  have p1: "held w1 p k = Some v" using w1(3) same_refl [of p] by simp
  show ?case
  proof (cases "needed - 1 \<le> 0")
    case True
    then have "needed = 1" using Cons.prems(3) by simp
    moreover have "\<forall>q \<in> P. up w1 q n b" using up1 up_mono by (meson le_add1 le_add2)
    ultimately show ?thesis using w1(1) ext1 p1 by simp
  next
    case False
    with Cons.IH [of w1 "needed - 1"] up1 Cons.prems(2) obtain w2 where w2:
        "put_needed net k v (needed - 1) ps w1 = (Inr (), w2)" "extended k v w1 w2"
        "\<forall>p \<in> set (take (nat (needed - 1)) ps). held w2 p k = Some v" "\<forall>p \<in> P. up w2 p n b" by auto
    have "held w2 p k = Some v" using p1 w2(2) unfolding extended_def by metis
    moreover have "nat needed = Suc (nat (needed - 1))" using False by simp
    ultimately show ?thesis using w1(1) w2 False extended_trans [OF ext1 w2(2)] by simp
  qed
qed (auto intro: extended_refl)

text \<open>How many of the targets have the chunk.\<close>

definition holders :: "'w \<Rightarrow> string \<Rightarrow> peer_endpoint list \<Rightarrow> peer_endpoint list" where
  "holders w k ps = filter (\<lambda>p. held w p k \<noteq> None) ps"

lemma upload_plain_up:
  assumes "\<forall>p \<in> P. up w p (n + length ts) (length ts * length v + b)" "set ts \<subseteq> P" "name_ok k"
    "length v < vector_char_max" "r > 0"
  shows "\<exists>w'. upload_plain net k v r ts w = (Inr (), w') \<and> extended k v w w'
    \<and> min (nat r) (length ts) \<le> length (holders w' k ts) \<and> (\<forall>p \<in> P. up w' p n b)"
proof -
  let ?has = "\<lambda>p. held w p k \<noteq> None"
  let ?missing = "filter (\<lambda>p. held w p k = None) ts" and ?needed = "r - int (length (filter ?has ts))"
  have q: "query_targets net k ts w = (Inr (int (length (filter ?has ts)), ?missing), w)"
    using query_targets_up [of ts w _ _ k] assms(1-3) by blast
  have le: "length ?missing \<le> length ts" by simp
  have up': "\<forall>p \<in> P. up w p (n + length ?missing) (length ?missing * length v + b)"
    using assms(1) up_mono le by (meson add_le_mono mult_le_mono order_refl)
  show ?thesis
  proof (cases "?needed > 0")
    case False
    moreover have "\<forall>p \<in> P. up w p n b" using up' up_mono by (meson le_add1 le_add2)
    ultimately show ?thesis using q by (auto simp: upload_plain_def holders_def extended_refl)
  next
    case True
    obtain w' where w': "put_needed net k v ?needed ?missing w = (Inr (), w')" "extended k v w w'"
        "\<forall>p \<in> set (take (nat ?needed) ?missing). held w' p k = Some v" "\<forall>p \<in> P. up w' p n b"
      using put_needed_up [OF up' _ assms(3,4) True] assms(2) by auto
    have "length (holders w' k ts) = length (filter ?has ts) + length (filter (\<lambda>p. held w' p k \<noteq> None) (filter (\<lambda>p. \<not> ?has p) ts))"
      unfolding holders_def using w'(2) by (intro length_filter_split) (metis extended_def option.distinct(1))
    moreover have "min (nat ?needed) (length ?missing) \<le> length (filter (\<lambda>p. held w' p k \<noteq> None) ?missing)"
      using w'(3) by (intro length_filter_take) simp
    moreover have "length ts = length (filter ?has ts) + length ?missing"
      using sum_length_filter_compl [of ?has ts] by simp
    ultimately have "min (nat r) (length ts) \<le> length (holders w' k ts)" using True by simp
    then show ?thesis using q True w' by (simp add: upload_plain_def)
  qed
qed

text \<open>Every chunk a peer holds is the one its name says.\<close>

definition honest :: "(bytes \<Rightarrow> octet list) \<Rightarrow> 'w \<Rightarrow> bool" where
  "honest sha w \<longleftrightarrow> (\<forall>q k v. held w q k = Some v \<longrightarrow> sha256_hex sha v = k)"

definition replicated :: "'w \<Rightarrow> nat \<Rightarrow> string \<Rightarrow> peer_endpoint list \<Rightarrow> bool" where
  "replicated w r k ts \<longleftrightarrow> min r (length ts) \<le> length (holders w k ts)"

lemma extended_held:
  assumes "extended k v w w'"
  shows "held w' q j = Some x \<Longrightarrow> held w q j = Some x \<or> j = k \<and> x = v" "held w q j \<noteq> None \<Longrightarrow> held w' q j \<noteq> None"
proof -
  have "held w' q j = held w q j \<or> j = k \<and> held w' q j = Some v" using assms by (simp add: extended_def)
  then show "held w' q j = Some x \<Longrightarrow> held w q j = Some x \<or> j = k \<and> x = v" "held w q j \<noteq> None \<Longrightarrow> held w' q j \<noteq> None"
    by (elim disjE, simp, simp)+
qed

lemma honest_extended:
  assumes "honest sha w" "extended k v w w'" "sha256_hex sha v = k"
  shows "honest sha w'"
  unfolding honest_def
proof (intro allI impI)
  fix q j x assume "held w' q j = Some x"
  from extended_held(1) [OF assms(2) this] show "sha256_hex sha x = j"
    using assms(1,3) by (auto simp: honest_def)
qed

lemma replicated_extended:
  assumes "replicated w r j ts" "extended k v w w'"
  shows "replicated w' r j ts"
proof -
  have "length (holders w j ts) \<le> length (holders w' j ts)"
    unfolding holders_def by (rule length_filter_mono) (rule extended_held(2) [OF assms(2)])
  then show ?thesis using assms(1) by (simp add: replicated_def)
qed

lemma put_chunks_plain_up:
  assumes env: "en_net env = net" "digest32 (en_sha256 env)" "\<And>d. name_ok (sha256_hex (en_sha256 env) d)"
    and P: "endpoint ` set (rt_nodes dht) \<subseteq> P" and r: "r > 0" and T: "T = min (nat r) (length (rt_nodes dht))"
    and cs: "\<forall>c \<in> set cs. length c < vector_char_max" and hon: "honest (en_sha256 env) (ds_world s)"
    and up: "\<forall>p \<in> P. up (ds_world s) p (n + T * length cs) (T * sum_list (map length cs) + b)"
  shows "\<exists>s'. put_chunks env dht r None tot don idx cs s = (Inr (map (sha256_hex (en_sha256 env)) cs), s')
    \<and> honest (en_sha256 env) (ds_world s') \<and> published (ds_world s') = published (ds_world s)
    \<and> texts (ds_world s') \<subseteq> set cs \<union> texts (ds_world s)
    \<and> ds_disk s' = ds_disk s \<and> ds_double_free s' = ds_double_free s
    \<and> (\<forall>j m ts. replicated (ds_world s) m j ts \<longrightarrow> replicated (ds_world s') m j ts)
    \<and> (\<forall>c \<in> set cs. replicated (ds_world s') (nat r) (sha256_hex (en_sha256 env) c)
         (targets_of (en_sha256 env) dht r (sha256_hex (en_sha256 env) c)))
    \<and> (\<forall>p \<in> P. up (ds_world s') p n b)"
  using cs hon up
proof (induction cs arbitrary: s don idx)
  case (Cons c cs)
  let ?sha = "en_sha256 env" and ?cid = "sha256_hex (en_sha256 env) c"
  let ?ts = "targets_of ?sha dht r ?cid"
  have len: "length ?ts = T" using targets_of_props(2) [of ?sha dht r] r by (simp add: T)
  have sub: "set ?ts \<subseteq> P" using targets_of_props(1) P by fastforce
  have "\<forall>p \<in> P. up (ds_world s) p ((n + T * length cs) + length ?ts)
      (length ?ts * length c + (T * sum_list (map length cs) + b))"
    using Cons.prems(3) by (simp add: len algebra_simps)
  from upload_plain_up [OF this sub env(3) [of c] _ r] Cons.prems(1) obtain w' where w':
      "upload_plain net ?cid c r ?ts (ds_world s) = (Inr (), w')" "extended ?cid c (ds_world s) w'"
      "min (nat r) (length ?ts) \<le> length (holders w' ?cid ?ts)"
      "\<forall>p \<in> P. up w' p (n + T * length cs) (T * sum_list (map length cs) + b)" by auto
  let ?s1 = "s\<lparr>ds_world := w', ds_progress := ds_progress s
      @ [\<lparr>pg_done = int_succ don, pg_total = tot, pg_message = ''Uploading chunks''\<rparr>]\<rparr>"
  have hon1: "honest ?sha (ds_world ?s1)" using honest_extended [OF Cons.prems(2) w'(2)] by simp
  obtain s' where s': "put_chunks env dht r None tot (int_succ don) (idx + 1) cs ?s1 = (Inr (map (sha256_hex ?sha) cs), s')"
      "honest ?sha (ds_world s')" "published (ds_world s') = published w'" "ds_disk s' = ds_disk s"
      "ds_double_free s' = ds_double_free s"
      "\<forall>j m ts. replicated w' m j ts \<longrightarrow> replicated (ds_world s') m j ts"
      "\<forall>c \<in> set cs. replicated (ds_world s') (nat r) (sha256_hex ?sha c) (targets_of ?sha dht r (sha256_hex ?sha c))"
      "\<forall>p \<in> P. up (ds_world s') p n b" "texts (ds_world s') \<subseteq> set cs \<union> texts w'"
    using Cons.IH [OF _ hon1, of "int_succ don" "idx + 1"] Cons.prems(1) w'(4) by auto
  have "put_one_chunk env dht r None idx c (ds_world s) = (Inr ?cid, w')"
    using w'(1) by (simp add: put_one_chunk_def dht_store_targets [OF env(2)] env(1))
  then have run: "put_chunks env dht r None tot don idx (c # cs) s = (Inr (map (sha256_hex ?sha) (c # cs)), s')"
    using s'(1) by simp
  have "replicated w' (nat r) ?cid ?ts" using w'(3) by (simp add: replicated_def)
  then have first: "replicated (ds_world s') (nat r) ?cid ?ts" using s'(6) by blast
  have pub: "published (ds_world s') = published (ds_world s)" using w'(2) s'(3) by (simp add: extended_def)
  have tx: "texts (ds_world s') \<subseteq> set (c # cs) \<union> texts (ds_world s)" using w'(2) s'(9) unfolding extended_def by auto
  have mono: "replicated (ds_world s) m j ts \<Longrightarrow> replicated (ds_world s') m j ts" for m j ts
    using s'(6) replicated_extended [OF _ w'(2)] by blast
  have all: "replicated (ds_world s') (nat r) (sha256_hex ?sha d) (targets_of ?sha dht r (sha256_hex ?sha d))"
    if "d \<in> set (c # cs)" for d
    using that s'(7) first by (cases "d = c") simp_all
  show ?case
    by (rule exI [of _ s'], intro conjI allI impI ballI)
      (use run s'(2) pub tx s'(4,5) mono all s'(8) in blast)+
qed simp

lemma put_manifest_to_up:
  assumes "\<forall>p \<in> set ps. up w p n b" "name_ok k" "length v < vector_char_max"
  shows "\<exists>w'. put_manifest_to net k v ps w = (Inr (), w') \<and> held w' = held w \<and> texts w' \<subseteq> insert v (texts w)
    \<and> (\<forall>q j. published w' q j = published w q j \<or> j = k \<and> published w' q j = Some v)
    \<and> (\<forall>p \<in> set ps. published w' p k = Some v)
    \<and> (\<forall>q. published w q k = Some v \<longrightarrow> published w' q k = Some v)
    \<and> (\<forall>q m b'. up w q m b' \<longrightarrow> up w' q m b')"
  using assms(1)
proof (induction ps arbitrary: w)
  case (Cons p ps)
  then have "up w p n b" by simp
  from put_manifest [OF this assms(2,3)] obtain c w1 where w1: "putManifest net w p k v = (Inr (), c, w1)"
      "held w1 = held w" "\<forall>q. published w1 q = (if same p q then (published w q)(k \<mapsto> v) else published w q)"
      "\<forall>q m b'. up w q m b' \<longrightarrow> up w1 q m b'" "texts w1 \<subseteq> insert v (texts w)" by blast
  have "\<forall>p \<in> set ps. up w1 p n b" using Cons.prems w1(4) by simp
  from Cons.IH [OF this] obtain w2 where w2: "put_manifest_to net k v ps w1 = (Inr (), w2)" "held w2 = held w1"
      "\<forall>p \<in> set ps. published w2 p k = Some v" "\<forall>q. published w1 q k = Some v \<longrightarrow> published w2 q k = Some v"
      "\<forall>q m b'. up w1 q m b' \<longrightarrow> up w2 q m b'" "texts w2 \<subseteq> insert v (texts w1)"
      "\<forall>q j. published w2 q j = published w1 q j \<or> j = k \<and> published w2 q j = Some v" by blast
  have "published w1 p k = Some v" using w1(3) same_refl [of p] by simp
  moreover have "published w q k = Some v \<Longrightarrow> published w1 q k = Some v" for q using w1(3) by simp
  moreover have "published w2 q j = published w q j \<or> j = k \<and> published w2 q j = Some v" for q j
    using w1(3) w2(7) by (metis fun_upd_apply)
  moreover have "texts w2 \<subseteq> insert v (texts w)" using w1(5) w2(6) by blast
  ultimately show ?case using w1 w2 by (intro exI [of _ w2]) simp
qed auto

end

lemma dht_size:
  assumes "table_of sha (set peers) dht"
  shows "length (rt_nodes dht) \<le> card (set peers)"
proof -
  have "inj_on endpoint (set (rt_nodes dht))"
  proof (rule inj_onI)
    fix m n assume mn: "m \<in> set (rt_nodes dht)" "n \<in> set (rt_nodes dht)" "endpoint m = endpoint n"
    then have "(Inr (node_id m) :: kad_id result) = Inr (node_id n)"
      using assms unfolding table_of_def by metis
    then show "m = n" using mn(3) by simp
  qed
  moreover have "distinct (rt_nodes dht)" using assms by (auto simp: table_of_def distinct_map)
  ultimately have "length (rt_nodes dht) = card (endpoint ` set (rt_nodes dht))"
    by (metis card_image distinct_card)
  also have "\<dots> \<le> card (set peers)"
    using assms by (intro card_mono) (auto simp: table_of_def)
  finally show ?thesis .
qed

section \<open>Uploading to live peers\<close>

lemma length_concat_member: "x \<in> set xs \<Longrightarrow> length x \<le> length (concat xs)"
  by (induction xs) auto

lemma clamp_replicas_pos:
  assumes "cc_peers cfg \<noteq> []" "length (cc_peers cfg) < 2 ^ 31"
  shows "0 < clamp_replicas cfg" "clamp_replicas cfg \<le> int (length (cc_peers cfg))"
proof -
  have "int_of_size (length (cc_peers cfg)) = int (length (cc_peers cfg))"
    using assms(2) by (simp add: int_of_size_def signed_of_nat signed_take_bit_int_eq_self)
  then show "0 < clamp_replicas cfg" "clamp_replicas cfg \<le> int (length (cc_peers cfg))"
    using assms(1) by (auto simp: clamp_replicas_def Let_def)
qed

definition plain_manifest :: "(bytes \<Rightarrow> octet list) \<Rightarrow> client_config \<Rightarrow> string \<Rightarrow> bytes \<Rightarrow> chunk list \<Rightarrow> manifest" where
  "plain_manifest sha cfg path content chunks =
     (manifest_head cfg path (length content) None)\<lparr>mf_chunks := map (sha256_hex sha) (map ck_bytes chunks)\<rparr>"

context peer_rpc
begin

lemma publish_up:
  assumes env: "en_net env = net" "digest32 (en_sha256 env)" "\<And>d. name_ok (sha256_hex (en_sha256 env) d)"
    and tab: "table_of (en_sha256 env) (set (cc_peers cfg)) dht" and up: "\<forall>p \<in> set (cc_peers cfg). up (ds_world s) p n b"
    and m: "length (serializeManifest m) < vector_char_max" "write_local_manifest cfg (en_cwd env) m (ds_disk s) = (Inr lp, d')"
      "mid = sha256_hex (en_sha256 env) (serializeManifest m)"
  shows "\<exists>w'. publish_manifest env cfg dht r m s
      = (Inr \<lparr>pr_shareUri = share_prefix @ mid, pr_localManifestPath = lp\<rparr>, s\<lparr>ds_world := w', ds_disk := d'\<rparr>)
    \<and> held w' = held (ds_world s) \<and> texts w' \<subseteq> insert (serializeManifest m) (texts (ds_world s))
    \<and> (\<forall>p \<in> set (targets_of (en_sha256 env) dht r (''manifest:'' @ mid)). published w' p mid = Some (serializeManifest m))
    \<and> (\<forall>p \<in> set (cc_peers cfg). up w' p n b)"
proof -
  let ?ts = "targets_of (en_sha256 env) dht r (''manifest:'' @ mid)"
  have "set ?ts \<subseteq> set (cc_peers cfg)" using targets_of_props(1) tab unfolding table_of_def by fastforce
  then have "\<forall>p \<in> set ?ts. up (ds_world s) p n b" using up by blast
  from put_manifest_to_up [OF this env(3) m(1), of "serializeManifest m"] obtain w' where
    w': "put_manifest_to net mid (serializeManifest m) ?ts (ds_world s) = (Inr (), w')" "held w' = held (ds_world s)"
      "\<forall>p \<in> set ?ts. published w' p mid = Some (serializeManifest m)" "\<forall>q k b'. up (ds_world s) q k b' \<longrightarrow> up w' q k b'"
      "texts w' \<subseteq> insert (serializeManifest m) (texts (ds_world s))"
    unfolding m(3) [symmetric] by blast
  then show ?thesis
    using m(2,3) up by (intro exI [of _ w']) (simp add: publish_manifest_def Let_def dht_store_targets [OF env(2)] env(1))
qed

lemma up_scale: "up w p (n + N * k) (N * l + b) \<Longrightarrow> T \<le> N \<Longrightarrow> up w p (n + T * k) (T * l + b)"
  by (erule up_mono) (simp_all add: mult_le_mono1)

lemma putFile_up:
  assumes env: "en_net env = net" "digest32 (en_sha256 env)" "\<And>d. name_ok (sha256_hex (en_sha256 env) d)"
    and cfg: "cc_peers cfg \<noteq> []" "length (cc_peers cfg) < 2 ^ 31" "cc_rsaPublicKeyPath cfg = []"
    and dht: "DhtNode (en_sha256 env) (cc_peers cfg) = Inr dht"
    and src: "fs_read (ds_disk s) path = Some content" "chunkFile (ds_disk s) path (cc_chunkSize cfg) = Inr chunks"
      "length content < vector_char_max"
    and m: "m = plain_manifest (en_sha256 env) cfg path content chunks" "length (serializeManifest m) < vector_char_max"
      "write_local_manifest cfg (en_cwd env) m (ds_disk s) = (Inr lp, d')"
    and hon: "honest (en_sha256 env) (ds_world s)"
    and up: "\<forall>p \<in> set (cc_peers cfg). up (ds_world s) p (n + length (cc_peers cfg) * length chunks)
        (length (cc_peers cfg) * length content + b)"
  shows "\<exists>s'. putFile env cfg rk ri path s
      = (Inr \<lparr>pr_shareUri = share_prefix @ sha256_hex (en_sha256 env) (serializeManifest m), pr_localManifestPath = lp\<rparr>, s')
    \<and> ds_disk s' = d' \<and> honest (en_sha256 env) (ds_world s')
    \<and> texts (ds_world s') \<subseteq> insert (serializeManifest m) (set (map ck_bytes chunks) \<union> texts (ds_world s))
    \<and> (\<forall>c \<in> set chunks. replicated (ds_world s') (nat (clamp_replicas cfg)) (sha256_hex (en_sha256 env) (ck_bytes c))
         (targets_of (en_sha256 env) dht (clamp_replicas cfg) (sha256_hex (en_sha256 env) (ck_bytes c))))
    \<and> (\<forall>p \<in> set (targets_of (en_sha256 env) dht (clamp_replicas cfg)
          (''manifest:'' @ sha256_hex (en_sha256 env) (serializeManifest m))).
         published (ds_world s') p (sha256_hex (en_sha256 env) (serializeManifest m)) = Some (serializeManifest m))
    \<and> (\<forall>p \<in> set (cc_peers cfg). up (ds_world s') p n b)"
proof -
  let ?sha = "en_sha256 env" and ?r = "clamp_replicas cfg" and ?cs = "map ck_bytes chunks" and ?N = "length (cc_peers cfg)"
  let ?T = "min (nat ?r) (length (rt_nodes dht))" and ?P = "set (cc_peers cfg)"
  let ?txt = "serializeManifest m"
  let ?mid = "sha256_hex ?sha ?txt"
  note r = clamp_replicas_pos [OF cfg(1,2)]
  note tab = table_of_DhtNode [OF dht]
  note parts = chunkFile_parts [OF src(2,1)]
  have small: "\<forall>c \<in> set ?cs. length c < vector_char_max"
    using length_concat_member [of _ ?cs] parts src(3) by fastforce
  have sum: "sum_list (map length ?cs) = length content" using parts length_concat [of ?cs] by simp
  have "?T \<le> ?N" using dht_size [OF tab] card_length [of "cc_peers cfg"] by simp
  with up have U: "\<forall>p \<in> ?P. up (ds_world s) p (n + ?T * length ?cs) (?T * sum_list (map length ?cs) + b)"
    unfolding sum length_map by (blast intro: up_scale)
  have sub: "endpoint ` set (rt_nodes dht) \<subseteq> ?P" using tab by (auto simp: table_of_def)
  from put_chunks_plain_up [OF env sub r(1) refl small hon U, of "int_of_size (length chunks)" 0 0]
  obtain s1 where s1: "put_chunks env dht ?r None (int_of_size (length chunks)) 0 0 ?cs s = (Inr (map (sha256_hex ?sha) ?cs), s1)"
      "honest ?sha (ds_world s1)" "ds_disk s1 = ds_disk s"
      "\<forall>c \<in> set ?cs. replicated (ds_world s1) (nat ?r) (sha256_hex ?sha c) (targets_of ?sha dht ?r (sha256_hex ?sha c))"
      "\<forall>p \<in> ?P. up (ds_world s1) p n b" "texts (ds_world s1) \<subseteq> set ?cs \<union> texts (ds_world s)"
    by (elim exE conjE) (rule that)
  have head: "(manifest_head cfg path (length content) None)\<lparr>mf_chunks := map (sha256_hex ?sha) ?cs\<rparr> = m"
    by (simp add: m(1) plain_manifest_def)
  have loc: "write_local_manifest cfg (en_cwd env) m (ds_disk s1) = (Inr lp, d')" using m(3) s1(3) by simp
  from publish_up [OF env tab s1(5) m(2) loc refl, of ?r] obtain w2 where
    w2: "publish_manifest env cfg dht ?r m s1
        = (Inr \<lparr>pr_shareUri = share_prefix @ ?mid, pr_localManifestPath = lp\<rparr>, s1\<lparr>ds_world := w2, ds_disk := d'\<rparr>)"
      "held w2 = held (ds_world s1)"
      "\<forall>p \<in> set (targets_of ?sha dht ?r (''manifest:'' @ ?mid)). published w2 p ?mid = Some ?txt"
      "\<forall>p \<in> ?P. up w2 p n b" "texts w2 \<subseteq> insert ?txt (texts (ds_world s1))" by blast
  let ?s2 = "s1\<lparr>ds_world := w2, ds_disk := d'\<rparr>"
  have "putFile env cfg rk ri path s = (Inr \<lparr>pr_shareUri = share_prefix @ ?mid, pr_localManifestPath = lp\<rparr>, ?s2)"
    using cfg(1,3) dht src(1,2) s1(1) head w2(1) by (simp add: putFile_def make_file_key_def Let_def)
  moreover have "texts w2 \<subseteq> insert ?txt (set ?cs \<union> texts (ds_world s))" using s1(6) w2(5) by blast
  moreover have "honest ?sha w2" using s1(2) w2(2) by (simp add: honest_def)
  moreover have "replicated w2 k j ts \<longleftrightarrow> replicated (ds_world s1) k j ts" for k j ts
    by (simp add: replicated_def holders_def w2(2))
  ultimately show ?thesis using s1(4) w2(3,4) by (intro exI [of _ ?s2]) simp
qed

end

section \<open>Candidates\<close>

lemma endpoint_eq: "ip c = ip p \<and> port c = port p \<longleftrightarrow> c = (p :: peer_endpoint)"
  by auto

lemma append_missing_props:
  "distinct cands \<Longrightarrow> distinct (append_missing cands ps) \<and> set (append_missing cands ps) = set cands \<union> set ps"
proof (induction ps arbitrary: cands)
  case (Cons p ps)
  have "(\<exists>c \<in> set cands. ip c = ip p \<and> port c = port p) \<longleftrightarrow> p \<in> set cands" unfolding endpoint_eq by blast
  then show ?case using Cons by (auto simp: Let_def)
qed simp

lemma candidates_all:
  assumes "digest32 (en_sha256 env)" "table_of (en_sha256 env) (set (cc_peers cfg)) dht"
  shows "\<exists>cs. candidates env cfg dht key = Inr cs \<and> set cs = set (cc_peers cfg) \<and> length cs \<le> length (cc_peers cfg)"
proof -
  let ?ts = "targets_of (en_sha256 env) dht (lookup_replicas cfg) key"
  have "set ?ts \<subseteq> set (cc_peers cfg)"
    using targets_of_props(1) assms(2) unfolding table_of_def by fastforce
  moreover note append_missing_props [OF distinct_targets [OF assms(2)], of "lookup_replicas cfg" key "cc_peers cfg"]
  moreover have "length cs \<le> length ps" if "distinct cs" "set cs = set ps" for cs ps :: "peer_endpoint list"
    using that by (metis card_length distinct_card)
  ultimately show ?thesis
    by (simp add: candidates_def findValue_def dht_store_targets [OF assms(1)] Un_absorb1)
qed

section \<open>Downloading when some peers are down\<close>

text \<open>A peer that is down refuses the connection; serving a download does not bring one back.\<close>

locale crashing_peers = peer_rpc +
  fixes down :: "'a \<Rightarrow> peer_endpoint \<Rightarrow> bool"
  assumes down_connect: "down w p \<Longrightarrow> \<exists>e c. net_connect net w p = (Inl e, c)"
    and down_get: "up w p (Suc n) b \<Longrightarrow> name_ok k \<Longrightarrow> getChunk net w p k = (r, c, w') \<Longrightarrow> down w q \<Longrightarrow> down w' q"
begin

text \<open>What \<open>m\<close> downloads leave of the peers.\<close>

definition served :: "nat \<Rightarrow> 'a \<Rightarrow> 'a \<Rightarrow> bool" where
  "served m w w' \<longleftrightarrow> held w' = held w \<and> published w' = published w \<and> texts w' \<subseteq> texts w
     \<and> (\<forall>q n b. up w q (n + m) b \<longrightarrow> up w' q n b) \<and> (\<forall>q. down w q \<longrightarrow> down w' q)"

lemma served_refl: "served m w w"
  using up_mono by (auto simp: served_def)

lemma served_trans:
  assumes "served m w w1" "served k w1 w2"
  shows "served (m + k) w w2"
  unfolding served_def
proof (intro conjI allI impI)
  show "held w2 = held w" "published w2 = published w" "texts w2 \<subseteq> texts w" using assms by (auto simp: served_def)
  show "up w2 q n b" if "up w q (n + (m + k)) b" for q n b
  proof -
    have "up w q ((n + k) + m) b" using that by (simp add: algebra_simps)
    then have "up w1 q (n + k) b" using assms(1) unfolding served_def by blast
    then show ?thesis using assms(2) unfolding served_def by blast
  qed
  show "down w2 q" if "down w q" for q using that assms unfolding served_def by blast
qed

definition opens :: "('a, 'c, 'k, 'x) dss_env \<Rightarrow> file_encryption_params option \<Rightarrow> u64 \<Rightarrow> string \<Rightarrow> bytes \<Rightarrow> bool" where
  "opens env keys idx cid v \<longleftrightarrow> (case (case keys of None \<Rightarrow> (0 :: nat, Inr v)
      | Some fp \<Rightarrow> aes_gcm_decrypt (en_cipher env) v (fp_key fp) (fp_iv fp) idx) of
        (_, Inl _) \<Rightarrow> False | (_, Inr plain) \<Rightarrow> sha256_hex (en_sha256 env) plain = cid)"

lemma get_chunk_any:
  assumes "up w p (Suc n) b \<or> down w p" "name_ok k"
  shows "\<exists>r c w'. getChunk net w p k = (r, c, w') \<and> served 1 w w'
    \<and> (up w p (Suc n) b \<longrightarrow> (\<forall>v. held w p k = Some v \<longrightarrow> r = Inr v)) \<and> (\<forall>v. r = Inr v \<longrightarrow> v \<in> texts w)"
proof (cases "up w p (Suc n) b")
  case True
  from get_chunk [OF True assms(2)] obtain r c w' where g: "getChunk net w p k = (r, c, w')"
      "\<forall>v. held w p k = Some v \<longrightarrow> r = Inr v" "held w' = held w" "published w' = published w"
      "\<forall>q m b'. up w q (Suc m) b' \<longrightarrow> up w' q m b'" "texts w' \<subseteq> texts w" "\<forall>v. r = Inr v \<longrightarrow> v \<in> texts w" by blast
  moreover have "down w q \<Longrightarrow> down w' q" for q using down_get [OF True assms(2) g(1)] .
  ultimately show ?thesis by (intro exI [of _ r] exI [of _ c] exI [of _ w']) (simp add: served_def)
next
  case False
  then obtain e c where "net_connect net w p = (Inl e, c)" using assms(1) down_connect by blast
  then have "getChunk net w p k = (Inl e, c, w)" by (simp add: getChunk_def get_object_def)
  then show ?thesis using False served_refl by (intro exI [of _ "Inl e"] exI [of _ c] exI [of _ w]) simp
qed

text \<open>One peer of the loop: its answer is taken when it opens, otherwise the next peer is asked.\<close>

lemma fetch_chunk_opens:
  assumes "getChunk (en_net env) w p cid = (Inr v, c, w1)" "opens env keys idx cid v"
  shows "\<exists>plain. fetch_chunk env keys idx cid (p # ps) w = (Some plain, False, w1) \<and> (keys = None \<longrightarrow> plain = v)"
  using assms by (auto simp: opens_def split: prod.splits sum.splits option.splits)

lemma fetch_chunk_next:
  assumes "getChunk (en_net env) w p cid = (r, c, w1)" "\<And>v. r = Inr v \<Longrightarrow> \<not> opens env keys idx cid v"
    "fetch_chunk env keys idx cid ps w1 = (res, df, w2)"
  shows "\<exists>df'. fetch_chunk env keys idx cid (p # ps) w = (res, df', w2)"
  using assms by (cases r) (auto simp: opens_def split: prod.splits sum.splits)

lemma fetch_chunk_up:
  assumes "en_net env = net" "name_ok cid" "\<forall>p \<in> set ps. up w p (n + length ps) b \<or> down w p"
    "\<exists>p \<in> set ps. up w p (n + length ps) b \<and> (\<exists>v. held w p cid = Some v \<and> opens env keys idx cid v)"
  shows "\<exists>plain df w'. fetch_chunk env keys idx cid ps w = (Some plain, df, w') \<and> served (length ps) w w'
    \<and> (keys = None \<longrightarrow> plain \<in> texts w)"
  using assms(3,4)
proof (induction ps arbitrary: w)
  case (Cons p ps)
  let ?n = "n + length ps"
  have "up w p (Suc ?n) b \<or> down w p" using Cons.prems(1) by simp
  from get_chunk_any [OF this assms(2)] obtain r c w1 where g: "getChunk net w p cid = (r, c, w1)" "served 1 w w1"
      "up w p (Suc ?n) b \<longrightarrow> (\<forall>v. held w p cid = Some v \<longrightarrow> r = Inr v)" "\<forall>v. r = Inr v \<longrightarrow> v \<in> texts w" by blast
  note get = g(1) [folded assms(1)]
  show ?case
  proof (cases "\<exists>v. r = Inr v \<and> opens env keys idx cid v")
    case True
    then obtain v where v: "r = Inr v" "opens env keys idx cid v" by blast
    then obtain plain where "fetch_chunk env keys idx cid (p # ps) w = (Some plain, False, w1)" "keys = None \<longrightarrow> plain = v"
      using fetch_chunk_opens [of env w p cid v c w1 keys idx ps] get by blast
    moreover have "served (length (p # ps)) w w1" using served_trans [OF g(2) served_refl [of "length ps" w1]] by simp
    moreover have "v \<in> texts w" using v(1) g(4) by blast
    ultimately show ?thesis by blast
  next
    case False
    have up1: "up w1 q ?n b" if "up w q (Suc ?n) b" for q using g(2) that by (auto simp: served_def)
    have "\<forall>q \<in> set ps. up w1 q ?n b \<or> down w1 q"
      using Cons.prems(1) g(2) up1 by (auto simp: served_def)
    moreover have "\<exists>q \<in> set ps. up w1 q ?n b \<and> (\<exists>v. held w1 q cid = Some v \<and> opens env keys idx cid v)"
    proof -
      obtain q v where q: "q \<in> set (p # ps)" "up w q (Suc ?n) b" "held w q cid = Some v" "opens env keys idx cid v"
        using Cons.prems(2) by auto
      have "q \<noteq> p" using g(3) q False by blast
      moreover have "held w1 q cid = Some v" using g(2) q(3) by (simp add: served_def)
      ultimately show ?thesis using q(1,4) up1 [OF q(2)] by auto
    qed
    ultimately obtain plain df w2 where f: "fetch_chunk env keys idx cid ps w1 = (Some plain, df, w2)" "served (length ps) w1 w2"
        "keys = None \<longrightarrow> plain \<in> texts w1"
      using Cons.IH by blast
    then obtain df' where "fetch_chunk env keys idx cid (p # ps) w = (Some plain, df', w2)"
      using fetch_chunk_next [OF get _ f(1)] False by blast
    moreover have "texts w1 \<subseteq> texts w" using g(2) by (simp add: served_def)
    ultimately show ?thesis using f(3) served_trans [OF g(2) f(2)] by auto
  qed
qed simp

lemma fetch_chunks_up:
  assumes env: "en_net env = net" "digest32 (en_sha256 env)" "\<forall>cid \<in> set cids. name_ok cid"
    and tab: "table_of (en_sha256 env) (set (cc_peers cfg)) dht"
    and ps: "\<forall>p \<in> set (cc_peers cfg). up (ds_world s) p (n + length (cc_peers cfg) * length cids) b \<or> down (ds_world s) p"
    and src: "\<forall>i < length cids. \<exists>p \<in> set (cc_peers cfg). up (ds_world s) p (n + length (cc_peers cfg) * length cids) b
      \<and> (\<exists>v. held (ds_world s) p (cids ! i) = Some v \<and> opens env keys (idx + of_nat i) (cids ! i) v)"
  shows "\<exists>content s'. fetch_chunks env cfg dht keys tot don idx cids s = (Inr (), content, s')
    \<and> (keys = None \<longrightarrow> set (accepted_pieces env cfg dht keys idx cids (ds_world s)) \<subseteq> texts (ds_world s))"
  using env(3) ps src
proof (induction cids arbitrary: s don idx)
  case (Cons cid cids)
  let ?P = "cc_peers cfg"
  let ?L = "length ?P" and ?w = "ds_world s"
  obtain cs where cs: "candidates env cfg dht cid = Inr cs" "set cs = set ?P" "length cs \<le> ?L"
    using candidates_all [OF env(2) tab] by blast
  have weak: "up ?w p (n + ?L * length cids + length cs) b" if "up ?w p (n + ?L * length (cid # cids)) b" for p
    using cs(3) by (intro up_mono [OF that]) simp_all
  have "\<forall>p \<in> set cs. up ?w p (n + ?L * length cids + length cs) b \<or> down ?w p"
    using Cons.prems(2) weak cs(2) by blast
  moreover have "\<exists>p \<in> set cs. up ?w p (n + ?L * length cids + length cs) b
      \<and> (\<exists>v. held ?w p cid = Some v \<and> opens env keys idx cid v)"
    using Cons.prems(3) [rule_format, of 0] weak cs(2) by fastforce
  ultimately obtain plain df w1 where f: "fetch_chunk env keys idx cid cs ?w = (Some plain, df, w1)" "served (length cs) ?w w1"
      "keys = None \<longrightarrow> plain \<in> texts ?w"
    using fetch_chunk_up [OF env(1), of cid cs ?w "n + ?L * length cids" b keys idx] Cons.prems(1) by auto
  let ?s2 = "s\<lparr>ds_world := w1, ds_double_free := ds_double_free s \<or> df, ds_progress := ds_progress s
      @ [\<lparr>pg_done = int_succ don, pg_total = tot, pg_message = ''Downloading chunks''\<rparr>]\<rparr>"
  have up1: "up w1 p (n + ?L * length cids) b" if "up ?w p (n + ?L * length (cid # cids)) b" for p
    using weak [OF that] f(2) by (simp add: served_def)
  have "\<forall>p \<in> set ?P. up (ds_world ?s2) p (n + ?L * length cids) b \<or> down (ds_world ?s2) p"
    using Cons.prems(2) up1 f(2) by (auto simp: served_def)
  moreover have "\<exists>p \<in> set ?P. up (ds_world ?s2) p (n + ?L * length cids) b
      \<and> (\<exists>v. held (ds_world ?s2) p (cids ! i) = Some v \<and> opens env keys (idx + 1 + of_nat i) (cids ! i) v)"
    if i: "i < length cids" for i
  proof -
    have "Suc i < length (cid # cids)" using i by simp
    from Cons.prems(3) [rule_format, OF this] obtain p v where pv: "p \<in> set ?P" "up ?w p (n + ?L * length (cid # cids)) b"
        "held ?w p (cids ! i) = Some v" "opens env keys (idx + of_nat (Suc i)) (cids ! i) v" by auto
    have eq: "idx + of_nat (Suc i) = idx + 1 + of_nat i" by simp
    have "held (ds_world ?s2) p (cids ! i) = Some v" using f(2) pv(3) by (simp add: served_def)
    moreover have "up (ds_world ?s2) p (n + ?L * length cids) b" using up1 [OF pv(2)] by simp
    ultimately show ?thesis using pv(1) pv(4) [unfolded eq] by blast
  qed
  ultimately obtain content s' where "fetch_chunks env cfg dht keys tot (int_succ don) (idx + 1) cids ?s2 = (Inr (), content, s')"
      "keys = None \<longrightarrow> set (accepted_pieces env cfg dht keys (idx + 1) cids w1) \<subseteq> texts w1"
    using Cons.IH [of ?s2 "idx + 1" "int_succ don"] Cons.prems(1) by auto
  moreover have "texts w1 \<subseteq> texts ?w" using f(2) by (simp add: served_def)
  ultimately show ?case using cs(1) f(1,3) by (auto simp: Let_def)
qed simp

lemma get_manifest_any:
  assumes "up w p n b \<or> down w p" "name_ok k"
  shows "\<exists>r c. getManifest net w p k = (r, c, w) \<and> (up w p n b \<longrightarrow> (\<forall>v. published w p k = Some v \<longrightarrow> r = Inr v))
    \<and> (\<forall>v. r = Inr v \<longrightarrow> published w p k = Some v)"
proof (cases "up w p n b")
  case True
  from get_manifest [OF True assms(2)] obtain r c where "getManifest net w p k = (r, c, w)"
      "\<And>v. published w p k = Some v \<longleftrightarrow> r = Inr v" by blast
  then show ?thesis by (intro exI [of _ r] exI [of _ c]) simp
next
  case False
  then obtain e c where "net_connect net w p = (Inl e, c)" using assms(1) down_connect by blast
  then have "getManifest net w p k = (Inl e, c, w)" by (simp add: getManifest_def get_object_def)
  then show ?thesis using False by (intro exI [of _ "Inl e"] exI [of _ c]) simp
qed

lemma fetch_manifest_up:
  assumes "en_net env = net" "name_ok mid" "\<forall>p \<in> set ps. up w p n b \<or> down w p"
    "\<exists>p \<in> set ps. up w p n b \<and> published w p mid = Some txt" "sha256_hex (en_sha256 env) txt = mid" "parseManifestText txt = Inr m"
    "\<forall>p \<in> set ps. \<forall>v. published w p mid = Some v \<and> sha256_hex (en_sha256 env) v = mid \<longrightarrow> v = txt"
  shows "fetch_manifest env mid ps w = (Some m, w) \<and> accepted_manifest env mid ps w = [txt]"
  using assms(3,4,7)
proof (induction ps)
  case (Cons p ps)
  have "up w p n b \<or> down w p" using Cons.prems(1) by simp
  from get_manifest_any [OF this assms(2)] obtain r c where g: "getManifest net w p mid = (r, c, w)"
      "up w p n b \<longrightarrow> (\<forall>v. published w p mid = Some v \<longrightarrow> r = Inr v)" "\<forall>v. r = Inr v \<longrightarrow> published w p mid = Some v" by blast
  show ?case
  proof (cases "r = Inr txt")
    case True
    then show ?thesis using g(1) assms(1,5,6) by simp
  next
    case False
    then have "\<exists>p \<in> set ps. up w p n b \<and> published w p mid = Some txt" using g(2) Cons.prems(2) by auto
    then have IH: "fetch_manifest env mid ps w = (Some m, w) \<and> accepted_manifest env mid ps w = [txt]"
      using Cons.IH Cons.prems(1,3) by simp
    show ?thesis
    proof (cases r)
      case (Inr v)
      then have "v \<noteq> txt" using False by simp
      then have "sha256_hex (en_sha256 env) v \<noteq> mid" using Inr g(3) Cons.prems(3) by auto
      then show ?thesis using g(1) Inr IH assms(1) by simp
    qed (use g(1) IH assms(1) in simp)
  qed
qed simp

lemma resolve_up:
  assumes env: "en_net env = net" "digest32 (en_sha256 env)" "\<And>d. name_ok (sha256_hex (en_sha256 env) d)"
    and peers: "\<forall>p \<in> set (cc_peers cfg). up (ds_world s) p n b \<or> down (ds_world s) p"
    and mani: "\<exists>p \<in> set (cc_peers cfg). up (ds_world s) p n b \<and> published (ds_world s) p mid = Some tx"
      "mid = sha256_hex (en_sha256 env) tx" "parseManifestText tx = Inr m"
      "\<forall>p \<in> set (cc_peers cfg). \<forall>v. published (ds_world s) p mid = Some v \<and> sha256_hex (en_sha256 env) v = mid \<longrightarrow> v = tx"
      "normalize_manifest_id ref = mid" "\<not> fs_exists (ds_disk s) ref"
  shows "\<exists>dht. DhtNode (en_sha256 env) (cc_peers cfg) = Inr dht \<and> table_of (en_sha256 env) (set (cc_peers cfg)) dht
    \<and> resolve_manifest env cfg dht ref s = (Inr m, s)
    \<and> (\<exists>cs. candidates env cfg dht (''manifest:'' @ mid) = Inr cs \<and> accepted_manifest env mid cs (ds_world s) = [tx])"
proof -
  obtain dht where dht: "DhtNode (en_sha256 env) (cc_peers cfg) = Inr dht" using wf_DhtNode [OF env(2)] by blast
  note tab = table_of_DhtNode [OF dht]
  obtain cs where cs: "candidates env cfg dht (''manifest:'' @ mid) = Inr cs" "set cs = set (cc_peers cfg)"
    using candidates_all [OF env(2) tab] by blast
  have "name_ok mid" using env(3) mani(2) by simp
  from fetch_manifest_up [OF env(1) this peers [folded cs(2)] mani(1) [folded cs(2)] mani(2) [symmetric] mani(3) mani(4) [folded cs(2)]]
  have f: "fetch_manifest env mid cs (ds_world s) = (Some m, ds_world s)" "accepted_manifest env mid cs (ds_world s) = [tx]" by simp_all
  then have "resolve_manifest env cfg dht ref s = (Inr m, s)"
    using mani(5,6) cs(1) by (simp add: resolve_manifest_def looks_like_local_manifest_path_def)
  then show ?thesis using dht tab cs(1) f(2) by blast
qed

lemma getFile_up:
  assumes env: "en_net env = net" "digest32 (en_sha256 env)" "\<And>d. name_ok (sha256_hex (en_sha256 env) d)"
    and peers: "cc_peers cfg \<noteq> []"
      "\<forall>p \<in> set (cc_peers cfg). up (ds_world s) p (length (cc_peers cfg) * length (mf_chunks m)) b \<or> down (ds_world s) p"
    and mani: "\<exists>p \<in> set (cc_peers cfg). up (ds_world s) p (length (cc_peers cfg) * length (mf_chunks m)) b
        \<and> published (ds_world s) p mid = Some tx"
      "mid = sha256_hex (en_sha256 env) tx" "parseManifestText tx = Inr m"
      "\<forall>p \<in> set (cc_peers cfg). \<forall>v. published (ds_world s) p mid = Some v \<and> sha256_hex (en_sha256 env) v = mid \<longrightarrow> v = tx"
      "normalize_manifest_id ref = mid" "\<not> fs_exists (ds_disk s) ref"
    and key: "unwrap_key env cfg (ds_disk s) m = (Inr keys, df)" and out: "can_open (ds_disk s) out"
    and ids: "\<forall>cid \<in> set (mf_chunks m). name_ok cid"
    and src: "\<forall>i < length (mf_chunks m). \<exists>p \<in> set (cc_peers cfg).
        up (ds_world s) p (length (cc_peers cfg) * length (mf_chunks m)) b
      \<and> (\<exists>v. held (ds_world s) p (mf_chunks m ! i) = Some v \<and> opens env keys (of_nat i) (mf_chunks m ! i) v)"
  shows "\<exists>s' pieces. getFile env cfg ref out s = (Inr (), s') \<and> accepted_texts env cfg ref s = tx # pieces
    \<and> (keys = None \<longrightarrow> set pieces \<subseteq> texts (ds_world s))"
proof -
  let ?sha = "en_sha256 env" and ?w = "ds_world s" and ?N = "length (cc_peers cfg) * length (mf_chunks m)"
  obtain dht cs where dht: "DhtNode ?sha (cc_peers cfg) = Inr dht" "table_of ?sha (set (cc_peers cfg)) dht"
      and res: "resolve_manifest env cfg dht ref s = (Inr m, s)"
      and cs: "candidates env cfg dht (''manifest:'' @ mid) = Inr cs" "accepted_manifest env mid cs ?w = [tx]"
    using resolve_up [OF env peers(2) mani] by blast
  let ?ps = "accepted_pieces env cfg dht keys 0 (mf_chunks m) ?w"
  let ?s1 = "s\<lparr>ds_double_free := ds_double_free s \<or> df\<rparr>"
  obtain d where d: "fs_write (ds_disk s) out [] = Some d" using out by (simp add: fs_write_def)
  have "\<forall>i < length (mf_chunks m). \<exists>p \<in> set (cc_peers cfg). up (ds_world (?s1\<lparr>ds_disk := d\<rparr>)) p (0 + ?N) b
      \<and> (\<exists>v. held (ds_world (?s1\<lparr>ds_disk := d\<rparr>)) p (mf_chunks m ! i) = Some v \<and> opens env keys (0 + of_nat i) (mf_chunks m ! i) v)"
    using src by simp
  moreover have "\<forall>p \<in> set (cc_peers cfg). up (ds_world (?s1\<lparr>ds_disk := d\<rparr>)) p (0 + ?N) b \<or> down (ds_world (?s1\<lparr>ds_disk := d\<rparr>)) p"
    using peers(2) by simp
  ultimately obtain content s2 where
      "fetch_chunks env cfg dht keys (int_of_size (length (mf_chunks m))) 0 0 (mf_chunks m) (?s1\<lparr>ds_disk := d\<rparr>) = (Inr (), content, s2)"
      "keys = None \<longrightarrow> set (accepted_pieces env cfg dht keys 0 (mf_chunks m) (ds_world (?s1\<lparr>ds_disk := d\<rparr>))) \<subseteq> texts (ds_world (?s1\<lparr>ds_disk := d\<rparr>))"
    using fetch_chunks_up [OF env(1,2) ids dht(2)] by blast
  then have "\<exists>s'. write_output env cfg dht keys m out ?s1 = (Inr (), s')" "keys = None \<longrightarrow> set ?ps \<subseteq> texts ?w"
    using d by (simp_all add: write_output_def)
  moreover have "accepted_texts env cfg ref s = tx # ?ps"
    using dht(1) res key cs mani(5) by (simp add: accepted_texts_def)
  ultimately show ?thesis using peers(1) dht(1) res key by (simp add: getFile_def)
qed

end

end
