(* ===== verification/Storage_Manager.thy ===== *)
theory Storage_Manager
  imports Filesystem
begin

text \<open>
  The peer's local store, \<^verbatim>\<open>core/storage/storage_manager.cpp\<close>: chunks as files under
  \<^verbatim>\<open>chunks/\<close>, their sizes and last-access counters in memory and in \<^verbatim>\<open>metadata.db\<close>, a
  byte limit enforced by evicting the least recently used chunk. All counters are 64-bit
  words and wrap as in C++. An operation maps the manager and the disk to its result
  (\<open>Inl\<close> for an exception) and the manager and disk it leaves behind, on the error
  paths too. The second half holds the accounting and disk invariants and the theorems on
  eviction and storing; \<open>Chunk_Store\<close> continues with the other operations and states the
  contract that the peer service relies on.
\<close>

section \<open>State\<close>

record chunk_meta =
  cm_size :: u64
  cm_lastAccess :: u64

record chunk_info =
  ci_id :: string
  ci_size :: u64
  ci_lastAccess :: u64

record storage =
  st_baseDir :: string
  st_chunksDir :: string
  st_manifestsDir :: string
  st_metaPath :: string
  st_maxBytes :: u64
  st_usedBytes :: u64
  st_accessCounter :: u64
  st_meta :: "(string \<times> chunk_meta) list"

definition StorageManager :: "string \<Rightarrow> u64 \<Rightarrow> storage" where
  "StorageManager baseDir maxBytes =
     \<lparr>st_baseDir = baseDir, st_chunksDir = baseDir @ ''/chunks'',
      st_manifestsDir = baseDir @ ''/manifests'', st_metaPath = baseDir @ ''/metadata.db'',
      st_maxBytes = maxBytes, st_usedBytes = 0, st_accessCounter = 0, st_meta = []\<rparr>"

definition chunkPath :: "storage \<Rightarrow> string \<Rightarrow> string" where
  "chunkPath st hash = st_chunksDir st @ ''/'' @ hash"

section \<open>The metadata file\<close>

definition meta_line :: "string \<times> chunk_meta \<Rightarrow> string" where
  "meta_line kv = fst kv @ [SP] @ show_u64 (cm_size (snd kv)) @ [SP]
     @ show_u64 (cm_lastAccess (snd kv)) @ [NL]"

definition metadata_text :: "storage \<Rightarrow> string" where
  "metadata_text st = show_u64 (st_accessCounter st) @ [SP] @ show_u64 (st_usedBytes st) @ [NL]
     @ concat (map meta_line (st_meta st))"

definition persistMetadata :: "storage \<Rightarrow> disk \<Rightarrow> disk" where
  "persistMetadata st d =
     (case fs_write d (st_metaPath st) (metadata_text st) of None \<Rightarrow> d | Some d' \<Rightarrow> d')"

text \<open>\<^verbatim>\<open>while (in >> id >> m.size >> m.lastAccess) meta_[id] = m;\<close>\<close>

definition read_entry :: "istream \<Rightarrow> (string \<times> chunk_meta) \<times> istream" where
  "read_entry s =
     (case read_token [] s of (i, s1) \<Rightarrow>
      case read_u64 0 s1 of (sz, s2) \<Rightarrow>
      case read_u64 0 s2 of (la, s3) \<Rightarrow> ((i, \<lparr>cm_size = sz, cm_lastAccess = la\<rparr>), s3))"

lemma read_entry_length:
  assumes "\<not> in_fail (snd (read_entry s))"
  shows "length (in_rest (snd (read_entry s))) < length (in_rest s)"
proof -
  obtain i s1 where 1: "read_token [] s = (i, s1)" by fastforce
  obtain sz s2 where 2: "read_u64 0 s1 = (sz, s2)" by fastforce
  obtain la s3 where 3: "read_u64 0 s2 = (la, s3)" by fastforce
  have s3: "snd (read_entry s) = s3" by (simp add: read_entry_def 1 2 3)
  have "\<not> in_fail s2" using assms s3 read_num_failed [of s2 to_u64 0] 3 by (auto simp: read_u64_def)
  then have "\<not> in_fail s1" using read_num_failed [of s1 to_u64 0] 2 by (auto simp: read_u64_def)
  then have "length (in_rest s1) < length (in_rest s)" using read_token_length [of "[]" s] 1 by simp
  moreover have "length (in_rest s2) \<le> length (in_rest s1)" "length (in_rest s3) \<le> length (in_rest s2)"
    using read_num_length [of to_u64 0 s1] read_num_length [of to_u64 0 s2] 2 3 by (simp_all add: read_u64_def)
  ultimately show ?thesis by (simp add: s3)
qed

function read_entries :: "istream \<Rightarrow> (string \<times> chunk_meta) list \<Rightarrow> (string \<times> chunk_meta) list" where
  "read_entries s meta =
     (let (kv, s') = read_entry s in
      if in_fail s' then meta else read_entries s' (AList.update (fst kv) (snd kv) meta))"
  by pat_completeness auto
termination
  by (relation "measure (\<lambda>(s, meta). length (in_rest s))") (auto dest: read_entry_length intro: read_entry_length [THEN less_le_trans] simp: prod_eq_iff)

declare read_entries.simps [simp del]

section \<open>Operations\<close>

fun rebuild_loop :: "(string \<times> bytes) list \<Rightarrow> storage \<Rightarrow> storage" where
  "rebuild_loop [] st = st"
| "rebuild_loop ((name, content) # es) st =
     (let size = of_nat (length content);
          c = st_accessCounter st + 1 in
      rebuild_loop es (st\<lparr>st_accessCounter := c,
        st_meta := AList.update name \<lparr>cm_size = size, cm_lastAccess = c\<rparr> (st_meta st),
        st_usedBytes := st_usedBytes st + size\<rparr>))"

definition rebuildMetadataFromDisk :: "storage \<Rightarrow> disk \<Rightarrow> storage \<times> disk" where
  "rebuildMetadataFromDisk st d =
     (let st0 = st\<lparr>st_meta := [], st_usedBytes := 0, st_accessCounter := 0\<rparr> in
      if \<not> fs_exists d (st_chunksDir st) then (st0, d)
      else let st1 = rebuild_loop (dir_entries d (st_chunksDir st)) st0 in
        (st1, persistMetadata st1 d))"

definition loadMetadata :: "storage \<Rightarrow> disk \<Rightarrow> storage \<times> disk" where
  "loadMetadata st d =
     (let st0 = st\<lparr>st_meta := [], st_usedBytes := 0, st_accessCounter := 0\<rparr> in
      case fs_read d (st_metaPath st) of
        None \<Rightarrow> rebuildMetadataFromDisk st0 d
      | Some text \<Rightarrow>
         (case read_u64 0 (istringstream text) of (storedCounter, s1) \<Rightarrow>
          case read_u64 0 s1 of (storedUsed, s2) \<Rightarrow>
            if in_fail s2 then rebuildMetadataFromDisk st0 d
            else (st0\<lparr>st_accessCounter := storedCounter, st_usedBytes := storedUsed,
                      st_meta := read_entries s2 []\<rparr>, d)))"

definition init :: "storage \<Rightarrow> disk \<Rightarrow> storage \<times> disk" where
  "init st d =
     (let d1 = snd (create_directories d (st_baseDir st));
          d2 = snd (create_directories d1 (st_chunksDir st));
          d3 = snd (create_directories d2 (st_manifestsDir st)) in
      loadMetadata st d3)"

definition touch :: "string \<Rightarrow> storage \<Rightarrow> storage" where
  "touch hash st =
     (case map_of (st_meta st) hash of
        None \<Rightarrow> st
      | Some m \<Rightarrow> (let c = st_accessCounter st + 1 in
          st\<lparr>st_accessCounter := c,
             st_meta := AList.update hash (m\<lparr>cm_lastAccess := c\<rparr>) (st_meta st)\<rparr>))"

text \<open>The scan for the victim: from the first entry, move on a strictly smaller counter.\<close>

fun lru_scan :: "string \<times> chunk_meta \<Rightarrow> (string \<times> chunk_meta) list \<Rightarrow> string \<times> chunk_meta" where
  "lru_scan v [] = v"
| "lru_scan v (e # es) =
     lru_scan (if cm_lastAccess (snd e) < cm_lastAccess (snd v) then e else v) es"

lemma lru_scan_mem: "lru_scan v es \<in> insert v (set es)"
  by (induction es arbitrary: v) fastforce+

function evict_loop :: "storage \<Rightarrow> disk \<Rightarrow> storage \<times> disk" where
  "evict_loop st d =
     (if st_usedBytes st > st_maxBytes st \<and> st_meta st \<noteq> [] then
        let v = lru_scan (hd (st_meta st)) (st_meta st) in
        evict_loop
          (st\<lparr>st_usedBytes := st_usedBytes st - cm_size (snd v),
              st_meta := AList.delete (fst v) (st_meta st)\<rparr>)
          (fs_remove d (chunkPath st (fst v)))
      else (st, d))"
  by pat_completeness auto
termination
proof (relation "measure (\<lambda>(st, d). length (st_meta st))")
  fix st :: storage and d :: disk and v
  assume "st_maxBytes st < st_usedBytes st \<and> st_meta st \<noteq> []"
    and v: "v = lru_scan (hd (st_meta st)) (st_meta st)"
  then have "v \<in> set (st_meta st)"
    using lru_scan_mem [of "hd (st_meta st)" "st_meta st"] by auto
  then have "length (AList.delete (fst v) (st_meta st)) < length (st_meta st)"
    by (intro length_delete_less [of _ "snd v"]) simp
  then show "((st\<lparr>st_usedBytes := st_usedBytes st - cm_size (snd v),
              st_meta := AList.delete (fst v) (st_meta st)\<rparr>,
      fs_remove d (chunkPath st (fst v))), (st, d)) \<in> measure (\<lambda>(st, d). length (st_meta st))"
    by simp
qed simp

declare evict_loop.simps [simp del]

definition enforceLimit :: "storage \<Rightarrow> disk \<Rightarrow> storage \<times> disk" where
  "enforceLimit st d =
     (if st_maxBytes st = 0 then (st, d)
      else case evict_loop st d of (st', d') \<Rightarrow> (st', persistMetadata st' d'))"

definition setMaxBytes :: "u64 \<Rightarrow> storage \<Rightarrow> disk \<Rightarrow> storage \<times> disk" where
  "setMaxBytes bytes st d = enforceLimit (st\<lparr>st_maxBytes := bytes\<rparr>) d"

text \<open>\<^verbatim>\<open>usedBytes_\<close> without the bytes of an entry, clamped at zero.\<close>

definition uncount :: "chunk_meta \<Rightarrow> storage \<Rightarrow> storage" where
  "uncount m st = st\<lparr>st_usedBytes :=
     (if st_usedBytes st \<ge> cm_size m then st_usedBytes st - cm_size m else 0)\<rparr>"

text \<open>
  \<^verbatim>\<open>storeChunk\<close>. When the rename fails, \<^verbatim>\<open>fs::remove(pathTmp, ec)\<close> overwrites the error code
  before its message is taken.
\<close>

definition storeChunk :: "string \<Rightarrow> bytes \<Rightarrow> storage \<times> disk \<Rightarrow> unit result \<times> storage \<times> disk" where
  "storeChunk hash data = (\<lambda>(st, d).
     if hash = [] then (Inl (Runtime_error ''storeChunk: empty hash''), st, d)
     else
       let newSize = of_nat (length data);
           st1 = (case map_of (st_meta st) hash of None \<Rightarrow> st | Some m \<Rightarrow> uncount m st);
           pathTmp = chunkPath st hash @ ''.tmp'';
           pathFin = chunkPath st hash in
       case fs_write d pathTmp data of
         None \<Rightarrow> (Inl (Runtime_error (''storeChunk: failed to open temp file for '' @ hash)), st1, d)
       | Some d1 \<Rightarrow>
          (case fs_rename d1 pathTmp pathFin of
             None \<Rightarrow> (Inl (Runtime_error (''storeChunk: rename failed for '' @ hash @ '': Success'')),
                      st1, fs_remove d1 pathTmp)
           | Some d2 \<Rightarrow>
              (let c = st_accessCounter st1 + 1;
                   st2 = st1\<lparr>st_accessCounter := c,
                     st_meta := AList.update hash \<lparr>cm_size = newSize, cm_lastAccess = c\<rparr> (st_meta st1),
                     st_usedBytes := st_usedBytes st1 + newSize\<rparr> in
               (Inr (), enforceLimit st2 d2))))"

definition loadChunk :: "string \<Rightarrow> storage \<times> disk \<Rightarrow> bytes result \<times> storage \<times> disk" where
  "loadChunk hash = (\<lambda>(st, d).
     case fs_read d (chunkPath st hash) of
       None \<Rightarrow> (Inl (Runtime_error (''loadChunk: missing chunk '' @ hash)), st, d)
     | Some data \<Rightarrow> (let st' = touch hash st in (Inr data, st', persistMetadata st' d)))"

definition deleteChunk :: "string \<Rightarrow> storage \<times> disk \<Rightarrow> storage \<times> disk" where
  "deleteChunk hash = (\<lambda>(st, d).
     let st1 = (case map_of (st_meta st) hash of
                  None \<Rightarrow> st
                | Some m \<Rightarrow> (uncount m st)\<lparr>st_meta := AList.delete hash (st_meta st)\<rparr>);
         d1 = fs_remove d (chunkPath st hash) in
     (st1, persistMetadata st1 d1))"

definition listChunks :: "storage \<Rightarrow> chunk_info list" where
  "listChunks st = map (\<lambda>(k, m). \<lparr>ci_id = k, ci_size = cm_size m, ci_lastAccess = cm_lastAccess m\<rparr>) (st_meta st)"

definition hasChunk :: "storage \<Rightarrow> string \<Rightarrow> bool" where
  "hasChunk st hash \<longleftrightarrow> map_of (st_meta st) hash \<noteq> None"

section \<open>Accounting\<close>

abbreviation la :: "string \<times> chunk_meta \<Rightarrow> u64" where
  "la e \<equiv> cm_lastAccess (snd e)"

definition meta_bytes :: "(string \<times> chunk_meta) list \<Rightarrow> nat" where
  "meta_bytes al = sum_list (map (\<lambda>e. unat (cm_size (snd e))) al)"

text \<open>
  The invariant of the counters: one entry per chunk, \<^verbatim>\<open>usedBytes_\<close> is the exact sum of the
  sizes, no access time lies in the future and no two are equal.
\<close>

definition accounted :: "storage \<Rightarrow> bool" where
  "accounted st \<longleftrightarrow> distinct (map fst (st_meta st)) \<and> unat (st_usedBytes st) = meta_bytes (st_meta st)
     \<and> (\<forall>e \<in> set (st_meta st). la e \<le> st_accessCounter st) \<and> distinct (map la (st_meta st))"

lemma accountedD:
  assumes "accounted st"
  shows "distinct (map fst (st_meta st))" "unat (st_usedBytes st) = meta_bytes (st_meta st)"
    "\<And>e. e \<in> set (st_meta st) \<Longrightarrow> la e \<le> st_accessCounter st" "distinct (map la (st_meta st))"
  using assms by (auto simp: accounted_def)

lemma meta_bytes_mset: "mset al = mset bl \<Longrightarrow> meta_bytes al = meta_bytes bl"
  unfolding meta_bytes_def by (simp flip: sum_mset_sum_list)

lemma meta_bytes_Cons [simp]: "meta_bytes (e # al) = unat (cm_size (snd e)) + meta_bytes al"
  by (simp add: meta_bytes_def)

lemma meta_bytes_delete:
  "distinct (map fst al) \<Longrightarrow> (k, m) \<in> set al \<Longrightarrow>
   meta_bytes al = unat (cm_size m) + meta_bytes (AList.delete k al)"
  using meta_bytes_mset [of al "(k, m) # AList.delete k al"] mset_delete [of al k m] by simp

lemma meta_bytes_update:
  "distinct (map fst al) \<Longrightarrow>
   meta_bytes (AList.update k m al) = unat (cm_size m) + meta_bytes (AList.delete k al)"
  using meta_bytes_mset [of "AList.update k m al" "(k, m) # AList.delete k al"] mset_update [of al k m]
  by simp

lemma entry_size_le: "(k, m) \<in> set al \<Longrightarrow> unat (cm_size m) \<le> meta_bytes al"
  by (induction al) auto

lemma lru_scan_min:
  "la (lru_scan v es) \<le> la v \<and> (\<forall>e \<in> set es. la (lru_scan v es) \<le> la e)"
proof (induction es arbitrary: v)
  case Nil
  then show ?case by simp
next
  case (Cons x es)
  show ?case using Cons.IH [of x] Cons.IH [of v] by (cases "la x < la v") force+
qed

lemma delete_entry_filter:
  "distinct (map fst al) \<Longrightarrow> v \<in> set al \<Longrightarrow> AList.delete (fst v) al = filter (\<lambda>e. e \<noteq> v) al"
  unfolding delete_as_filter by (rule filter_cong) (auto dest: inj_onD [OF distinct_map [THEN iffD1, THEN conjunct2]])

lemma distinct_map_filter_sub: "distinct (map f al) \<Longrightarrow> distinct (map f (filter P al))"
  by (rule distinct_map_filter)

text \<open>What the eviction loop does, by one list of victims.\<close>

definition evicted :: "storage \<Rightarrow> disk \<Rightarrow> (string \<times> chunk_meta) list \<Rightarrow> storage \<times> disk \<Rightarrow> bool" where
  "evicted st d vs r \<longleftrightarrow> (case r of (st', d') \<Rightarrow>
     st' = st\<lparr>st_usedBytes := st_usedBytes st', st_meta := filter (\<lambda>e. e \<notin> set vs) (st_meta st)\<rparr>
     \<and> set vs \<subseteq> set (st_meta st) \<and> sorted_wrt (\<lambda>a b. la a < la b) vs
     \<and> (\<forall>v \<in> set vs. \<forall>e \<in> set (st_meta st'). la v < la e)
     \<and> d' = fold (\<lambda>v d. fs_remove d (chunkPath st (fst v))) vs d
     \<and> accounted st' \<and> st_usedBytes st' \<le> st_maxBytes st
     \<and> (vs \<noteq> [] \<longrightarrow> unat (st_maxBytes st) < unat (st_usedBytes st') + unat (cm_size (snd (last vs)))))"

lemma evictedD:
  assumes "evicted st d vs (st', d')"
  shows "st_meta st' = filter (\<lambda>e. e \<notin> set vs) (st_meta st)" "accounted st'" "st_usedBytes st' \<le> st_maxBytes st"
proof -
  have "st' = st\<lparr>st_usedBytes := st_usedBytes st', st_meta := filter (\<lambda>e. e \<notin> set vs) (st_meta st)\<rparr>"
    using assms by (simp add: evicted_def)
  from arg_cong [OF this, of st_meta]
  show "st_meta st' = filter (\<lambda>e. e \<notin> set vs) (st_meta st)" by simp
  show "accounted st'" "st_usedBytes st' \<le> st_maxBytes st" using assms by (simp_all add: evicted_def)
qed

lemma accounted_evict_one:
  assumes "accounted st" "v \<in> set (st_meta st)"
  shows "accounted (st\<lparr>st_usedBytes := st_usedBytes st - cm_size (snd v),
      st_meta := AList.delete (fst v) (st_meta st)\<rparr>)
    \<and> unat (st_usedBytes st - cm_size (snd v)) + unat (cm_size (snd v)) = unat (st_usedBytes st)"
proof -
  note acc = accountedD [OF assms(1)]
  have v: "(fst v, snd v) \<in> set (st_meta st)" using assms(2) by simp
  have split: "meta_bytes (st_meta st) = unat (cm_size (snd v)) + meta_bytes (AList.delete (fst v) (st_meta st))"
    by (rule meta_bytes_delete [OF acc(1) v])
  then have "cm_size (snd v) \<le> st_usedBytes st" using acc(2) by (simp add: word_le_nat_alt)
  then have "unat (st_usedBytes st - cm_size (snd v)) = unat (st_usedBytes st) - unat (cm_size (snd v))"
    by (rule unat_diff_no_wrap)
  with split acc show ?thesis
    by (auto simp: accounted_def delete_as_filter intro!: distinct_map_filter)
qed

lemma evicted_Cons:
  assumes ev: "evicted (st\<lparr>st_usedBytes := u, st_meta := filter (\<lambda>e. e \<noteq> v) (st_meta st)\<rparr>)
      (fs_remove d (chunkPath st (fst v))) vs (st', d')"
    and v: "v \<in> set (st_meta st)" "\<And>e. e \<in> set (st_meta st) \<Longrightarrow> e \<noteq> v \<Longrightarrow> la v < la e"
    and u: "unat u = meta_bytes (filter (\<lambda>e. e \<noteq> v) (st_meta st))"
      "unat (st_maxBytes st) < unat u + unat (cm_size (snd v))"
  shows "evicted st d (v # vs) (st', d')"
proof -
  have st': "st' = st\<lparr>st_usedBytes := st_usedBytes st', st_meta := filter (\<lambda>e. e \<notin> set (v # vs)) (st_meta st)\<rparr>"
    using ev by (simp add: evicted_def)
  then have meta': "st_meta st' = filter (\<lambda>e. e \<notin> set (v # vs)) (st_meta st)"
    by (metis (no_types, lifting) storage.select_convs(8) storage.surjective storage.update_convs(8))
  have rest: "set vs \<subseteq> set (st_meta st)" "v \<notin> set vs" "sorted_wrt (\<lambda>a b. la a < la b) vs"
    "\<forall>w \<in> set vs. \<forall>e \<in> set (st_meta st'). la w < la e" "accounted st'" "st_usedBytes st' \<le> st_maxBytes st"
    "vs \<noteq> [] \<longrightarrow> unat (st_maxBytes st) < unat (st_usedBytes st') + unat (cm_size (snd (last vs)))"
    "d' = fold (\<lambda>w d. fs_remove d (chunkPath st (fst w))) vs (fs_remove d (chunkPath st (fst v)))"
    using ev by (auto simp: evicted_def chunkPath_def)
  have "\<forall>e \<in> set (st_meta st'). la v < la e" using v(2) by (auto simp: meta')
  moreover have "\<forall>w \<in> set vs. la v < la w" using rest(1,2) v(2) by auto
  moreover have "unat (st_maxBytes st) < unat (st_usedBytes st') + unat (cm_size (snd v))" if "vs = []"
    using u accountedD(2) [OF rest(5)] that by (simp add: meta')
  ultimately show ?thesis
    using st' rest v(1) unfolding evicted_def by (auto simp del: filter_filter)
qed

lemma evict_loop_spec: "accounted st \<Longrightarrow> \<exists>vs. evicted st d vs (evict_loop st d)"
proof (induction st d rule: evict_loop.induct)
  case (1 st d)
  note acc = accountedD [OF "1.prems"]
  show ?case
  proof (cases "st_usedBytes st > st_maxBytes st \<and> st_meta st \<noteq> []")
    case False
    then have "st_usedBytes st \<le> st_maxBytes st"
      using acc(2) by (cases "st_meta st") (auto simp: meta_bytes_def word_le_nat_alt not_less)
    moreover have "evict_loop st d = (st, d)"
      by (subst evict_loop.simps) (simp only: False if_False)
    ultimately have "evicted st d [] (evict_loop st d)" using "1.prems" by (simp add: evicted_def)
    then show ?thesis ..
  next
    case True
    define v where "v = lru_scan (hd (st_meta st)) (st_meta st)"
    have vin: "v \<in> set (st_meta st)"
      using lru_scan_mem [of "hd (st_meta st)" "st_meta st"] True by (auto simp: v_def)
    have vmin: "la v \<le> la e" if "e \<in> set (st_meta st)" for e
      using lru_scan_min [of "hd (st_meta st)" "st_meta st"] that by (simp add: v_def)
    let ?st1 = "st\<lparr>st_usedBytes := st_usedBytes st - cm_size (snd v), st_meta := AList.delete (fst v) (st_meta st)\<rparr>"
    let ?d1 = "fs_remove d (chunkPath st (fst v))"
    have acc1: "accounted ?st1"
      and sz: "unat (st_usedBytes st - cm_size (snd v)) + unat (cm_size (snd v)) = unat (st_usedBytes st)"
      using accounted_evict_one [OF "1.prems" vin] by auto
    obtain vs where vs: "evicted ?st1 ?d1 vs (evict_loop ?st1 ?d1)"
      using "1.IH" [OF True v_def acc1] by blast
    have step: "evict_loop st d = evict_loop ?st1 ?d1"
      using True by (simp add: evict_loop.simps [of st d] v_def Let_def)
    have del: "AList.delete (fst v) (st_meta st) = filter (\<lambda>e. e \<noteq> v) (st_meta st)"
      by (rule delete_entry_filter [OF acc(1) vin])
    have less: "la v < la e" if "e \<in> set (st_meta st)" "e \<noteq> v" for e
      using vmin [OF that(1)] acc(4) that vin by (metis distinct_map inj_onD order_le_imp_less_or_eq)
    obtain st' d' where r: "evict_loop ?st1 ?d1 = (st', d')" by fastforce
    have "evicted st d (v # vs) (st', d')"
    proof (rule evicted_Cons [OF _ vin less])
      show "unat (st_usedBytes st - cm_size (snd v)) = meta_bytes (filter (\<lambda>e. e \<noteq> v) (st_meta st))"
        using accountedD(2) [OF acc1] by (simp add: del)
      show "unat (st_maxBytes st) < unat (st_usedBytes st - cm_size (snd v)) + unat (cm_size (snd v))"
        using True by (simp add: sz word_less_nat_alt)
    qed (use vs r in \<open>simp_all add: del\<close>)
    then show ?thesis using step r by auto
  qed
qed

section \<open>The store on disk\<close>

text \<open>
  The paths a manager built by the constructor uses, and the invariant that ties its
  entries to the files: every entry has a file of its size. Chunk names ending in
  \<^verbatim>\<open>.tmp\<close> are excluded, since such a file is overwritten when the chunk with the name
  without the ending is stored.
\<close>

definition wf_layout :: "storage \<Rightarrow> bool" where
  "wf_layout st \<longleftrightarrow> st_chunksDir st = st_baseDir st @ ''/chunks''
     \<and> st_manifestsDir st = st_baseDir st @ ''/manifests'' \<and> st_metaPath st = st_baseDir st @ ''/metadata.db''"

definition tmp_name :: "string \<Rightarrow> bool" where
  "tmp_name k \<longleftrightarrow> (\<exists>h. k = h @ ''.tmp'')"

lemma tmp_name_code: "tmp_name k \<longleftrightarrow> take 4 (rev k) = ''pmt.''"
proof
  assume "take 4 (rev k) = ''pmt.''"
  then have "rev k = ''pmt.'' @ drop 4 (rev k)" using append_take_drop_id [of 4 "rev k"] by simp
  then have "k = rev (drop 4 (rev k)) @ ''.tmp''" by (metis rev_append rev_rev_ident rev_singleton_conv rev.simps append.assoc append_Cons append_Nil)
  then show "tmp_name k" by (auto simp: tmp_name_def)
qed (auto simp: tmp_name_def)

definition stored :: "storage \<Rightarrow> disk \<Rightarrow> bool" where
  "stored st d \<longleftrightarrow> wf_layout st \<and> (\<forall>(k, m) \<in> set (st_meta st). \<not> tmp_name k \<and>
     (\<exists>c. fs_read d (chunkPath st k) = Some c \<and> length c = unat (cm_size m)))"

definition store_inv :: "storage \<times> disk \<Rightarrow> bool" where
  "store_inv = (\<lambda>(st, d). accounted st \<and> stored st d)"

text \<open>The chunks a client can rely on: those with an entry, with the content of their file.\<close>

definition contents :: "storage \<times> disk \<Rightarrow> string \<Rightarrow> bytes option" where
  "contents = (\<lambda>(st, d) k. if hasChunk st k then fs_read d (chunkPath st k) else None)"

lemma chunkPath_inj [simp]: "chunkPath st a = chunkPath st b \<longleftrightarrow> a = b"
  by (simp add: chunkPath_def)

lemma chunkPath_tmp: "chunkPath st a @ ''.tmp'' = chunkPath st b \<longleftrightarrow> b = a @ ''.tmp''"
  by (auto simp: chunkPath_def)

lemma chunkPath_not_meta: "wf_layout st \<Longrightarrow> chunkPath st k \<noteq> st_metaPath st"
  by (simp add: wf_layout_def chunkPath_def)

lemma chunkPath_update [simp]:
  "chunkPath (st\<lparr>st_usedBytes := u\<rparr>) = chunkPath st" "chunkPath (st\<lparr>st_meta := m\<rparr>) = chunkPath st"
  "chunkPath (st\<lparr>st_accessCounter := c\<rparr>) = chunkPath st" "chunkPath (st\<lparr>st_maxBytes := x\<rparr>) = chunkPath st"
  by (auto simp: chunkPath_def fun_eq_iff)

lemma wf_layout_update [simp]:
  "wf_layout (st\<lparr>st_usedBytes := u\<rparr>) = wf_layout st" "wf_layout (st\<lparr>st_meta := m\<rparr>) = wf_layout st"
  "wf_layout (st\<lparr>st_accessCounter := c\<rparr>) = wf_layout st" "wf_layout (st\<lparr>st_maxBytes := x\<rparr>) = wf_layout st"
  by (auto simp: wf_layout_def)

lemma fs_read_persist:
  "p \<noteq> st_metaPath st \<Longrightarrow> fs_read (persistMetadata st d) p = fs_read d p"
  by (auto simp: persistMetadata_def fs_read_write split: option.splits)

lemma can_open_persist [simp]:
  "can_open (persistMetadata st d) = can_open d" "can_rename (persistMetadata st d) = can_rename d"
  by (auto simp: persistMetadata_def fs_write_def)

lemma persist_eq_Some:
  "can_open d (st_metaPath st) \<Longrightarrow> fs_read (persistMetadata st d) (st_metaPath st) = Some (metadata_text st)"
  by (simp add: persistMetadata_def fs_write_def fs_read_def)

lemma fs_read_fold_remove:
  "fs_read (fold (\<lambda>v d. fs_remove d (f v)) vs d) p = (if p \<in> f ` set vs then None else fs_read d p)"
  by (induction vs arbitrary: d) (auto simp: fs_read_remove)

lemma can_open_fold_remove [simp]:
  "can_open (fold (\<lambda>v d. fs_remove d (f v)) vs d) = can_open d"
  "can_rename (fold (\<lambda>v d. fs_remove d (f v)) vs d) = can_rename d"
  by (induction vs arbitrary: d) auto

lemma hasChunk_mem: "hasChunk st k \<longleftrightarrow> k \<in> fst ` set (st_meta st)"
  by (simp add: hasChunk_def map_of_eq_None_iff)

lemma storedD:
  "stored st d \<Longrightarrow> (k, m) \<in> set (st_meta st) \<Longrightarrow>
   \<not> tmp_name k \<and> (\<exists>c. fs_read d (chunkPath st k) = Some c \<and> length c = unat (cm_size m))"
  by (auto simp: stored_def)

text \<open>Only the files the metadata do not name may change.\<close>

lemma stored_frame:
  assumes "stored st d" "set (st_meta st') \<subseteq> set (st_meta st)" "chunkPath st' = chunkPath st" "wf_layout st'"
    "\<And>k m. (k, m) \<in> set (st_meta st') \<Longrightarrow> fs_read d' (chunkPath st k) = fs_read d (chunkPath st k)"
  shows "stored st' d'"
  using assms unfolding stored_def by fastforce

section \<open>Storing, loading and deleting\<close>

lemma contents_iff:
  "contents (st, d) k = Some v \<longleftrightarrow> hasChunk st k \<and> fs_read d (chunkPath st k) = Some v"
  by (auto simp: contents_def)

lemma store_invD:
  "store_inv (st, d) \<Longrightarrow> accounted st" "store_inv (st, d) \<Longrightarrow> stored st d"
  by (auto simp: store_inv_def)

lemma evicted_inv:
  assumes "evicted st d vs (st', d')" "stored st d" "accounted st"
  shows "stored st' d' \<and> (\<forall>k. contents (st', d') k = (if k \<in> fst ` set vs then None else contents (st, d) k))"
proof -
  have st': "st' = st\<lparr>st_usedBytes := st_usedBytes st', st_meta := filter (\<lambda>e. e \<notin> set vs) (st_meta st)\<rparr>"
    and d': "d' = fold (\<lambda>v d. fs_remove d (chunkPath st (fst v))) vs d" and sub: "set vs \<subseteq> set (st_meta st)"
    using assms(1) by (auto simp: evicted_def)
  have path: "chunkPath st' = chunkPath st" and wf: "wf_layout st' = wf_layout st"
    by (subst st', simp)+
  have meta': "st_meta st' = filter (\<lambda>e. e \<notin> set vs) (st_meta st)" by (subst st') simp
  have keys: "k \<in> fst ` set (st_meta st') \<longleftrightarrow> k \<in> fst ` set (st_meta st) \<and> k \<notin> fst ` set vs" for k
  proof -
    have "e = w" if "e \<in> set (st_meta st)" "w \<in> set vs" "fst e = fst w" for e w
      using that sub accountedD(1) [OF assms(3)] by (auto simp: distinct_map dest: inj_onD)
    then show ?thesis by (fastforce simp: meta')
  qed
  have read: "fs_read d' (chunkPath st k) = (if k \<in> fst ` set vs then None else fs_read d (chunkPath st k))" for k
    unfolding d' by (force simp: fs_read_fold_remove)
  have "stored st' d'"
  proof (rule stored_frame [OF assms(2) _ path])
    show "set (st_meta st') \<subseteq> set (st_meta st)" by (auto simp: meta')
    show "wf_layout st'" using assms(2) by (simp add: wf stored_def)
    show "fs_read d' (chunkPath st k) = fs_read d (chunkPath st k)" if "(k, m) \<in> set (st_meta st')" for k m
      using that keys [of k] by (force simp: read)
  qed
  moreover have "contents (st', d') k = (if k \<in> fst ` set vs then None else contents (st, d) k)" for k
    unfolding contents_def by (simp add: hasChunk_mem keys path read)
  ultimately show ?thesis by blast
qed

lemma persist_inv:
  assumes "stored st d"
  shows "stored st (persistMetadata st d) \<and> contents (st, persistMetadata st d) = contents (st, d)"
proof -
  have "wf_layout st" using assms by (simp add: stored_def)
  then have "fs_read (persistMetadata st d) (chunkPath st k) = fs_read d (chunkPath st k)" for k
    by (simp add: fs_read_persist chunkPath_not_meta)
  with assms show ?thesis by (auto simp: stored_def contents_def fun_eq_iff)
qed

lemma enforceLimit_spec:
  assumes "store_inv (st, d)" "st_maxBytes st \<noteq> 0" "enforceLimit st d = (st', d')"
  shows "\<exists>vs. sorted_wrt (\<lambda>a b. la a < la b) vs \<and> mset (st_meta st) = mset vs + mset (st_meta st')
    \<and> (\<forall>v \<in> set vs. \<forall>e \<in> set (st_meta st'). la v < la e)
    \<and> (\<forall>k. contents (st', d') k = (if k \<in> fst ` set vs then None else contents (st, d) k))
    \<and> (vs \<noteq> [] \<longrightarrow> unat (st_maxBytes st) < unat (st_usedBytes st') + unat (cm_size (snd (last vs))))
    \<and> st_usedBytes st' \<le> st_maxBytes st \<and> store_inv (st', d')"
proof -
  obtain d1 where ev: "evict_loop st d = (st', d1)" and d': "d' = persistMetadata st' d1"
    using assms(2,3) by (auto simp: enforceLimit_def split: prod.splits)
  obtain vs where vs: "evicted st d vs (st', d1)"
    using evict_loop_spec [OF store_invD(1) [OF assms(1)], of d] ev by auto
  note inv = evicted_inv [OF vs store_invD(2) [OF assms(1)] store_invD(1) [OF assms(1)]]
  have "stored st' d1" using inv by blast
  note per = persist_inv [OF this]
  have st': "st_meta st' = filter (\<lambda>e. e \<notin> set vs) (st_meta st)"
    by (rule evictedD(1) [OF vs])
  have sub: "set vs \<subseteq> set (st_meta st)" and srt: "sorted_wrt (\<lambda>a b. la a < la b) vs"
    using vs by (auto simp: evicted_def)
  have "distinct vs" using srt by (induction vs) auto
  moreover have "distinct (st_meta st)" using accountedD(1) [OF store_invD(1) [OF assms(1)]] by (simp add: distinct_map)
  ultimately have "mset vs = mset (filter (\<lambda>e. e \<in> set vs) (st_meta st))"
    using sub by (intro set_eq_iff_mset_eq_distinct [THEN iffD1]) auto
  then have "mset (st_meta st) = mset vs + mset (st_meta st')"
    unfolding st' by (simp add: multiset_partition [symmetric])
  with vs inv per srt show ?thesis
    unfolding evicted_def d' store_inv_def by (intro exI [of _ vs]) simp
qed

text \<open>
  C7: Enforcing the limit evicts a set of chunks each of which was used before every chunk
  that stays; it stops as soon as the limit is met (the last chunk evicted would not have
  fitted), keeps the accounting exact and the remaining chunks intact, and leaves at most
  \<^verbatim>\<open>maxBytes_\<close> bytes in use.
\<close>

theorem enforceLimit_lru:
  assumes "store_inv (st, d)" "st_maxBytes st \<noteq> 0" "enforceLimit st d = (st', d')"
  shows "\<exists>vs. sorted_wrt (\<lambda>a b. la a < la b) vs \<and> mset (st_meta st) = mset vs + mset (st_meta st')
    \<and> (\<forall>v \<in> set vs. \<forall>e \<in> set (st_meta st'). la v < la e)
    \<and> (\<forall>k. contents (st', d') k = (if k \<in> fst ` set vs then None else contents (st, d) k))
    \<and> (vs \<noteq> [] \<longrightarrow> unat (st_maxBytes st) < unat (st_usedBytes st') + unat (cm_size (snd (last vs))))
    \<and> st_usedBytes st' \<le> st_maxBytes st \<and> store_inv (st', d')"
  by (rule enforceLimit_spec [OF assms])

text \<open>A store of two chunks used in the examples.\<close>

definition open_disk :: "(string \<times> bytes) list \<Rightarrow> disk" where
  "open_disk fs = \<lparr>files = fs, dirs = [''p'', ''p/chunks'', ''p/manifests''], can_open = \<lambda>_. True,
     can_rename = \<lambda>_ _. True, can_mkdir = \<lambda>_. True\<rparr>"

definition sample_store :: "u64 \<Rightarrow> storage" where
  "sample_store limit = (StorageManager ''p'' limit)\<lparr>st_usedBytes := 7, st_accessCounter := 2,
     st_meta := [(''a'', \<lparr>cm_size = 4, cm_lastAccess = 2\<rparr>), (''b'', \<lparr>cm_size = 3, cm_lastAccess = 1\<rparr>)]\<rparr>"

definition sample_disk :: disk where
  "sample_disk = open_disk [(''p/chunks/a'', ''data''), (''p/chunks/b'', ''old'')]"

lemma sample_store_inv: "store_inv (sample_store limit, sample_disk)"
  by (simp add: store_inv_def accounted_def stored_def wf_layout_def tmp_name_code sample_store_def
      sample_disk_def open_disk_def StorageManager_def meta_bytes_def fs_read_def chunkPath_def)

text \<open>With a limit of five bytes the older chunk goes and the newer one stays.\<close>

lemma sample_evict:
  "evict_loop (sample_store 5) sample_disk
   = (sample_store 5\<lparr>st_usedBytes := 4, st_meta := [(''a'', \<lparr>cm_size = 4, cm_lastAccess = 2\<rparr>)]\<rparr>,
      fs_remove sample_disk ''p/chunks/b'')"
  by (subst evict_loop.simps, subst evict_loop.simps)
    (simp add: sample_store_def StorageManager_def chunkPath_def Let_def)

theorem enforceLimit_lru_witness:
  "\<exists>vs st' d'. enforceLimit (sample_store 5) sample_disk = (st', d') \<and> map fst (st_meta st') = [''a'']
    \<and> mset (st_meta (sample_store 5)) = mset vs + mset (st_meta st')
    \<and> st_usedBytes st' \<le> 5 \<and> store_inv (st', d')"
proof -
  obtain st' d' where r: "enforceLimit (sample_store 5) sample_disk = (st', d')" by fastforce
  have "map fst (st_meta st') = [''a'']"
    using r unfolding enforceLimit_def sample_evict by (auto simp: sample_store_def StorageManager_def)
  moreover have "st_maxBytes (sample_store 5) = 5" by (simp add: sample_store_def StorageManager_def)
  ultimately show ?thesis
    using enforceLimit_lru [OF sample_store_inv _ r] r by fastforce
qed

text \<open>
  When a store is expected to succeed: a proper name, a file system that lets the
  temporary file be written and renamed, and counters that do not wrap.
\<close>

definition storable :: "string \<Rightarrow> bytes \<Rightarrow> storage \<times> disk \<Rightarrow> bool" where
  "storable hash data = (\<lambda>(st, d). hash \<noteq> [] \<and> \<not> tmp_name hash
     \<and> can_open d (chunkPath st hash @ ''.tmp'') \<and> can_rename d (chunkPath st hash @ ''.tmp'') (chunkPath st hash)
     \<and> st_accessCounter st \<noteq> - 1 \<and> meta_bytes (st_meta st) + length data < 2 ^ 64)"

definition with_chunk :: "string \<Rightarrow> bytes \<Rightarrow> storage \<Rightarrow> storage" where
  "with_chunk hash data st =
     (let st1 = (case map_of (st_meta st) hash of None \<Rightarrow> st | Some m \<Rightarrow> uncount m st);
          c = st_accessCounter st1 + 1 in
      st1\<lparr>st_accessCounter := c,
          st_meta := AList.update hash \<lparr>cm_size = of_nat (length data), cm_lastAccess = c\<rparr> (st_meta st1),
          st_usedBytes := st_usedBytes st1 + of_nat (length data)\<rparr>)"

lemma with_chunk_simps [simp]:
  "st_meta (with_chunk hash data st) = AList.update hash
     \<lparr>cm_size = of_nat (length data), cm_lastAccess = st_accessCounter st + 1\<rparr> (st_meta st)"
  "st_accessCounter (with_chunk hash data st) = st_accessCounter st + 1"
  "st_maxBytes (with_chunk hash data st) = st_maxBytes st"
  "chunkPath (with_chunk hash data st) = chunkPath st"
  "wf_layout (with_chunk hash data st) = wf_layout st"
  by (auto simp: with_chunk_def uncount_def Let_def split: option.splits)

lemma uncounted_bytes:
  assumes "accounted st"
  shows "unat (st_usedBytes (case map_of (st_meta st) hash of None \<Rightarrow> st | Some m \<Rightarrow> uncount m st))
    = meta_bytes (AList.delete hash (st_meta st))"
proof (cases "map_of (st_meta st) hash")
  case None
  then have "hash \<notin> fst ` set (st_meta st)" by (simp add: map_of_eq_None_iff)
  with None show ?thesis using accountedD(2) [OF assms] by (simp add: delete_notin)
next
  case (Some m)
  then have m: "(hash, m) \<in> set (st_meta st)" by (rule map_of_SomeD)
  have b: "meta_bytes (st_meta st) = unat (cm_size m) + meta_bytes (AList.delete hash (st_meta st))"
    by (rule meta_bytes_delete [OF accountedD(1) [OF assms] m])
  then have "cm_size m \<le> st_usedBytes st" using accountedD(2) [OF assms] by (simp add: word_le_nat_alt)
  with b Some show ?thesis
    using accountedD(2) [OF assms] by (simp add: uncount_def unat_diff_no_wrap)
qed

lemma delete_bytes_le: "meta_bytes (AList.delete k al) \<le> meta_bytes al"
  by (induction al) auto

text \<open>Setting one entry to a new access time keeps the invariant when the bytes are right.\<close>

lemma accounted_set:
  assumes "accounted st" "st_accessCounter st \<noteq> - 1"
    "unat used = unat sz + meta_bytes (AList.delete hash (st_meta st))"
  shows "accounted (st\<lparr>st_accessCounter := st_accessCounter st + 1,
    st_meta := AList.update hash \<lparr>cm_size = sz, cm_lastAccess = st_accessCounter st + 1\<rparr> (st_meta st),
    st_usedBytes := used\<rparr>)"
proof -
  note acc = accountedD [OF assms(1)]
  let ?c = "st_accessCounter st + 1"
  let ?m = "\<lparr>cm_size = sz, cm_lastAccess = ?c\<rparr>"
  let ?del = "AList.delete hash (st_meta st)"
  have c: "unat ?c = unat (st_accessCounter st) + 1" by (rule unat_succ_no_wrap [OF assms(2)])
  have old: "la e < ?c" if "e \<in> set (st_meta st)" for e
    using acc(3) [OF that] c by (simp add: word_le_nat_alt word_less_nat_alt)
  have ms: "mset (AList.update hash ?m (st_meta st)) = mset ((hash, ?m) # ?del)"
    using mset_update [OF acc(1)] by simp
  have "mset (map la (AList.update hash ?m (st_meta st))) = mset (map la ((hash, ?m) # ?del))"
    using ms by (metis mset_map)
  moreover have "distinct (map la ((hash, ?m) # ?del))"
    using acc(4) old by (auto simp: delete_as_filter intro!: distinct_map_filter dest!: old)
  ultimately have d: "distinct (map la (AList.update hash ?m (st_meta st)))"
    by (metis mset_eq_imp_distinct_iff)
  have le: "la e \<le> ?c" if "e \<in> set (AList.update hash ?m (st_meta st))" for e
    using that less_imp_le [OF old, of e] by (auto simp: set_update_iff [OF acc(1)])
  show ?thesis
    using acc(1) d le assms(3) by (auto simp: accounted_def meta_bytes_update)
qed

lemma accounted_with_chunk:
  assumes "accounted st" "st_accessCounter st \<noteq> - 1" "meta_bytes (st_meta st) + length data < 2 ^ 64"
  shows "accounted (with_chunk hash data st)"
proof -
  let ?n = "of_nat (length data) :: u64"
  let ?u = "st_usedBytes (case map_of (st_meta st) hash of None \<Rightarrow> st | Some m \<Rightarrow> uncount m st)"
  have sz: "unat ?n = length data" using assms(3) by (intro unat_of_nat_u64) simp
  have "unat (?u + ?n) = unat ?n + meta_bytes (AList.delete hash (st_meta st))"
    using uncounted_bytes [OF assms(1), of hash] assms(3) delete_bytes_le [of hash "st_meta st"] sz
    by (subst unat_add_no_wrap) auto
  from accounted_set [OF assms(1,2) this] show ?thesis
    by (auto simp: with_chunk_def uncount_def Let_def split: option.splits)
qed

text \<open>The file operations of a store that succeeds.\<close>

definition writable :: "string \<Rightarrow> storage \<times> disk \<Rightarrow> bool" where
  "writable hash = (\<lambda>(st, d). can_open d (chunkPath st hash @ ''.tmp'')
     \<and> can_rename d (chunkPath st hash @ ''.tmp'') (chunkPath st hash))"

lemma storeChunk_files:
  assumes "hash \<noteq> []" "writable hash (st, d)"
  shows "\<exists>d1 d2. fs_write d (chunkPath st hash @ ''.tmp'') data = Some d1
    \<and> fs_rename d1 (chunkPath st hash @ ''.tmp'') (chunkPath st hash) = Some d2
    \<and> storeChunk hash data (st, d) = (Inr (), enforceLimit (with_chunk hash data st) d2)
    \<and> can_open d2 = can_open d \<and> can_rename d2 = can_rename d"
proof -
  let ?tmp = "chunkPath st hash @ ''.tmp''" and ?fin = "chunkPath st hash"
  have pre: "can_open d ?tmp" "can_rename d ?tmp ?fin"
    using assms(2) by (auto simp: writable_def)
  obtain d1 where d1: "fs_write d ?tmp data = Some d1" using pre(1) by (simp add: fs_write_def)
  have "fs_read d1 ?tmp = Some data" by (simp add: fs_read_write [OF d1])
  moreover have "can_rename d1 ?tmp ?fin" using can_write_rename(1) [OF d1] pre(2) by simp
  ultimately obtain d2 where d2: "fs_rename d1 ?tmp ?fin = Some d2" using fs_rename_Some by blast
  have "storeChunk hash data (st, d) = (Inr (), enforceLimit (with_chunk hash data st) d2)"
    using assms(1) d1 d2 by (simp add: storeChunk_def with_chunk_def Let_def)
  then show ?thesis using d1 d2 can_write_rename(1) [OF d1] can_write_rename(2) [OF d2] by auto
qed

lemma storable_files:
  assumes "storable hash data (st, d)"
  shows "\<exists>d1 d2. fs_write d (chunkPath st hash @ ''.tmp'') data = Some d1
    \<and> fs_rename d1 (chunkPath st hash @ ''.tmp'') (chunkPath st hash) = Some d2
    \<and> storeChunk hash data (st, d) = (Inr (), enforceLimit (with_chunk hash data st) d2)
    \<and> can_open d2 = can_open d \<and> can_rename d2 = can_rename d"
  using assms by (intro storeChunk_files) (auto simp: storable_def writable_def)

lemma storeChunk_storable:
  assumes "store_inv (st, d)" "storable hash data (st, d)"
  shows "\<exists>d2. storeChunk hash data (st, d) = (Inr (), enforceLimit (with_chunk hash data st) d2)
    \<and> store_inv (with_chunk hash data st, d2)
    \<and> contents (with_chunk hash data st, d2) = (contents (st, d))(hash \<mapsto> data)
    \<and> can_open d2 = can_open d \<and> can_rename d2 = can_rename d"
proof -
  let ?tmp = "chunkPath st hash @ ''.tmp''" and ?fin = "chunkPath st hash"
  have pre: "\<not> tmp_name hash" "st_accessCounter st \<noteq> - 1" "meta_bytes (st_meta st) + length data < 2 ^ 64"
    using assms(2) by (auto simp: storable_def)
  obtain d1 d2 where d1: "fs_write d ?tmp data = Some d1" and d2: "fs_rename d1 ?tmp ?fin = Some d2"
    and run: "storeChunk hash data (st, d) = (Inr (), enforceLimit (with_chunk hash data st) d2)"
    and can: "can_open d2 = can_open d" "can_rename d2 = can_rename d"
    using storable_files [OF assms(2)] by blast
  have read: "fs_read d2 (chunkPath st k) = (if k = hash then Some data
      else if k = hash @ ''.tmp'' then None else fs_read d (chunkPath st k))" for k
    by (simp add: fs_read_rename [OF d2] fs_read_write [OF d1] chunkPath_tmp eq_commute [of "chunkPath st k"])
  have acc: "accounted (with_chunk hash data st)"
    using accounted_with_chunk [OF store_invD(1) [OF assms(1)]] pre by blast
  have sz: "unat (of_nat (length data) :: u64) = length data"
    using pre(3) by (intro unat_of_nat_u64) simp
  have keys: "(k, m) \<in> set (st_meta st) \<Longrightarrow> k \<noteq> hash @ ''.tmp''" for k m
    using storedD [OF store_invD(2) [OF assms(1)]] by (auto simp: tmp_name_def)
  have st: "stored (with_chunk hash data st) d2"
    using store_invD(2) [OF assms(1)] pre(1) keys
    by (auto simp: stored_def set_update_iff accountedD(1) [OF store_invD(1) [OF assms(1)]] read sz)
  have "contents (with_chunk hash data st, d2) = (contents (st, d))(hash \<mapsto> data)"
  proof
    fix k
    have "hasChunk (with_chunk hash data st) k \<longleftrightarrow> k = hash \<or> hasChunk st k" by (simp add: hasChunk_def)
    moreover have "hasChunk st k \<Longrightarrow> k \<noteq> hash @ ''.tmp''" using keys by (auto simp: hasChunk_mem)
    ultimately show "contents (with_chunk hash data st, d2) k = ((contents (st, d))(hash \<mapsto> data)) k"
      by (auto simp: contents_def read)
  qed
  with run acc st can show ?thesis by (auto simp: store_inv_def)
qed

lemma last_of_sorted:
  assumes "sorted_wrt (\<lambda>a b. f a < f b) xs" "x \<in> set xs" "\<And>y. y \<in> set xs \<Longrightarrow> \<not> f x < (f y :: 'b :: order)"
  shows "last xs = x"
  using assms
proof (induction xs)
  case (Cons a xs)
  show ?case
  proof (cases xs)
    case (Cons b ys)
    have "x \<noteq> a" using Cons.prems [unfolded Cons] Cons by auto
    with Cons.IH Cons.prems Cons show ?thesis by auto
  qed (use Cons.prems in simp)
qed simp

lemma enforceLimit_shrinks:
  assumes "store_inv (st, d)" "st_maxBytes st \<noteq> 0" "enforceLimit st d = (st', d')"
  shows "contents (st', d') \<subseteq>\<^sub>m contents (st, d)"
proof -
  obtain vs :: "(string \<times> chunk_meta) list" where
    "\<forall>k. contents (st', d') k = (if k \<in> fst ` set vs then None else contents (st, d) k)"
    using enforceLimit_spec [OF assms] by blast
  then show ?thesis by (simp add: map_le_def dom_def)
qed

text \<open>The entry used last is evicted only when it is larger than the limit.\<close>

lemma enforceLimit_newest:
  assumes inv: "store_inv (st, d)" and lim: "st_maxBytes st \<noteq> 0" and r: "enforceLimit st d = (st', d')"
    and n: "n \<in> set (st_meta st)" "\<forall>e \<in> set (st_meta st). la e \<le> la n"
  shows "contents (st', d') (fst n)
    = (if unat (cm_size (snd n)) \<le> unat (st_maxBytes st) then contents (st, d) (fst n) else None)"
proof -
  obtain vs where vs: "\<forall>v \<in> set vs. \<forall>e \<in> set (st_meta st'). la v < la e"
    "sorted_wrt (\<lambda>a b. la a < la b) vs" "mset (st_meta st) = mset vs + mset (st_meta st')"
    "\<forall>k. contents (st', d') k = (if k \<in> fst ` set vs then None else contents (st, d) k)"
    "vs \<noteq> [] \<longrightarrow> unat (st_maxBytes st) < unat (st_usedBytes st') + unat (cm_size (snd (last vs)))"
    "st_usedBytes st' \<le> st_maxBytes st" "store_inv (st', d')"
    using enforceLimit_spec [OF inv lim r] by auto
  have sets: "set (st_meta st) = set vs \<union> set (st_meta st')" using arg_cong [OF vs(3), of set_mset] by simp
  have "e = n" if "e \<in> set vs" "fst e = fst n" for e
    using that accountedD(1) [OF store_invD(1) [OF inv]] n(1) sets by (metis UnI1 distinct_map inj_onD)
  then have "fst n \<in> fst ` set vs \<longleftrightarrow> n \<in> set vs" by force
  moreover have "n \<in> set vs \<longleftrightarrow> \<not> unat (cm_size (snd n)) \<le> unat (st_maxBytes st)"
  proof (cases "n \<in> set vs")
    case True
    then have "st_meta st' = []" using vs(1) n(2) sets by (cases "st_meta st'") force+
    then have "unat (st_usedBytes st') = 0"
      using accountedD(2) [OF store_invD(1) [OF vs(7)]] by (simp add: meta_bytes_def)
    moreover have "last vs = n" using n(2) sets by (intro last_of_sorted [OF vs(2) True]) (simp add: leD)
    ultimately show ?thesis using vs(5) True by auto
  next
    case False
    then have "n \<in> set (st_meta st')" using n(1) sets by blast
    then have "unat (cm_size (snd n)) \<le> unat (st_usedBytes st')"
      using accountedD(2) [OF store_invD(1) [OF vs(7)]] entry_size_le [of "fst n" "snd n" "st_meta st'"] by simp
    then show ?thesis using vs(6) False by (simp add: word_le_nat_alt)
  qed
  ultimately show ?thesis using vs(4) by simp
qed

text \<open>
  C6: A store that the file system permits succeeds, keeps the accounting and the files
  consistent, and leaves at most \<^verbatim>\<open>maxBytes_\<close> bytes in use. The chunk is held afterwards
  exactly when the limit is off or at least its size (otherwise it is evicted at once,
  although the store reports success); every other chunk keeps its content or is evicted.
\<close>

theorem storeChunk_correct:
  assumes "store_inv (st, d)" "storable hash data (st, d)"
  shows "\<exists>st' d'. storeChunk hash data (st, d) = (Inr (), st', d') \<and> store_inv (st', d')
    \<and> (st_maxBytes st = 0 \<or> st_usedBytes st' \<le> st_maxBytes st)
    \<and> contents (st', d') \<subseteq>\<^sub>m (contents (st, d))(hash \<mapsto> data)
    \<and> (contents (st', d') hash = Some data \<longleftrightarrow> st_maxBytes st = 0 \<or> length data \<le> unat (st_maxBytes st))"
proof -
  let ?st = "with_chunk hash data st"
    and ?n = "(hash, \<lparr>cm_size = of_nat (length data), cm_lastAccess = st_accessCounter st + 1\<rparr>)"
  obtain d2 where run: "storeChunk hash data (st, d) = (Inr (), enforceLimit ?st d2)"
    and inv: "store_inv (?st, d2)" and con: "contents (?st, d2) = (contents (st, d))(hash \<mapsto> data)"
    using storeChunk_storable [OF assms] by blast
  show ?thesis
  proof (cases "st_maxBytes st = 0")
    case True
    then show ?thesis using run inv con by (simp add: enforceLimit_def)
  next
    case False
    obtain st' d' where r: "enforceLimit ?st d2 = (st', d')" by fastforce
    have new: "?n \<in> set (st_meta ?st)" by (simp add: set_update_iff accountedD(1) [OF store_invD(1) [OF assms(1)]])
    have newest: "\<forall>e \<in> set (st_meta ?st). la e \<le> la ?n"
      using accountedD(3) [OF store_invD(1) [OF inv]] by simp
    have "unat (of_nat (length data) :: u64) = length data"
      using assms(2) by (simp add: storable_def unat_of_nat_u64)
    then have "contents (st', d') hash = Some data \<longleftrightarrow> length data \<le> unat (st_maxBytes st)"
      using enforceLimit_newest [OF inv _ r new newest] False by (simp add: con)
    moreover have "contents (st', d') \<subseteq>\<^sub>m (contents (st, d))(hash \<mapsto> data)"
      using enforceLimit_shrinks [OF inv _ r] False by (simp add: con)
    ultimately show ?thesis using run r False enforceLimit_spec [OF inv _ r] by auto
  qed
qed

theorem storeChunk_correct_witness:
  "\<exists>st' d'. storeChunk ''c'' ''new'' (sample_store 6, sample_disk) = (Inr (), st', d') \<and> store_inv (st', d')
    \<and> st_usedBytes st' \<le> 6 \<and> contents (st', d') ''c'' = Some ''new''"
proof -
  have "storable ''c'' ''new'' (sample_store 6, sample_disk)"
    by (simp add: storable_def tmp_name_code sample_store_def sample_disk_def open_disk_def StorageManager_def
        meta_bytes_def)
  moreover have "st_maxBytes (sample_store 6) = 6" by (simp add: sample_store_def StorageManager_def)
  ultimately show ?thesis
    using storeChunk_correct [OF sample_store_inv, of "''c''" "''new''" 6] by auto
qed

end
