(* ===== verification/Chunk_Store.thy ===== *)
theory Chunk_Store
  imports Storage_Manager
begin

text \<open>
  What a client of the storage manager may rely on. The first sections complete the
  theorems on single operations (load, delete, a failed overwrite, the independence of
  the eviction from the hash map's order) and on a restart of the peer: metadata that
  were written are read back, metadata that are missing are rebuilt, and with no byte
  limit the metadata are not written at all. The locale \<open>chunk_store\<close> then states the
  contract between the storage manager and the peer service.
\<close>

section \<open>Loading and deleting\<close>

lemma touch_some:
  "map_of (st_meta st) hash = Some m \<Longrightarrow> touch hash st = st\<lparr>st_accessCounter := st_accessCounter st + 1,
     st_meta := AList.update hash \<lparr>cm_size = cm_size m, cm_lastAccess = st_accessCounter st + 1\<rparr> (st_meta st),
     st_usedBytes := st_usedBytes st\<rparr>"
  by (cases m) (simp add: touch_def Let_def)

lemma accounted_touch:
  assumes "accounted st" "st_accessCounter st \<noteq> - 1"
  shows "accounted (touch hash st)"
proof (cases "map_of (st_meta st) hash")
  case None
  with assms show ?thesis by (simp add: touch_def)
next
  case (Some m)
  have "unat (st_usedBytes st) = unat (cm_size m) + meta_bytes (AList.delete hash (st_meta st))"
    using meta_bytes_delete [OF accountedD(1) [OF assms(1)] map_of_SomeD [OF Some]] accountedD(2) [OF assms(1)]
    by simp
  from accounted_set [OF assms this] show ?thesis by (simp only: touch_some [OF Some])
qed

lemma touch_simps [simp]:
  "chunkPath (touch hash st) = chunkPath st" "wf_layout (touch hash st) = wf_layout st"
  "hasChunk (touch hash st) k = hasChunk st k" "st_metaPath (touch hash st) = st_metaPath st"
  "st_maxBytes (touch hash st) = st_maxBytes st" "st_usedBytes (touch hash st) = st_usedBytes st"
  by (auto simp: touch_def hasChunk_def Let_def split: option.splits)

lemma stored_touch: 
  assumes "stored st d" "accounted st"
  shows "stored (touch hash st) d"
proof (cases "map_of (st_meta st) hash")
  case None
  with assms show ?thesis by (simp add: touch_def)
next
  case (Some m)
  show ?thesis
    using storedD [OF assms(1)] map_of_SomeD [OF Some] assms(1)
    by (fastforce simp: stored_def touch_some [OF Some] set_update_iff accountedD(1) [OF assms(2)])
qed

lemma contents_touch [simp]: "contents (touch hash st, d) = contents (st, d)"
  by (simp add: contents_def fun_eq_iff)

lemma persist_store_inv:
  "store_inv (st, d) \<Longrightarrow> store_inv (st, persistMetadata st d) \<and> contents (st, persistMetadata st d) = contents (st, d)"
  using persist_inv [of st d] by (auto simp: store_inv_def)

lemma touch_recent:
  assumes "accounted st" "st_accessCounter st \<noteq> - 1" "map_of (st_meta st) k = Some m"
  shows "\<exists>m'. map_of (st_meta (touch k st)) k = Some m'
    \<and> (\<forall>e \<in> set (st_meta (touch k st)). fst e \<noteq> k \<longrightarrow> la e < cm_lastAccess m')"
proof -
  have "la e < st_accessCounter st + 1" if "e \<in> set (st_meta st)" for e
    using accountedD(3) [OF assms(1) that] unat_succ_no_wrap [OF assms(2)]
    by (simp add: word_le_nat_alt word_less_nat_alt)
  then show ?thesis
    by (auto simp: touch_some [OF assms(3)] set_update_iff [OF accountedD(1) [OF assms(1)]])
qed

text \<open>
  Loading a chunk that is held returns its content and changes no content; the
  accounting stays exact and the chunk becomes the most recently used one, so it is the
  last that a later eviction takes.
\<close>

theorem loadChunk_correct:
  assumes "store_inv (st, d)" "st_accessCounter st \<noteq> - 1" "contents (st, d) k = Some v"
  shows "\<exists>st' d' m. loadChunk k (st, d) = (Inr v, st', d')
      \<and> store_inv (st', d') \<and> contents (st', d') = contents (st, d) \<and> st_usedBytes st' = st_usedBytes st
      \<and> map_of (st_meta st') k = Some m \<and> (\<forall>e \<in> set (st_meta st'). fst e \<noteq> k \<longrightarrow> la e < cm_lastAccess m)"
proof -
  have v: "fs_read d (chunkPath st k) = Some v" "hasChunk st k" using assms(3) by (simp_all add: contents_iff)
  then obtain m where "map_of (st_meta st) k = Some m" by (auto simp: hasChunk_def)
  then obtain m' where "map_of (st_meta (touch k st)) k = Some m'"
      "\<forall>e \<in> set (st_meta (touch k st)). fst e \<noteq> k \<longrightarrow> la e < cm_lastAccess m'"
    using touch_recent [OF store_invD(1) [OF assms(1)] assms(2)] by blast
  moreover have "loadChunk k (st, d) = (Inr v, touch k st, persistMetadata (touch k st) d)"
    using v by (simp add: loadChunk_def Let_def)
  moreover have "store_inv (touch k st, d)"
    using assms(1,2) by (simp add: store_inv_def accounted_touch stored_touch)
  ultimately show ?thesis using persist_store_inv [of "touch k st" d] by auto
qed

lemmas sample_simps = sample_store_def sample_disk_def open_disk_def StorageManager_def
  contents_def hasChunk_def chunkPath_def fs_read_def

theorem loadChunk_correct_witness:
  "\<exists>st' d' m. loadChunk ''b'' (sample_store 9, sample_disk) = (Inr ''old'', st', d')
    \<and> store_inv (st', d') \<and> contents (st', d') ''a'' = Some ''data'' \<and> map_of (st_meta st') ''b'' = Some m"
proof -
  have "contents (sample_store 9, sample_disk) ''b'' = Some ''old''"
    "contents (sample_store 9, sample_disk) ''a'' = Some ''data''"
    "st_accessCounter (sample_store 9) \<noteq> - 1" by (simp_all add: sample_simps)
  with loadChunk_correct [OF sample_store_inv, of 9 "''b''" "''old''"] show ?thesis by fastforce
qed

text \<open>
  Deleting a chunk removes exactly that chunk: every other content is untouched and
  the accounting stays exact. Deleting a chunk that is not held is a no-op on the contents.
\<close>

theorem deleteChunk_correct:
  assumes "store_inv (st, d)" "deleteChunk hash (st, d) = (st', d')"
  shows "store_inv (st', d') \<and> contents (st', d') = (contents (st, d))(hash := None)
    \<and> unat (st_usedBytes st') + unat (case map_of (st_meta st) hash of None \<Rightarrow> 0 | Some m \<Rightarrow> cm_size m)
        = unat (st_usedBytes st)"
proof -
  define st1 where "st1 = (case map_of (st_meta st) hash of None \<Rightarrow> st
    | Some m \<Rightarrow> (uncount m st)\<lparr>st_meta := AList.delete hash (st_meta st)\<rparr>)"
  let ?d1 = "fs_remove d (chunkPath st hash)"
  note acc = accountedD [OF store_invD(1) [OF assms(1)]]
  have meta1: "st_meta st1 = AList.delete hash (st_meta st)"
    using delete_notin [of hash "st_meta st"]
    by (auto simp: st1_def map_of_eq_None_iff [symmetric] split: option.splits)
  have same: "chunkPath st1 = chunkPath st" "wf_layout st1 = wf_layout st"
      "st_accessCounter st1 = st_accessCounter st"
    by (auto simp: st1_def uncount_def split: option.splits)
  have used: "unat (st_usedBytes st1) = meta_bytes (st_meta st1)"
    using uncounted_bytes [OF store_invD(1) [OF assms(1)], of hash] unfolding meta1
    by (auto simp: st1_def uncount_def split: option.splits if_splits)
  have "accounted st1"
    unfolding accounted_def using used acc
    by (auto simp: meta1 same delete_as_filter intro: distinct_map_filter)
  moreover have "stored st1 ?d1"
  proof (rule stored_frame [OF store_invD(2) [OF assms(1)] _ same(1)])
    show "wf_layout st1" using store_invD(2) [OF assms(1)] by (simp add: same stored_def)
  qed (auto simp: meta1 delete_as_filter fs_read_remove)
  moreover have "contents (st1, ?d1) = (contents (st, d))(hash := None)"
    by (auto simp: contents_def hasChunk_def meta1 same fs_read_remove fun_eq_iff)
  moreover have "unat (st_usedBytes st1) + unat (case map_of (st_meta st) hash of None \<Rightarrow> 0 | Some m \<Rightarrow> cm_size m)
        = unat (st_usedBytes st)"
    using used acc(2) meta_bytes_delete [OF acc(1), of hash]
    by (auto simp: meta1 delete_notin map_of_eq_None_iff dest: map_of_SomeD split: option.splits)
  moreover have "st' = st1" "d' = persistMetadata st1 ?d1"
    using assms(2) by (auto simp: deleteChunk_def st1_def Let_def)
  ultimately show ?thesis using persist_store_inv [of st1 ?d1] by (simp add: store_inv_def)
qed

theorem deleteChunk_correct_witness:
  "\<exists>st' d'. deleteChunk ''a'' (sample_store 9, sample_disk) = (st', d') \<and> store_inv (st', d')
    \<and> contents (st', d') ''a'' = None \<and> contents (st', d') ''b'' = Some ''old''"
proof -
  obtain st' d' where r: "deleteChunk ''a'' (sample_store 9, sample_disk) = (st', d')" by fastforce
  have "contents (sample_store 9, sample_disk) ''b'' = Some ''old''" by (simp add: sample_simps)
  with deleteChunk_correct [OF sample_store_inv r] r show ?thesis by simp
qed

section \<open>A failed overwrite\<close>

text \<open>
  C38: When the file system refuses the temporary file, storing over a chunk that is held
  throws, but \<^verbatim>\<open>usedBytes_\<close> has already lost the bytes of the old content, which is still
  held: the counter no longer is the sum of the sizes, by exactly those bytes.
\<close>

theorem storeChunk_failed_overwrite:
  assumes "store_inv (st, d)" "map_of (st_meta st) hash = Some m" "hash \<noteq> []"
    "\<not> can_open d (chunkPath st hash @ ''.tmp'')"
  shows "\<exists>e st'. storeChunk hash data (st, d) = (Inl e, st', d) \<and> contents (st', d) = contents (st, d)
    \<and> meta_bytes (st_meta st') = unat (st_usedBytes st') + unat (cm_size m)
    \<and> (accounted st' \<longleftrightarrow> cm_size m = 0)"
proof -
  note acc = store_invD(1) [OF assms(1)]
  let ?st' = "uncount m st"
  have run: "storeChunk hash data (st, d)
      = (Inl (Runtime_error (''storeChunk: failed to open temp file for '' @ hash)), ?st', d)"
    using assms(2-4) by (simp add: storeChunk_def fs_write_def Let_def)
  have "unat (st_usedBytes ?st') = meta_bytes (AList.delete hash (st_meta st))"
    using uncounted_bytes [OF acc, of hash] assms(2) by simp
  then have bytes: "meta_bytes (st_meta ?st') = unat (st_usedBytes ?st') + unat (cm_size m)"
    using meta_bytes_delete [OF accountedD(1) [OF acc] map_of_SomeD [OF assms(2)]]
    by (simp add: uncount_def)
  have "accounted ?st' \<longleftrightarrow> unat (cm_size m) = 0"
    using bytes accountedD [OF acc] by (auto simp: accounted_def uncount_def)
  moreover have "contents (?st', d) = contents (st, d)"
    by (simp add: contents_def hasChunk_def uncount_def fun_eq_iff chunkPath_def)
  ultimately show ?thesis using run bytes by (simp add: unat_eq_zero)
qed

theorem storeChunk_failed_overwrite_witness:
  "\<exists>e st'. storeChunk ''a'' ''new'' (sample_store 9, sample_disk\<lparr>can_open := \<lambda>_. False\<rparr>)
      = (Inl e, st', sample_disk\<lparr>can_open := \<lambda>_. False\<rparr>) \<and> \<not> accounted st'"
proof -
  let ?d = "sample_disk\<lparr>can_open := \<lambda>_. False\<rparr>"
  have "store_inv (sample_store 9, ?d)"
    using sample_store_inv [of 9] by (simp add: store_inv_def stored_def fs_read_def)
  moreover have "map_of (st_meta (sample_store 9)) ''a'' = Some \<lparr>cm_size = 4, cm_lastAccess = 2\<rparr>"
    by (simp add: sample_simps)
  ultimately show ?thesis
    using storeChunk_failed_overwrite [of "sample_store 9" ?d "''a''" _ "''new''"] by fastforce
qed

section \<open>Restarting a peer\<close>

lemma read_entry_line:
  assumes "is_token k" "isspace c"
  shows "read_entry (istringstream (c # meta_line (k, m) @ t)) = ((k, m), istringstream (NL # t))"
  using assms by (cases m) (simp add: read_entry_def meta_line_def text_simps)

lemma read_entry_end: "in_fail (snd (read_entry (istringstream [NL])))"
proof -
  have "in_fail (snd (read_token [] (istringstream [NL])))" by (rule tok.extract_blank) simp
  then show ?thesis by (auto simp: read_entry_def u64c.extract_failed split: prod.splits)
qed

lemma read_entries_lines:
  assumes "\<forall>e \<in> set al. is_token (fst e)" "distinct (map fst (meta @ al))"
  shows "read_entries (istringstream (NL # concat (map meta_line al))) meta = meta @ al"
  using assms
proof (induction al arbitrary: meta)
  case Nil
  show ?case using read_entry_end by (subst read_entries.simps) (auto split: prod.splits)
next
  case (Cons e al)
  obtain k m where e: "e = (k, m)" by (cases e)
  have "read_entries (istringstream (NL # concat (map meta_line (e # al)))) meta
      = read_entries (istringstream (NL # concat (map meta_line al))) (AList.update k m meta)"
    using Cons.prems by (subst read_entries.simps) (simp add: e read_entry_line)
  moreover have "AList.update k m meta = meta @ [(k, m)]"
    using Cons.prems e by (intro update_notin) auto
  ultimately show ?case using Cons.IH [of "meta @ [(k, m)]"] Cons.prems by (simp add: e)
qed

lemma loadMetadata_text:
  assumes "fs_read d (st_metaPath st0) = Some (metadata_text st)" "distinct (map fst (st_meta st))"
    "\<forall>e \<in> set (st_meta st). is_token (fst e)"
  shows "loadMetadata st0 d = (st0\<lparr>st_accessCounter := st_accessCounter st,
    st_usedBytes := st_usedBytes st, st_meta := st_meta st\<rparr>, d)"
  using assms(1) read_entries_lines [OF assms(3), of "[]"] assms(2)
  by (simp add: loadMetadata_def metadata_text_def text_simps Let_def)

lemma init_eq_loadMetadata:
  "\<exists>d0. init st d = loadMetadata st d0 \<and> files d0 = files d \<and> (\<forall>p. fs_read d0 p = fs_read d p)
     \<and> (can_mkdir d (st_chunksDir st) \<longrightarrow> fs_exists d0 (st_chunksDir st))"
  by (auto simp: init_def Let_def create_directories_def fs_read_def fs_exists_def)

lemma restart_reads_back:
  assumes "wf_layout st" "accounted st" "\<forall>e \<in> set (st_meta st). is_token (fst e)"
    "can_open d (st_metaPath st)"
  shows "\<exists>d'. init (StorageManager (st_baseDir st) (st_maxBytes st)) (persistMetadata st d) = (st, d')
    \<and> contents (st, d') = contents (st, d)"
proof -
  let ?fresh = "StorageManager (st_baseDir st) (st_maxBytes st)"
  obtain d0 where d0: "init ?fresh (persistMetadata st d) = loadMetadata ?fresh d0"
      "\<forall>p. fs_read d0 p = fs_read (persistMetadata st d) p"
    using init_eq_loadMetadata by blast
  have paths: "st_metaPath ?fresh = st_metaPath st" using assms(1) by (simp add: StorageManager_def wf_layout_def)
  have "fs_read d0 (st_metaPath ?fresh) = Some (metadata_text st)"
    using d0(2) persist_eq_Some [OF assms(4)] by (simp add: paths)
  from loadMetadata_text [OF this accountedD(1) [OF assms(2)] assms(3)]
  have "loadMetadata ?fresh d0 = (st, d0)"
    using assms(1) by (cases st) (simp add: StorageManager_def wf_layout_def)
  moreover have "fs_read d0 (chunkPath st k) = fs_read d (chunkPath st k)" for k
    using d0(2) fs_read_persist [OF chunkPath_not_meta [OF assms(1)]] by simp
  then have "contents (st, d0) = contents (st, d)" by (simp add: contents_def fun_eq_iff)
  ultimately show ?thesis using d0(1) by simp
qed

text \<open>
  C28: The metadata file round trip: a peer restarted on a directory whose \<^verbatim>\<open>metadata.db\<close>
  was written by \<^verbatim>\<open>persistMetadata\<close> gets back the counters and every entry, in order, and
  holds the same chunks. Chunk names must be free of white space, as hash names are.
\<close>

theorem restart_roundtrip:
  assumes "wf_layout st" "accounted st" "\<forall>e \<in> set (st_meta st). is_token (fst e)"
    "can_open d (st_metaPath st)"
  shows "\<exists>d'. init (StorageManager (st_baseDir st) (st_maxBytes st)) (persistMetadata st d) = (st, d')
    \<and> contents (st, d') = contents (st, d)"
  by (rule restart_reads_back [OF assms])

theorem restart_roundtrip_witness:
  "\<exists>d'. init (StorageManager ''p'' 9) (persistMetadata (sample_store 9) sample_disk) = (sample_store 9, d')
    \<and> contents (sample_store 9, d') ''a'' = Some ''data''"
proof -
  have "contents (sample_store 9, sample_disk) ''a'' = Some ''data''" "st_baseDir (sample_store 9) = ''p''"
      "st_maxBytes (sample_store 9) = 9" "can_open sample_disk (st_metaPath (sample_store 9))"
      "\<forall>e \<in> set (st_meta (sample_store 9)). is_token (fst e)"
    by (simp_all add: sample_simps is_token_def isspace_def)
  moreover have "wf_layout (sample_store 9)" "accounted (sample_store 9)"
    using sample_store_inv [of 9] by (simp_all add: store_inv_def stored_def)
  ultimately show ?thesis using restart_roundtrip [of "sample_store 9" sample_disk] by auto
qed

text \<open>
  With no byte limit (\<^verbatim>\<open>maxBytes_ == 0\<close>) a store writes no metadata. A chunk stored on
  top of persisted metadata is reported as absent by \<^verbatim>\<open>hasChunk\<close> after a restart, although
  its file is still there and \<^verbatim>\<open>loadChunk\<close> still returns it.
\<close>

theorem unlimited_store_forgotten:
  assumes "store_inv (st, d)" "storable hash data (st, d)" "st_maxBytes st = 0" "\<not> hasChunk st hash"
    "\<forall>e \<in> set (st_meta st). is_token (fst e)" "fs_read d (st_metaPath st) = Some (metadata_text st)"
  shows "\<exists>st' d' st2 d2. storeChunk hash data (st, d) = (Inr (), st', d') \<and> hasChunk st' hash
    \<and> init (StorageManager (st_baseDir st) 0) d' = (st2, d2) \<and> \<not> hasChunk st2 hash
    \<and> fst (loadChunk hash (st2, d2)) = Inr data"
proof -
  let ?tmp = "chunkPath st hash @ ''.tmp''" and ?fin = "chunkPath st hash"
  let ?fresh = "StorageManager (st_baseDir st) 0" and ?st = "with_chunk hash data st"
  have wf: "wf_layout st" using store_invD(2) [OF assms(1)] by (simp add: stored_def)
  then have paths: "st_metaPath ?fresh = st_metaPath st" "chunkPath ?fresh = chunkPath st"
    by (auto simp: StorageManager_def wf_layout_def chunkPath_def fun_eq_iff)
  obtain d1 d2 where d12: "fs_write d ?tmp data = Some d1" "fs_rename d1 ?tmp ?fin = Some d2"
    and run: "storeChunk hash data (st, d) = (Inr (), enforceLimit ?st d2)"
    using storable_files [OF assms(2)] by blast
  have e: "enforceLimit ?st d2 = (?st, d2)" using assms(3) by (simp add: enforceLimit_def)
  obtain d3 where d3: "init ?fresh d2 = loadMetadata ?fresh d3" "\<forall>p. fs_read d3 p = fs_read d2 p"
    using init_eq_loadMetadata by blast
  have "st_metaPath st \<noteq> ?tmp" "st_metaPath st \<noteq> ?fin"
    using wf by (auto simp: wf_layout_def chunkPath_def)
  then have "fs_read d3 (st_metaPath ?fresh) = Some (metadata_text st)"
    using d3(2) assms(6) by (simp add: paths fs_read_rename [OF d12(2)] fs_read_write [OF d12(1)])
  note load = loadMetadata_text [OF this accountedD(1) [OF store_invD(1) [OF assms(1)]] assms(5)]
  have "fs_read d3 ?fin = Some data"
    using d3(2) by (simp add: fs_read_rename [OF d12(2)] fs_read_write [OF d12(1)])
  then have "fst (loadChunk hash (fst (loadMetadata ?fresh d3), d3)) = Inr data"
    by (simp add: load loadChunk_def paths Let_def)
  then show ?thesis using run e d3(1) load assms(4) by (simp add: hasChunk_def)
qed

theorem unlimited_store_forgotten_witness:
  "\<exists>st' d' st2 d2. storeChunk ''c'' ''new'' (sample_store 0, persistMetadata (sample_store 0) sample_disk)
      = (Inr (), st', d') \<and> hasChunk st' ''c''
    \<and> init (StorageManager ''p'' 0) d' = (st2, d2) \<and> \<not> hasChunk st2 ''c''"
proof -
  let ?d = "persistMetadata (sample_store 0) sample_disk"
  have inv: "store_inv (sample_store 0, ?d)"
    using persist_store_inv [OF sample_store_inv] by blast
  have st: "storable ''c'' ''new'' (sample_store 0, ?d)"
    by (simp add: storable_def tmp_name_code sample_simps meta_bytes_def)
  have rest: "st_baseDir (sample_store 0) = ''p''" "st_maxBytes (sample_store 0) = 0"
      "\<not> hasChunk (sample_store 0) ''c''" "\<forall>e \<in> set (st_meta (sample_store 0)). is_token (fst e)"
    by (simp_all add: sample_simps is_token_def isspace_def)
  have "fs_read ?d (st_metaPath (sample_store 0)) = Some (metadata_text (sample_store 0))"
    by (rule persist_eq_Some) (simp add: sample_simps)
  from unlimited_store_forgotten [OF inv st rest(2-4) this] rest(1) show ?thesis by auto
qed

lemma rebuild_loop_spec:
  assumes "accounted st" "distinct (map fst (st_meta st) @ map fst es)"
    "unat (st_accessCounter st) + length es < 2 ^ 64"
    "meta_bytes (st_meta st) + sum_list (map (length \<circ> snd) es) < 2 ^ 64"
  shows "accounted (rebuild_loop es st)
    \<and> (\<exists>al. st_meta (rebuild_loop es st) = st_meta st @ al
         \<and> list_all2 (\<lambda>e kv. fst kv = fst e \<and> unat (cm_size (snd kv)) = length (snd e)) es al)"
  using assms
proof (induction es arbitrary: st)
  case Nil
  then show ?case by simp
next
  case (Cons e es)
  obtain name content where e: "e = (name, content)" by (cases e)
  let ?n = "of_nat (length content) :: u64"
  let ?c = "st_accessCounter st + 1"
  let ?m = "\<lparr>cm_size = ?n, cm_lastAccess = ?c\<rparr>"
  let ?st = "st\<lparr>st_accessCounter := ?c, st_meta := AList.update name ?m (st_meta st),
    st_usedBytes := st_usedBytes st + ?n\<rparr>"
  have fresh: "name \<notin> fst ` set (st_meta st)" using Cons.prems(2) e by auto
  have sz: "unat ?n = length content" using Cons.prems(4) e by (intro unat_of_nat_u64) simp
  have nowrap: "st_accessCounter st \<noteq> - 1"
    using Cons.prems(3) by (auto simp: unat_u64_max)
  have "unat (st_usedBytes st + ?n) = unat ?n + meta_bytes (AList.delete name (st_meta st))"
    using accountedD(2) [OF Cons.prems(1)] Cons.prems(4) e sz
    by (subst unat_add_no_wrap) (auto simp: delete_notin [OF fresh])
  then have acc: "accounted ?st" using accounted_set [OF Cons.prems(1)] nowrap by blast
  have meta: "st_meta ?st = st_meta st @ [(name, ?m)]" by (simp add: update_notin [OF fresh])
  have "meta_bytes (st_meta ?st) = meta_bytes (st_meta st) + length content"
    unfolding meta by (simp add: meta_bytes_def sz)
  then have "accounted (rebuild_loop es ?st) \<and> (\<exists>al. st_meta (rebuild_loop es ?st) = st_meta ?st @ al
         \<and> list_all2 (\<lambda>e kv. fst kv = fst e \<and> unat (cm_size (snd kv)) = length (snd e)) es al)"
    using Cons.prems e nowrap by (intro Cons.IH [OF acc]) (auto simp: meta unat_succ_no_wrap)
  then show ?case using sz by (auto simp: e Let_def meta list_all2_Cons1 simp del: storage.update_convs)
qed

lemma rebuild_loop_layout [simp]:
  "chunkPath (rebuild_loop es st) = chunkPath st" "wf_layout (rebuild_loop es st) = wf_layout st"
  by (induction es st rule: rebuild_loop.induct) (auto simp: Let_def)

lemma wf_layout_StorageManager: "wf_layout (StorageManager base limit)"
  by (simp add: wf_layout_def StorageManager_def)

text \<open>Entries named like the files of a directory hold what the directory holds.\<close>

lemma contents_dir_entries:
  assumes "fst ` set (st_meta st) = fst ` set (dir_entries d dir)" "\<And>k. chunkPath st k = dir @ ''/'' @ k"
  shows "contents (st, d) = map_of (dir_entries d dir)"
proof
  fix k
  show "contents (st, d) k = map_of (dir_entries d dir) k"
  proof (cases "k \<in> fst ` set (dir_entries d dir)")
    case True
    then have "map_of (dir_entries d dir) k = fs_read d (chunkPath st k)"
      using dir_entries_lookup [of k d dir] dir_entries_names [of _ d dir] unfolding assms(2) by auto
    with True show ?thesis by (simp add: contents_def hasChunk_mem assms(1))
  next
    case False
    then show ?thesis by (simp add: contents_def hasChunk_mem assms(1) map_of_eq_None_iff [THEN iffD2])
  qed
qed

text \<open>
  C29: A peer started on a directory without \<^verbatim>\<open>metadata.db\<close> rebuilds its metadata from the
  files: it holds exactly the regular files of \<^verbatim>\<open>chunks/\<close> with their contents, and the
  accounting is exact. (Files left behind by an interrupted store, named \<^verbatim>\<open>*.tmp\<close>, would be
  taken for chunks too; they are excluded here.)
\<close>

theorem rebuild_correct:
  assumes "wf_disk d" "fs_read d (base @ ''/metadata.db'') = None" "can_mkdir d (base @ ''/chunks'')"
    "\<forall>e \<in> set (dir_entries d (base @ ''/chunks'')). \<not> tmp_name (fst e)"
    "length (files d) < 2 ^ 64" "sum_list (map (length \<circ> snd) (dir_entries d (base @ ''/chunks''))) < 2 ^ 64"
  shows "\<exists>st d'. init (StorageManager base limit) d = (st, d') \<and> store_inv (st, d')
    \<and> contents (st, d') = map_of (dir_entries d (base @ ''/chunks''))"
proof -
  let ?fresh = "StorageManager base limit" and ?es = "dir_entries d (base @ ''/chunks'')"
  obtain d0 where d0: "init ?fresh d = loadMetadata ?fresh d0" "files d0 = files d"
      "fs_exists d0 (base @ ''/chunks'')"
    using init_eq_loadMetadata [of ?fresh d] assms(3) by (auto simp: StorageManager_def)
  have wf: "wf_disk d0" using assms(1) d0(2) by (simp add: wf_disk_def)
  have es: "dir_entries d0 (base @ ''/chunks'') = ?es" by (simp add: dir_entries_def d0(2))
  let ?st = "rebuild_loop ?es ?fresh"
  have run: "loadMetadata ?fresh d0 = (?st, persistMetadata ?st d0)"
    using assms(2) d0(2,3)
    by (simp add: loadMetadata_def rebuildMetadataFromDisk_def StorageManager_def fs_read_def es Let_def)
  have "length ?es \<le> length (files d)" by (simp add: dir_entries_def)
  moreover have "accounted ?fresh" by (simp add: accounted_def StorageManager_def meta_bytes_def)
  ultimately obtain al where acc: "accounted ?st" and al: "st_meta ?st = al"
      "list_all2 (\<lambda>e kv. fst kv = fst e \<and> unat (cm_size (snd kv)) = length (snd e)) ?es al"
    using rebuild_loop_spec [of ?fresh ?es] assms(5,6) distinct_dir_entries [OF assms(1)]
    by (auto simp: StorageManager_def meta_bytes_def)
  have path: "chunkPath ?st k = (base @ ''/chunks'') @ ''/'' @ k" for k
    unfolding rebuild_loop_layout by (simp add: chunkPath_def StorageManager_def)
  have entry: "\<exists>c. (k, c) \<in> set ?es \<and> unat (cm_size m) = length c" if "(k, m) \<in> set al" for k m
    using list_all2_mem2 [OF al(2) that] by force
  have st: "stored ?st d0"
    unfolding stored_def
  proof (intro conjI ballI, goal_cases)
    case 1
    show ?case by (simp add: wf_layout_StorageManager)
  next
    case (2 e)
    obtain k m where e: "e = (k, m)" by (cases e)
    then obtain c where c: "(k, c) \<in> set ?es" "unat (cm_size m) = length c" using entry 2 al(1) by blast
    then have "fs_read d0 (chunkPath ?st k) = Some c" 
      using dir_entries_read [OF wf, of k c "base @ ''/chunks''"] unfolding es path by blast
    with c assms(4) show ?case by (auto simp: e)
  qed
  have "map fst al = map fst ?es" using al(2) by (induction rule: list_all2_induct) auto
  then have "fst ` set (st_meta ?st) = fst ` set (dir_entries d0 (base @ ''/chunks''))"
    unfolding es al(1) by (metis image_set)
  then have "contents (?st, d0) = map_of ?es" using path unfolding es [symmetric] by (rule contents_dir_entries)
  then show ?thesis using persist_store_inv [of ?st d0] acc st run d0(1) by (simp add: store_inv_def)
qed

theorem rebuild_correct_witness:
  "\<exists>st d'. init (StorageManager ''p'' 9) sample_disk = (st, d') \<and> store_inv (st, d')
    \<and> contents (st, d') ''b'' = Some ''old''"
proof -
  have es: "dir_entries sample_disk (''p'' @ ''/chunks'') = [(''a'', ''data''), (''b'', ''old'')]"
    by (simp add: dir_entries_def sample_disk_def open_disk_def starts_with_def)
  have "wf_disk sample_disk" "fs_read sample_disk (''p'' @ ''/metadata.db'') = None"
      "can_mkdir sample_disk (''p'' @ ''/chunks'')" "length (files sample_disk) < 2 ^ 64"
    by (simp_all add: wf_disk_def sample_disk_def open_disk_def fs_read_def)
  then show ?thesis
    using rebuild_correct [of sample_disk "''p''" 9] unfolding es by (auto simp: tmp_name_code)
qed

section \<open>The eviction does not depend on the order of the hash map\<close>

lemma lru_scan_set:
  assumes "set es = set fs" "es \<noteq> []" "distinct (map la es)"
  shows "lru_scan (hd es) es = lru_scan (hd fs) fs"
proof -
  let ?a = "lru_scan (hd es) es" and ?b = "lru_scan (hd fs) fs"
  have "fs \<noteq> []" using assms(1,2) by auto
  then have mem: "?a \<in> set es" "?b \<in> set es"
    using lru_scan_mem [of "hd es" es] lru_scan_mem [of "hd fs" fs] assms(1,2)
    by (metis hd_in_set insert_absorb)+
  have "la ?a \<le> la ?b" "la ?b \<le> la ?a"
    using conjunct2 [OF lru_scan_min, rule_format, of _ es "hd es"]
      conjunct2 [OF lru_scan_min, rule_format, of _ fs "hd fs"] mem assms(1) by auto
  then have "la ?a = la ?b" by (rule order_antisym)
  with mem show ?thesis
    using assms(3) unfolding distinct_map by (elim conjE) (rule inj_onD)
qed

text \<open>Two managers that differ only in the order in which the hash map is iterated.\<close>

definition same_upto_order :: "storage \<Rightarrow> storage \<Rightarrow> bool" where
  "same_upto_order st st' \<longleftrightarrow> st'\<lparr>st_meta := []\<rparr> = st\<lparr>st_meta := []\<rparr> \<and> set (st_meta st') = set (st_meta st)"

lemma same_upto_orderD:
  assumes "same_upto_order st st'"
  shows "st_usedBytes st' = st_usedBytes st" "st_maxBytes st' = st_maxBytes st" "chunkPath st' = chunkPath st"
    "set (st_meta st') = set (st_meta st)" "st_meta st' = [] \<longleftrightarrow> st_meta st = []"
proof -
  have eq: "st'\<lparr>st_meta := []\<rparr> = st\<lparr>st_meta := []\<rparr>" "set (st_meta st') = set (st_meta st)"
    using assms by (simp_all add: same_upto_order_def)
  show "st_usedBytes st' = st_usedBytes st" "st_maxBytes st' = st_maxBytes st" "chunkPath st' = chunkPath st"
    using arg_cong [OF eq(1), of st_usedBytes] arg_cong [OF eq(1), of st_maxBytes]
      arg_cong [OF eq(1), of chunkPath] by simp_all
  show "set (st_meta st') = set (st_meta st)" "st_meta st' = [] \<longleftrightarrow> st_meta st = []"
    using eq(2) by auto
qed

lemma evict_loop_stop: "\<not> (st_usedBytes st > st_maxBytes st \<and> st_meta st \<noteq> []) \<Longrightarrow> evict_loop st d = (st, d)"
  by (subst evict_loop.simps) (simp only: if_False)

lemma evict_loop_frame:
  "st_metaPath (fst (evict_loop st d)) = st_metaPath st \<and> st_accessCounter (fst (evict_loop st d)) = st_accessCounter st
   \<and> st_maxBytes (fst (evict_loop st d)) = st_maxBytes st \<and> chunkPath (fst (evict_loop st d)) = chunkPath st
   \<and> can_open (snd (evict_loop st d)) = can_open d \<and> can_rename (snd (evict_loop st d)) = can_rename d"
proof (induction st d rule: evict_loop.induct)
  case (1 st d)
  show ?case
  proof (cases "st_usedBytes st > st_maxBytes st \<and> st_meta st \<noteq> []")
    case False
    show ?thesis by (simp add: evict_loop_stop [OF False])
  next
    case True
    show ?thesis using "1.IH" [OF True refl] True by (subst (1 2 3 4 5 6) evict_loop.simps) (simp add: Let_def)
  qed
qed

lemma evict_loop_order:
  assumes "accounted st" "same_upto_order st st'"
  shows "same_upto_order (fst (evict_loop st d)) (fst (evict_loop st' d))
    \<and> snd (evict_loop st' d) = snd (evict_loop st d)"
  using assms
proof (induction st d arbitrary: st' rule: evict_loop.induct)
  case (1 st d)
  note same = same_upto_orderD [OF "1.prems"(2)]
  show ?case
  proof (cases "st_usedBytes st > st_maxBytes st \<and> st_meta st \<noteq> []")
    case False
    then have "evict_loop st d = (st, d)" "evict_loop st' d = (st', d)"
      using same by (intro evict_loop_stop; simp)+
    then show ?thesis using "1.prems"(2) by simp
  next
    case True
    let ?v = "lru_scan (hd (st_meta st)) (st_meta st)"
    let ?next = "\<lambda>st. st\<lparr>st_usedBytes := st_usedBytes st - cm_size (snd ?v), st_meta := AList.delete (fst ?v) (st_meta st)\<rparr>"
    have v': "lru_scan (hd (st_meta st')) (st_meta st') = ?v"
      using lru_scan_set [of "st_meta st" "st_meta st'"] same True accountedD(4) [OF "1.prems"(1)] by simp
    have "?v \<in> set (st_meta st)"
      using lru_scan_mem [of "hd (st_meta st)" "st_meta st"] True by (metis hd_in_set insert_absorb)
    then have "accounted (?next st)" using accounted_evict_one [OF "1.prems"(1)] by blast
    moreover have "same_upto_order (?next st) (?next st')"
      using "1.prems"(2) same(1,4) by (cases st; cases st') (auto simp: same_upto_order_def delete_as_filter)
    ultimately have "same_upto_order (fst (evict_loop (?next st) (fs_remove d (chunkPath st (fst ?v)))))
        (fst (evict_loop (?next st') (fs_remove d (chunkPath st (fst ?v)))))
      \<and> snd (evict_loop (?next st') (fs_remove d (chunkPath st (fst ?v))))
        = snd (evict_loop (?next st) (fs_remove d (chunkPath st (fst ?v))))"
      using "1.IH" [OF True refl] by blast
    moreover have "evict_loop st d = evict_loop (?next st) (fs_remove d (chunkPath st (fst ?v)))"
      using True by (simp add: evict_loop.simps [of st d] Let_def)
    moreover have "evict_loop st' d = evict_loop (?next st') (fs_remove d (chunkPath st (fst ?v)))"
      using True same by (simp add: evict_loop.simps [of st' d] Let_def v')
    ultimately show ?thesis by simp
  qed
qed

text \<open>
  The chunks that an eviction takes do not depend on the order in which the hash map
  is iterated, which C++ leaves open: two managers that hold the same entries in different
  orders keep the same entries and the same bytes, and the same files are removed.
\<close>

theorem eviction_order_independent:
  assumes "accounted st" "same_upto_order st st'" "st_maxBytes st \<noteq> 0" "p \<noteq> st_metaPath st"
  shows "same_upto_order (fst (enforceLimit st d)) (fst (enforceLimit st' d))
    \<and> fs_read (snd (enforceLimit st' d)) p = fs_read (snd (enforceLimit st d)) p"
proof -
  have "st_metaPath st' = st_metaPath st"
    using assms(2) by (cases st; cases st') (simp add: same_upto_order_def)
  then show ?thesis
    using evict_loop_order [OF assms(1,2), of d] assms(3,4) same_upto_orderD(2) [OF assms(2)]
      evict_loop_frame [of st d] evict_loop_frame [of st' d]
    by (auto simp: enforceLimit_def fs_read_persist split: prod.splits)
qed

theorem eviction_order_independent_witness:
  "same_upto_order (fst (enforceLimit (sample_store 5) sample_disk))
      (fst (enforceLimit ((sample_store 5)\<lparr>st_meta := rev (st_meta (sample_store 5))\<rparr>) sample_disk))
   \<and> fs_read (snd (enforceLimit ((sample_store 5)\<lparr>st_meta := rev (st_meta (sample_store 5))\<rparr>) sample_disk)) ''p/chunks/b''
     = fs_read (snd (enforceLimit (sample_store 5) sample_disk)) ''p/chunks/b''"
  by (rule eviction_order_independent [OF store_invD(1) [OF sample_store_inv]])
    (auto simp: same_upto_order_def sample_simps)

section \<open>The accounting on a file system that permits every write\<close>

text \<open>
  The accounting does not depend on the names of chunks: it is kept by every operation,
  also for names that \<open>store_inv\<close> excludes.
\<close>

definition within_limit :: "storage \<Rightarrow> bool" where
  "within_limit st \<longleftrightarrow> accounted st \<and> (st_maxBytes st = 0 \<or> st_usedBytes st \<le> st_maxBytes st)"

text \<open>What no operation changes, and the counters it moves forward.\<close>

definition same_setting :: "storage \<times> disk \<Rightarrow> storage \<times> disk \<Rightarrow> bool" where
  "same_setting = (\<lambda>(st, d) (st', d'). chunkPath st' = chunkPath st \<and> st_maxBytes st' = st_maxBytes st
     \<and> can_open d' = can_open d \<and> can_rename d' = can_rename d)"

lemma meta_bytes_with_chunk:
  assumes "accounted st" "length data < 2 ^ 64"
  shows "meta_bytes (st_meta (with_chunk hash data st)) \<le> meta_bytes (st_meta st) + length data"
  using assms(2) delete_bytes_le [of hash "st_meta st"]
  by (simp add: meta_bytes_update accountedD(1) [OF assms(1)] unat_of_nat_u64)

lemma meta_bytes_touch: "accounted st \<Longrightarrow> meta_bytes (st_meta (touch k st)) = meta_bytes (st_meta st)"
  using meta_bytes_delete [of "st_meta st" k]
  by (cases "map_of (st_meta st) k")
    (auto simp: meta_bytes_update accountedD(1) touch_def Let_def dest: map_of_SomeD)

lemma enforceLimit_accounted:
  assumes "accounted st" "enforceLimit st d = (st', d')"
  shows "within_limit st' \<and> meta_bytes (st_meta st') \<le> meta_bytes (st_meta st)
    \<and> st_accessCounter st' = st_accessCounter st \<and> same_setting (st, d) (st', d')"
proof (cases "st_maxBytes st = 0")
  case True
  then show ?thesis using assms by (auto simp: enforceLimit_def within_limit_def same_setting_def)
next
  case False
  obtain d1 where ev: "evict_loop st d = (st', d1)" and d': "d' = persistMetadata st' d1"
    using assms(2) False by (auto simp: enforceLimit_def split: prod.splits)
  obtain vs where "evicted st d vs (st', d1)" using evict_loop_spec [OF assms(1), of d] ev by auto
  note evictedD [OF this]
  moreover have "meta_bytes (filter P al) \<le> meta_bytes al" for P al
    by (induction al) auto
  ultimately show ?thesis
    using evict_loop_frame [of st d] ev d' by (simp add: within_limit_def same_setting_def)
qed

lemma storeChunk_accounted:
  assumes "within_limit st" "hash = [] \<or> writable hash (st, d)" "st_accessCounter st \<noteq> - 1"
    "meta_bytes (st_meta st) + length data < 2 ^ 64" "storeChunk hash data (st, d) = (r, st', d')"
  shows "within_limit st' \<and> meta_bytes (st_meta st') \<le> meta_bytes (st_meta st) + length data
    \<and> unat (st_accessCounter st') \<le> unat (st_accessCounter st) + 1 \<and> same_setting (st, d) (st', d')"
proof (cases "hash = []")
  case True
  then show ?thesis using assms(1,5) by (simp add: storeChunk_def same_setting_def)
next
  case False
  have acc: "accounted st" using assms(1) by (simp add: within_limit_def)
  obtain d2 where d2: "storeChunk hash data (st, d) = (Inr (), enforceLimit (with_chunk hash data st) d2)"
    "can_open d2 = can_open d" "can_rename d2 = can_rename d"
    using storeChunk_files [OF False] assms(2) False by blast
  have "accounted (with_chunk hash data st)" by (rule accounted_with_chunk [OF acc assms(3,4)])
  moreover have "enforceLimit (with_chunk hash data st) d2 = (st', d')" using d2(1) assms(5) by simp
  ultimately have "within_limit st'" "meta_bytes (st_meta st') \<le> meta_bytes (st_meta (with_chunk hash data st))"
      "st_accessCounter st' = st_accessCounter st + 1" "same_setting (with_chunk hash data st, d2) (st', d')"
    using enforceLimit_accounted by (auto simp del: with_chunk_simps(1))
  then show ?thesis
    using meta_bytes_with_chunk [OF acc, of data hash] assms(4) d2(2,3) unat_succ_no_wrap [OF assms(3)]
    by (auto simp: same_setting_def simp del: with_chunk_simps(1))
qed

lemma loadChunk_accounted:
  assumes "within_limit st" "st_accessCounter st \<noteq> - 1" "loadChunk hash (st, d) = (r, st', d')"
  shows "within_limit st' \<and> meta_bytes (st_meta st') = meta_bytes (st_meta st)
    \<and> unat (st_accessCounter st') \<le> unat (st_accessCounter st) + 1 \<and> same_setting (st, d) (st', d')"
proof -
  have acc: "accounted st" using assms(1) by (simp add: within_limit_def)
  have "unat (st_accessCounter (touch hash st)) \<le> unat (st_accessCounter st) + 1"
    using unat_succ_no_wrap [OF assms(2)] by (auto simp: touch_def Let_def split: option.splits)
  then show ?thesis
    using assms accounted_touch [OF acc assms(2)] meta_bytes_touch [OF acc]
    by (auto simp: loadChunk_def within_limit_def same_setting_def Let_def split: option.splits)
qed

section \<open>The contract with the peer service\<close>

text \<open>
  \<open>held\<close> is the content a client can rely on, \<open>accepts s k\<close> that the name and the
  file system allow a chunk \<open>k\<close>, and \<open>room s n b\<close> that \<open>n\<close> further operations and \<open>b\<close>
  further bytes neither wrap a counter nor cause an eviction.
\<close>

locale chunk_store =
  fixes put :: "string \<Rightarrow> bytes \<Rightarrow> 's \<Rightarrow> unit result \<times> 's"
    and get :: "string \<Rightarrow> 's \<Rightarrow> bytes result \<times> 's"
    and has :: "'s \<Rightarrow> string \<Rightarrow> bool"
    and inv :: "'s \<Rightarrow> bool"
    and held :: "'s \<Rightarrow> string \<Rightarrow> bytes option"
    and accepts :: "'s \<Rightarrow> string \<Rightarrow> bool"
    and room :: "'s \<Rightarrow> nat \<Rightarrow> nat \<Rightarrow> bool"
  assumes put_ok: "inv s \<Longrightarrow> accepts s k \<Longrightarrow> room s (Suc n) (length v + b) \<Longrightarrow>
      \<exists>s'. put k v s = (Inr (), s') \<and> inv s' \<and> held s' = (held s)(k \<mapsto> v)
        \<and> accepts s' = accepts s \<and> room s' n b"
    and get_ok: "inv s \<Longrightarrow> room s (Suc n) b \<Longrightarrow> held s k = Some v \<Longrightarrow>
      \<exists>s'. get k s = (Inr v, s') \<and> inv s' \<and> held s' = held s \<and> accepts s' = accepts s \<and> room s' n b"
    and has_iff: "inv s \<Longrightarrow> has s k \<longleftrightarrow> held s k \<noteq> None"
begin

lemma put_then_get:
  assumes "inv s" "accepts s k" "room s (Suc (Suc n)) (length v + b)"
  shows "\<exists>s' s''. put k v s = (Inr (), s') \<and> has s' k \<and> get k s' = (Inr v, s'') \<and> inv s'' \<and> room s'' n b"
proof -
  obtain s' where s': "put k v s = (Inr (), s')" "inv s'" "held s' = (held s)(k \<mapsto> v)" "room s' (Suc n) b"
    using put_ok [OF assms] by blast
  moreover obtain s'' where "get k s' = (Inr v, s'')" "inv s''" "room s'' n b"
    using get_ok [OF s'(2,4), of k v] s'(3) by auto
  ultimately show ?thesis using has_iff [OF s'(2), of k] by auto
qed

lemma put_twice_last_wins:
  assumes "inv s" "accepts s k" "room s (Suc (Suc (Suc n))) (length v + (length w + b))"
  shows "\<exists>s1 s2 s3. put k v s = (Inr (), s1) \<and> put k w s1 = (Inr (), s2) \<and> get k s2 = (Inr w, s3)"
proof -
  obtain s1 where s1: "put k v s = (Inr (), s1)" "inv s1" "accepts s1 = accepts s" "room s1 (Suc (Suc n)) (length w + b)"
    using put_ok [OF assms] by blast
  then show ?thesis using put_then_get [OF s1(2) _ s1(4)] assms(2) by fastforce
qed

end

definition accepts :: "storage \<times> disk \<Rightarrow> string \<Rightarrow> bool" where
  "accepts = (\<lambda>(st, d) k. k \<noteq> [] \<and> \<not> tmp_name k \<and> can_open d (chunkPath st k @ ''.tmp'')
     \<and> can_rename d (chunkPath st k @ ''.tmp'') (chunkPath st k))"

definition room :: "storage \<times> disk \<Rightarrow> nat \<Rightarrow> nat \<Rightarrow> bool" where
  "room = (\<lambda>(st, d) n b. unat (st_accessCounter st) + n < 2 ^ 64 \<and> meta_bytes (st_meta st) + b < 2 ^ 64
     \<and> (st_maxBytes st = 0 \<or> meta_bytes (st_meta st) + b \<le> unat (st_maxBytes st)))"

lemma room_counter: "room (st, d) (Suc n) b \<Longrightarrow> st_accessCounter st \<noteq> - 1"
  by (auto simp: room_def unat_u64_max)

lemma enforceLimit_within:
  assumes "accounted st" "st_maxBytes st = 0 \<or> meta_bytes (st_meta st) \<le> unat (st_maxBytes st)"
  shows "enforceLimit st d = (st, d) \<or> enforceLimit st d = (st, persistMetadata st d)"
proof (cases "st_maxBytes st = 0")
  case False
  then have "\<not> st_maxBytes st < st_usedBytes st"
    using assms accountedD(2) [OF assms(1)] by (simp add: word_less_nat_alt)
  then show ?thesis by (simp add: enforceLimit_def evict_loop_stop)
qed (simp add: enforceLimit_def)

lemma storeChunk_room:
  assumes "store_inv s" "accepts s k" "room s (Suc n) (length v + b)"
  shows "\<exists>s'. storeChunk k v s = (Inr (), s') \<and> store_inv s' \<and> contents s' = (contents s)(k \<mapsto> v)
    \<and> accepts s' = accepts s \<and> room s' n b"
proof -
  obtain st d where s: "s = (st, d)" by (cases s)
  have stor: "storable k v (st, d)"
    using assms(2,3) room_counter [of st d n] by (auto simp: s storable_def accepts_def room_def)
  obtain d2 where run: "storeChunk k v (st, d) = (Inr (), enforceLimit (with_chunk k v st) d2)"
    and inv: "store_inv (with_chunk k v st, d2)"
    and con: "contents (with_chunk k v st, d2) = (contents (st, d))(k \<mapsto> v)"
    and can: "can_open d2 = can_open d" "can_rename d2 = can_rename d"
    using storeChunk_storable [OF assms(1) [unfolded s] stor] by blast
  let ?st = "with_chunk k v st"
  have bytes: "meta_bytes (st_meta ?st) \<le> meta_bytes (st_meta st) + length v"
    using meta_bytes_with_chunk store_invD(1) assms(1,3) by (auto simp: s room_def)
  then have "st_maxBytes ?st = 0 \<or> meta_bytes (st_meta ?st) \<le> unat (st_maxBytes ?st)"
    using assms(3) by (auto simp: s room_def)
  from enforceLimit_within [OF store_invD(1) [OF inv] this, of d2]
  obtain d' where d': "enforceLimit ?st d2 = (?st, d')" "d' = d2 \<or> d' = persistMetadata ?st d2" by blast
  then have "store_inv (?st, d')" "contents (?st, d') = contents (?st, d2)"
    using persist_store_inv [OF inv] inv by auto
  moreover have "accepts (?st, d') = accepts (st, d)"
    using d'(2) can by (auto simp: accepts_def fun_eq_iff)
  moreover have "room (?st, d') n b"
    using assms(3) bytes unat_succ_no_wrap [OF room_counter [OF assms(3) [unfolded s]]]
    by (auto simp: s room_def)
  ultimately show ?thesis using run d'(1) con by (simp add: s)
qed

lemma loadChunk_room:
  assumes "store_inv s" "room s (Suc n) b" "contents s k = Some v"
  shows "\<exists>s'. loadChunk k s = (Inr v, s') \<and> store_inv s' \<and> contents s' = contents s
    \<and> accepts s' = accepts s \<and> room s' n b"
proof -
  obtain st d where s: "s = (st, d)" by (cases s)
  note acc = store_invD(1) [OF assms(1) [unfolded s]] store_invD(2) [OF assms(1) [unfolded s]]
  have ctr: "st_accessCounter st \<noteq> - 1" by (rule room_counter [OF assms(2) [unfolded s]])
  have v: "fs_read d (chunkPath st k) = Some v" "hasChunk st k"
    using assms(3) by (simp_all add: s contents_iff)
  let ?st = "touch k st" and ?d = "persistMetadata (touch k st) d"
  have run: "loadChunk k (st, d) = (Inr v, ?st, ?d)" using v by (simp add: loadChunk_def Let_def)
  have "store_inv (?st, d)" using acc ctr by (simp add: store_inv_def accounted_touch stored_touch)
  then have "store_inv (?st, ?d)" "contents (?st, ?d) = contents (st, d)"
    using persist_store_inv [of ?st d] unfolding contents_touch by blast+
  moreover have "accepts (?st, ?d) = accepts (st, d)" by (auto simp: accepts_def fun_eq_iff)
  moreover have "st_accessCounter ?st = st_accessCounter st + 1"
    using v(2) by (auto simp: touch_def hasChunk_def Let_def)
  then have "room (?st, ?d) n b"
    using assms(2) unat_succ_no_wrap [OF ctr] by (auto simp: s room_def meta_bytes_touch [OF acc(1)])
  ultimately show ?thesis using run by (simp add: s)
qed

lemma hasChunk_contents: "store_inv (st, d) \<Longrightarrow> hasChunk st k \<longleftrightarrow> contents (st, d) k \<noteq> None"
  using storedD [OF store_invD(2), of st d k] by (auto simp: contents_def hasChunk_def dest: map_of_SomeD)

text \<open>The files after a store that finds room: only the chunk and the metadata file differ.\<close>

lemma storeChunk_room_files:
  assumes "store_inv (st, d)" "accepts (st, d) k" "room (st, d) (Suc n) (length v + b)" "storeChunk k v (st, d) = (r, st', d')"
  shows "st_baseDir st' = st_baseDir st \<and> chunkPath st' = chunkPath st \<and> can_open d' = can_open d \<and> can_rename d' = can_rename d
    \<and> (\<forall>p. p \<noteq> st_metaPath st \<longrightarrow> fs_read d' p = (if p = chunkPath st k then Some v
         else if p = chunkPath st k @ ''.tmp'' then None else fs_read d p))"
proof -
  have "hash \<noteq> [] \<Longrightarrow> writable k (st, d)" for hash using assms(2) by (simp add: accepts_def writable_def)
  then obtain d1 d2 where d: "fs_write d (chunkPath st k @ ''.tmp'') v = Some d1"
      "fs_rename d1 (chunkPath st k @ ''.tmp'') (chunkPath st k) = Some d2"
      "storeChunk k v (st, d) = (Inr (), enforceLimit (with_chunk k v st) d2)"
      "can_open d2 = can_open d" "can_rename d2 = can_rename d"
    using storeChunk_files [of k st d v] assms(2) by (auto simp: accepts_def)
  let ?st = "with_chunk k v st"
  have acc: "accounted st" using assms(1) by (simp add: store_inv_def)
  have "accounted ?st"
    using accounted_with_chunk [OF acc room_counter [OF assms(3)]] assms(3) by (auto simp: room_def)
  moreover have "st_maxBytes ?st = 0 \<or> meta_bytes (st_meta ?st) \<le> unat (st_maxBytes ?st)"
    using meta_bytes_with_chunk [OF acc, of v k] assms(3) by (auto simp: room_def)
  ultimately have "st' = ?st \<and> (d' = d2 \<or> d' = persistMetadata ?st d2)"
    using enforceLimit_within [of ?st d2] d(3) assms(4) by auto
  moreover have "st_baseDir ?st = st_baseDir st" "st_metaPath ?st = st_metaPath st"
    by (auto simp: with_chunk_def uncount_def Let_def split: option.splits)
  ultimately show ?thesis
    using d(4,5) by (auto simp: fs_read_persist fs_read_rename [OF d(2)] fs_read_write [OF d(1)])
qed

lemma loadChunk_files:
  assumes "loadChunk k (st, d) = (r, st', d')"
  shows "st_baseDir st' = st_baseDir st \<and> chunkPath st' = chunkPath st \<and> can_open d' = can_open d \<and> can_rename d' = can_rename d
    \<and> (\<forall>p. p \<noteq> st_metaPath st \<longrightarrow> fs_read d' p = fs_read d p)
    \<and> (case r of Inr v \<Rightarrow> fs_read d (chunkPath st k) = Some v | Inl _ \<Rightarrow> fs_read d (chunkPath st k) = None)"
proof -
  have "st_baseDir (touch k st) = st_baseDir st" by (auto simp: touch_def Let_def split: option.splits)
  then show ?thesis
    using assms by (auto simp: loadChunk_def Let_def fs_read_persist split: option.splits)
qed

lemma loadChunk_room_any:
  assumes "store_inv (st, d)" "room (st, d) (Suc n) b" "loadChunk k (st, d) = (r, st', d')"
  shows "store_inv (st', d') \<and> contents (st', d') = contents (st, d) \<and> room (st', d') n b"
proof (cases "contents (st, d) k")
  case (Some v)
  then show ?thesis using loadChunk_room [OF assms(1,2) Some] assms(3) by auto
next
  case None
  then have "\<not> hasChunk st k" using hasChunk_contents [OF assms(1)] by simp
  then have "touch k st = st" by (simp add: touch_def hasChunk_def)
  then show ?thesis
    using assms persist_store_inv [OF assms(1)] by (auto simp: loadChunk_def room_def Let_def split: option.splits)
qed

interpretation lru_store: chunk_store storeChunk loadChunk "\<lambda>s. hasChunk (fst s)" store_inv contents accepts room
proof
  show "store_inv s \<Longrightarrow> hasChunk (fst s) k \<longleftrightarrow> contents s k \<noteq> None" for s k
    by (cases s) (simp add: hasChunk_contents)
qed (fact storeChunk_room loadChunk_room)+

text \<open>
  Read your writes: a chunk stored while there is room for it is reported by
  \<^verbatim>\<open>hasChunk\<close> and loaded with the same bytes, and there is still room for the rest.
\<close>

theorem store_then_load:
  assumes "store_inv s" "accepts s k" "room s (Suc (Suc n)) (length v + b)"
  shows "\<exists>s' s''. storeChunk k v s = (Inr (), s') \<and> hasChunk (fst s') k
    \<and> loadChunk k s' = (Inr v, s'') \<and> store_inv s'' \<and> room s'' n b"
  by (rule lru_store.put_then_get [OF assms])

theorem store_then_load_witness:
  "\<exists>s' s''. storeChunk ''c'' ''new'' (sample_store 12, sample_disk) = (Inr (), s') \<and> hasChunk (fst s') ''c''
    \<and> loadChunk ''c'' s' = (Inr ''new'', s'') \<and> store_inv s''"
proof -
  have "accepts (sample_store 12, sample_disk) ''c''"
    by (simp add: accepts_def tmp_name_code sample_simps)
  moreover have "room (sample_store 12, sample_disk) (Suc (Suc 0)) (length ''new'' + 0)"
    by (simp add: room_def sample_simps meta_bytes_def)
  ultimately show ?thesis using store_then_load [OF sample_store_inv] by blast
qed

end
