(* ===== verification/Connection.thy ===== *)
theory Connection
  imports Tcp
begin

text \<open>
  What the two servers of the program, the storage peer and the tracker, share: an accepted
  connection as it is read, answered and closed, the lines that \<^verbatim>\<open>recv_line\<close> hands on
  whole, and the words that a request line is parsed into.
\<close>

section \<open>Connections\<close>

text \<open>
  An accepted connection: what is still to be received, what has been sent, the answers of
  the coming \<^verbatim>\<open>send\<close> calls and how often the descriptor was closed.
\<close>

record conn =
  cn_rx :: "recv_event list"
  cn_tx :: bytes
  cn_sends :: "int list"
  cn_closes :: nat

definition new_conn :: "recv_event list \<Rightarrow> int list \<Rightarrow> conn" where
  "new_conn rx sends = \<lparr>cn_rx = rx, cn_tx = [], cn_sends = sends, cn_closes = 0\<rparr>"

text \<open>\<^verbatim>\<open>send_all_nothrow\<close> with its result ignored, as the service calls it.\<close>

definition send_ignored :: "bytes \<Rightarrow> conn \<Rightarrow> conn" where
  "send_ignored buf c =
     (case send_all_nothrow (cn_sends c) buf of
        (_, sent, os) \<Rightarrow> c\<lparr>cn_tx := cn_tx c @ sent, cn_sends := os\<rparr>)"

definition close_conn :: "conn \<Rightarrow> conn" where
  "close_conn c = c\<lparr>cn_closes := cn_closes c + 1\<rparr>"

abbreviation OK_line :: string where "OK_line \<equiv> ''OK'' @ [NL]"
abbreviation ERR_line :: string where "ERR_line \<equiv> ''ERR'' @ [NL]"

lemma send_ignored_simps [simp]:
  "cn_rx (send_ignored buf c) = cn_rx c" "cn_closes (send_ignored buf c) = cn_closes c"
  by (simp_all add: send_ignored_def split: prod.splits)

lemma send_ignored_open:
  "cn_sends c = [] \<Longrightarrow> send_ignored buf c = c\<lparr>cn_tx := cn_tx c @ buf\<rparr>"
  by (cases c) (simp add: send_ignored_def send_all_nothrow.simps)

lemma close_conn_simps [simp]:
  "cn_rx (close_conn c) = cn_rx c" "cn_closes (close_conn c) = cn_closes c + 1" "cn_tx (close_conn c) = cn_tx c"
  by (simp_all add: close_conn_def)

text \<open>A way TCP may cut a message.\<close>

definition segments :: "(bytes \<Rightarrow> recv_event list) \<Rightarrow> bool" where
  "segments seg \<longleftrightarrow> (\<forall>b. clean (seg b) \<and> stream (seg b) = b)"

section \<open>Request lines\<close>

text \<open>A request line that the service reads whole.\<close>

definition good_line :: "string \<Rightarrow> bool" where
  "good_line l \<longleftrightarrow> NL \<notin> set l \<and> CR \<notin> set l \<and> length l \<le> 8192"

text \<open>The words of a request line.\<close>

lemma read_command:
  assumes "is_token cmd" "is_token k"
  shows "read_token [] (istringstream (cmd @ SP # k @ t)) = (cmd, istringstream (SP # k @ t))"
    and "at_break t \<Longrightarrow> read_token [] (istringstream (SP # k @ t)) = (k, istringstream t)"
  using assms by (auto intro: tok.extract_at tok.extract_after_space)

lemma read_size: "read_u64 0 (istringstream (SP # show_u64 n)) = (n, istringstream [])"
  using u64c.extract_after_space [where x = n and t = "[]" and c = SP and old = 0] by simp

lemma show_nat_length: "n < 10 ^ k \<Longrightarrow> k > 0 \<Longrightarrow> length (show_nat n) \<le> k"
proof (induction k arbitrary: n)
  case (Suc k)
  show ?case
  proof (cases "n < 10")
    case True
    then show ?thesis by (subst show_nat.simps) simp
  next
    case False
    then have "n div 10 < 10 ^ k" "k > 0" using Suc.prems by (auto intro: Suc_lessD) (cases k; simp)
    then have "length (show_nat (n div 10)) \<le> k" by (rule Suc.IH)
    then show ?thesis using False by (subst show_nat.simps) simp
  qed
qed simp

lemma show_nat_short: "n < 2 ^ 64 \<Longrightarrow> length (show_nat n) \<le> 20"
  by (rule show_nat_length) simp_all

lemma token_no_break: "is_token k \<Longrightarrow> NL \<notin> set k \<and> CR \<notin> set k"
  by (auto simp: is_token_def)

end
