(* ===== verification/Peer_Service.thy ===== *)
theory Peer_Service
  imports Chunk_Store Connection Manifest
begin

text \<open>
  The storage peer, \<^verbatim>\<open>core/peer/peer_service.cpp\<close>: the accept loop, the parsing of a request
  line and the six command handlers on top of the storage manager and the manifest
  directory. Shown are the answer and the effect of each command for every way TCP may
  deliver the request, the accounting invariant under arbitrary client bytes, and the
  requests that end the service. The lifecycle of the service thread is in
  \<open>Peer_Lifecycle\<close>.
\<close>

section \<open>Payloads\<close>

text \<open>\<^verbatim>\<open>std::vector<char> data(size)\<close> and the loop that fills it; it may throw.\<close>

definition read_payload :: "u64 \<Rightarrow> conn \<Rightarrow> (bytes option \<times> conn) result" where
  "read_payload sz c =
     (if unat sz > vector_char_max then Inl (Length_error ''cannot create std::vector larger than max_size()'')
      else case recv_exact 4096 (unat sz) (cn_rx c) of
        (data, es) \<Rightarrow> Inr (data, c\<lparr>cn_rx := es\<rparr>))"

section \<open>The command handlers\<close>

text \<open>
  Each handler gets the stream of the request line after the command. The result is \<open>Inl\<close>
  when an exception leaves the accept loop.
\<close>

definition handle_put_chunk :: "istream \<Rightarrow> conn \<Rightarrow> storage \<times> disk \<Rightarrow> unit result \<times> conn \<times> storage \<times> disk" where
  "handle_put_chunk iss c s =
     (case read_token [] iss of (hash, iss1) \<Rightarrow>
      case read_u64 0 iss1 of (sz, _) \<Rightarrow>
      case read_payload sz c of
        Inl e \<Rightarrow> (Inl e, c, s)
      | Inr (None, c1) \<Rightarrow> (Inr (), send_ignored ERR_line c1, s)
      | Inr (Some data, c1) \<Rightarrow>
          (case storeChunk hash data s of
             (Inr _, s') \<Rightarrow> (Inr (), send_ignored OK_line c1, s')
           | (Inl e, s') \<Rightarrow> (Inr (), send_ignored ERR_line c1, s')))"

definition handle_get_chunk :: "istream \<Rightarrow> conn \<Rightarrow> storage \<times> disk \<Rightarrow> unit result \<times> conn \<times> storage \<times> disk" where
  "handle_get_chunk iss c s =
     (case read_token [] iss of (hash, _) \<Rightarrow>
      case loadChunk hash s of
        (Inl e, s') \<Rightarrow> (Inr (), send_ignored ERR_line c, s')
      | (Inr data, s') \<Rightarrow>
          (let c1 = send_ignored (''OK '' @ show_nat (length data) @ [NL]) c in
           (Inr (), if data \<noteq> [] then send_ignored data c1 else c1, s')))"

definition handle_has_chunk :: "istream \<Rightarrow> conn \<Rightarrow> storage \<times> disk \<Rightarrow> unit result \<times> conn \<times> storage \<times> disk" where
  "handle_has_chunk iss c s =
     (case read_token [] iss of (hash, _) \<Rightarrow>
        (Inr (), send_ignored (if hasChunk (fst s) hash then OK_line else ERR_line) c, s))"

definition manifestPath :: "string \<Rightarrow> string \<Rightarrow> string" where
  "manifestPath storageDir manifestId = storageDir @ ''/manifests/'' @ manifestId"

definition handle_put_manifest :: "string \<Rightarrow> istream \<Rightarrow> conn \<Rightarrow> storage \<times> disk \<Rightarrow> unit result \<times> conn \<times> storage \<times> disk" where
  "handle_put_manifest storageDir iss c = (\<lambda>(st, d).
     case read_token [] iss of (manifestId, iss1) \<Rightarrow>
     case read_u64 0 iss1 of (sz, _) \<Rightarrow>
     case read_payload sz c of
       Inl e \<Rightarrow> (Inl e, c, st, d)
     | Inr (None, c1) \<Rightarrow> (Inr (), send_ignored ERR_line c1, st, d)
     | Inr (Some data, c1) \<Rightarrow>
         (case fs_write d (manifestPath storageDir manifestId) data of
            Some d' \<Rightarrow> (Inr (), send_ignored OK_line c1, st, d')
          | None \<Rightarrow> (Inr (), send_ignored ERR_line c1, st, d)))"

definition handle_get_manifest :: "string \<Rightarrow> istream \<Rightarrow> conn \<Rightarrow> storage \<times> disk \<Rightarrow> unit result \<times> conn \<times> storage \<times> disk" where
  "handle_get_manifest storageDir iss c = (\<lambda>(st, d).
     case read_token [] iss of (manifestId, _) \<Rightarrow>
     case fs_read d (manifestPath storageDir manifestId) of
       None \<Rightarrow> (Inr (), send_ignored ERR_line c, st, d)
     | Some m \<Rightarrow>
         (let c1 = send_ignored (''OK '' @ show_nat (length m) @ [NL]) c in
          (Inr (), if length m > 0 then send_ignored m c1 else c1, st, d)))"

definition handle_has_manifest :: "string \<Rightarrow> istream \<Rightarrow> conn \<Rightarrow> storage \<times> disk \<Rightarrow> unit result \<times> conn \<times> storage \<times> disk" where
  "handle_has_manifest storageDir iss c = (\<lambda>(st, d).
     case read_token [] iss of (manifestId, _) \<Rightarrow>
       (Inr (), send_ignored
          (if fs_read d (manifestPath storageDir manifestId) \<noteq> None then OK_line else ERR_line) c, st, d))"

text \<open>One connection, from \<^verbatim>\<open>recv_line\<close> to \<^verbatim>\<open>close\<close>; an unknown command gets no answer.\<close>

definition handle_command :: "string \<Rightarrow> string \<Rightarrow> istream \<Rightarrow> conn \<Rightarrow> storage \<times> disk \<Rightarrow> unit result \<times> conn \<times> storage \<times> disk" where
  "handle_command storageDir cmd iss c s =
     (if cmd = ''PUT_CHUNK'' then handle_put_chunk iss c s
      else if cmd = ''GET_CHUNK'' then handle_get_chunk iss c s
      else if cmd = ''HAS_CHUNK'' then handle_has_chunk iss c s
      else if cmd = ''PUT_MANIFEST'' then handle_put_manifest storageDir iss c s
      else if cmd = ''GET_MANIFEST'' then handle_get_manifest storageDir iss c s
      else if cmd = ''HAS_MANIFEST'' then handle_has_manifest storageDir iss c s
      else (Inr (), c, s))"

definition handle_client :: "string \<Rightarrow> conn \<Rightarrow> storage \<times> disk \<Rightarrow> unit result \<times> conn \<times> storage \<times> disk" where
  "handle_client storageDir c s =
     (case recv_line (cn_rx c) of (ok, line, es) \<Rightarrow>
        let c1 = c\<lparr>cn_rx := es\<rparr> in
        if \<not> ok then (Inr (), close_conn c1, s)
        else (case read_token [] (istringstream line) of (cmd, iss) \<Rightarrow>
               (case handle_command storageDir cmd iss c1 s of
                  (Inl e, c2, s') \<Rightarrow> (Inl e, c2, s')
                | (Inr _, c2, s') \<Rightarrow> (Inr (), close_conn c2, s'))))"

text \<open>
  The accept loop on the outcomes of \<^verbatim>\<open>accept\<close> while the service runs; the list ends when
  \<^verbatim>\<open>running_\<close> is cleared. The result holds the connections it has dealt with.
\<close>

datatype accepted = Accept_error | Client conn

fun accept_loop :: "string \<Rightarrow> accepted list \<Rightarrow> storage \<times> disk \<Rightarrow> unit result \<times> conn list \<times> storage \<times> disk" where
  "accept_loop storageDir [] s = (Inr (), [], s)"
| "accept_loop storageDir (Accept_error # as) s = accept_loop storageDir as s"
| "accept_loop storageDir (Client c # as) s =
     (case handle_client storageDir c s of
        (Inl e, c', s') \<Rightarrow> (Inl e, [c'], s')
      | (Inr _, c', s') \<Rightarrow>
          (case accept_loop storageDir as s' of (r, cs, s'') \<Rightarrow> (r, c' # cs, s'')))"

section \<open>Answers\<close>

lemma handle_client_line:
  assumes "clean (cn_rx c)" "stream (cn_rx c) = l @ NL # body" "good_line l"
  shows "\<exists>es. clean es \<and> stream es = body \<and>
    handle_client storageDir c s =
      (case read_token [] (istringstream l) of (cmd, iss) \<Rightarrow>
        (case handle_command storageDir cmd iss (c\<lparr>cn_rx := es\<rparr>) s of
           (Inl e, c2, s') \<Rightarrow> (Inl e, c2, s')
         | (Inr _, c2, s') \<Rightarrow> (Inr (), close_conn c2, s')))"
proof -
  obtain es where "recv_line (cn_rx c) = (True, l, es)" "clean es" "stream es = body"
    using recv_line_at [OF assms(1,2)] assms(3) by (auto simp: good_line_def)
  then show ?thesis by (intro exI [of _ es]) (simp add: handle_client_def Let_def)
qed

lemma read_payload_clean:
  assumes "clean (cn_rx c)" "stream (cn_rx c) = data @ rest" "unat sz = length data" "length data \<le> vector_char_max"
  shows "\<exists>es. read_payload sz c = Inr (Some data, c\<lparr>cn_rx := es\<rparr>) \<and> clean es \<and> stream es = rest"
  using recv_exact_clean [OF assms(1), of 4096 "length data"] assms(2-4) by (auto simp: read_payload_def)

lemma commands_are_tokens [simp]:
  "is_token ''PUT_CHUNK''" "is_token ''GET_CHUNK''" "is_token ''HAS_CHUNK''"
  "is_token ''PUT_MANIFEST''" "is_token ''GET_MANIFEST''" "is_token ''HAS_MANIFEST''"
  by (simp_all add: is_token_def isspace_def)

text \<open>What each request does, for every segmentation of the incoming bytes.\<close>

lemma put_chunk_request:
  assumes "clean (cn_rx c)" "stream (cn_rx c) = (''PUT_CHUNK'' @ SP # k @ SP # show_u64 n) @ NL # data @ rest"
    "is_token k" "good_line (''PUT_CHUNK'' @ SP # k @ SP # show_u64 n)" "unat n = length data"
    "length data \<le> vector_char_max" "storeChunk k data s = (r, s')"
  shows "\<exists>es. clean es \<and> stream es = rest \<and> handle_client dir c s =
    (Inr (), close_conn (send_ignored (if r = Inr () then OK_line else ERR_line) (c\<lparr>cn_rx := es\<rparr>)), s')"
proof -
  obtain es where es: "clean es" "stream es = data @ rest" "handle_client dir c s =
      (case read_token [] (istringstream (''PUT_CHUNK'' @ SP # k @ SP # show_u64 n)) of (cmd, iss) \<Rightarrow>
        (case handle_command dir cmd iss (c\<lparr>cn_rx := es\<rparr>) s of
           (Inl e, c2, s') \<Rightarrow> (Inl e, c2, s')
         | (Inr _, c2, s') \<Rightarrow> (Inr (), close_conn c2, s')))"
    using handle_client_line [OF assms(1,2,4), of dir s] by blast
  obtain es' where es': "read_payload n (c\<lparr>cn_rx := es\<rparr>) = Inr (Some data, c\<lparr>cn_rx := es'\<rparr>)" "clean es'" "stream es' = rest"
    using read_payload_clean [of "c\<lparr>cn_rx := es\<rparr>" data rest n] es(1,2) assms(5,6) by auto
  have "handle_client dir c s = (case handle_put_chunk (istringstream (SP # k @ SP # show_u64 n)) (c\<lparr>cn_rx := es\<rparr>) s of
           (Inl e, c2, s') \<Rightarrow> (Inl e, c2, s') | (Inr _, c2, s') \<Rightarrow> (Inr (), close_conn c2, s'))"
    unfolding es(3) read_command(1) [OF commands_are_tokens(1) assms(3)] prod.case handle_command_def if_P [OF refl]
    by (rule refl)
  moreover have "read_token [] (istringstream (SP # k @ SP # show_u64 n)) = (k, istringstream (SP # show_u64 n))"
    by (rule read_command(2) [OF commands_are_tokens(1) assms(3)]) simp
  ultimately show ?thesis
    using es' assms(7) by (intro exI [of _ es']) (cases r; simp add: handle_put_chunk_def read_size)
qed

lemma get_chunk_request:
  assumes "clean (cn_rx c)" "stream (cn_rx c) = (''GET_CHUNK'' @ SP # k) @ NL # rest"
    "is_token k" "good_line (''GET_CHUNK'' @ SP # k)" "loadChunk k s = (r, s')" "cn_sends c = []"
  shows "\<exists>c'. handle_client dir c s = (Inr (), c', s') \<and> cn_closes c' = cn_closes c + 1
    \<and> cn_tx c' = cn_tx c @ (case r of Inl _ \<Rightarrow> ERR_line | Inr data \<Rightarrow> ''OK'' @ SP # show_nat (length data) @ NL # data)"
proof -
  obtain es where es: "clean es" "stream es = rest" "handle_client dir c s =
      (case read_token [] (istringstream (''GET_CHUNK'' @ SP # k)) of (cmd, iss) \<Rightarrow>
        (case handle_command dir cmd iss (c\<lparr>cn_rx := es\<rparr>) s of
           (Inl e, c2, s') \<Rightarrow> (Inl e, c2, s')
         | (Inr _, c2, s') \<Rightarrow> (Inr (), close_conn c2, s')))"
    using handle_client_line [OF assms(1,2,4), of dir s] by blast
  have "read_token [] (istringstream (''GET_CHUNK'' @ SP # k)) = (''GET_CHUNK'', istringstream (SP # k))"
    "read_token [] (istringstream (SP # k)) = (k, istringstream [])"
    using read_command(1) [OF commands_are_tokens(2) assms(3), of "[]"]
      read_command(2) [OF commands_are_tokens(2) assms(3), of "[]"] by simp_all
  then show ?thesis
    using assms(5,6) es(3)
    by (cases r) (simp_all add: handle_command_def handle_get_chunk_def send_ignored_open Let_def)
qed

lemma has_chunk_request:
  assumes "clean (cn_rx c)" "stream (cn_rx c) = (''HAS_CHUNK'' @ SP # k) @ NL # rest"
    "is_token k" "good_line (''HAS_CHUNK'' @ SP # k)" "cn_sends c = []"
  shows "\<exists>c'. handle_client dir c s = (Inr (), c', s) \<and> cn_closes c' = cn_closes c + 1
    \<and> cn_tx c' = cn_tx c @ (if hasChunk (fst s) k then OK_line else ERR_line)"
proof -
  obtain es where es: "handle_client dir c s =
      (case read_token [] (istringstream (''HAS_CHUNK'' @ SP # k)) of (cmd, iss) \<Rightarrow>
        (case handle_command dir cmd iss (c\<lparr>cn_rx := es\<rparr>) s of
           (Inl e, c2, s') \<Rightarrow> (Inl e, c2, s')
         | (Inr _, c2, s') \<Rightarrow> (Inr (), close_conn c2, s')))"
    using handle_client_line [OF assms(1,2,4), of dir s] by blast
  have "read_token [] (istringstream (''HAS_CHUNK'' @ SP # k)) = (''HAS_CHUNK'', istringstream (SP # k))"
    "read_token [] (istringstream (SP # k)) = (k, istringstream [])"
    using read_command(1) [OF commands_are_tokens(3) assms(3), of "[]"]
      read_command(2) [OF commands_are_tokens(3) assms(3), of "[]"] by simp_all
  then show ?thesis
    using assms(5) es
    by (simp add: handle_command_def handle_has_chunk_def send_ignored_open)
qed

lemma put_manifest_request:
  assumes "clean (cn_rx c)" "stream (cn_rx c) = (''PUT_MANIFEST'' @ SP # k @ SP # show_u64 n) @ NL # data @ rest"
    "is_token k" "good_line (''PUT_MANIFEST'' @ SP # k @ SP # show_u64 n)" "unat n = length data"
    "length data \<le> vector_char_max"
  shows "\<exists>es. clean es \<and> stream es = rest \<and> handle_client dir c (st, d) =
    (Inr (), close_conn (send_ignored (if can_open d (manifestPath dir k) then OK_line else ERR_line) (c\<lparr>cn_rx := es\<rparr>)),
     st, case fs_write d (manifestPath dir k) data of None \<Rightarrow> d | Some d' \<Rightarrow> d')"
proof -
  obtain es where es: "clean es" "stream es = data @ rest" "handle_client dir c (st, d) =
      (case read_token [] (istringstream (''PUT_MANIFEST'' @ SP # k @ SP # show_u64 n)) of (cmd, iss) \<Rightarrow>
        (case handle_command dir cmd iss (c\<lparr>cn_rx := es\<rparr>) (st, d) of
           (Inl e, c2, s') \<Rightarrow> (Inl e, c2, s')
         | (Inr _, c2, s') \<Rightarrow> (Inr (), close_conn c2, s')))"
    using handle_client_line [OF assms(1,2,4), of dir "(st, d)"] by blast
  obtain es' where es': "read_payload n (c\<lparr>cn_rx := es\<rparr>) = Inr (Some data, c\<lparr>cn_rx := es'\<rparr>)" "clean es'" "stream es' = rest"
    using read_payload_clean [of "c\<lparr>cn_rx := es\<rparr>" data rest n] es(1,2) assms(5,6) by auto
  have "handle_client dir c (st, d) = (case handle_put_manifest dir (istringstream (SP # k @ SP # show_u64 n)) (c\<lparr>cn_rx := es\<rparr>) (st, d) of
           (Inl e, c2, s') \<Rightarrow> (Inl e, c2, s') | (Inr _, c2, s') \<Rightarrow> (Inr (), close_conn c2, s'))"
    unfolding es(3) read_command(1) [OF commands_are_tokens(4) assms(3)] prod.case by (simp add: handle_command_def)
  moreover have "read_token [] (istringstream (SP # k @ SP # show_u64 n)) = (k, istringstream (SP # show_u64 n))"
    by (rule read_command(2) [OF commands_are_tokens(4) assms(3)]) simp
  ultimately show ?thesis
    using es' by (intro exI [of _ es'])
      (cases "can_open d (manifestPath dir k)"; simp add: handle_put_manifest_def read_size fs_write_def)
qed

lemma get_manifest_request:
  assumes "clean (cn_rx c)" "stream (cn_rx c) = (''GET_MANIFEST'' @ SP # k) @ NL # rest"
    "is_token k" "good_line (''GET_MANIFEST'' @ SP # k)" "cn_sends c = []"
  shows "\<exists>c'. handle_client dir c (st, d) = (Inr (), c', st, d) \<and> cn_closes c' = cn_closes c + 1
    \<and> cn_tx c' = cn_tx c @ (case fs_read d (manifestPath dir k) of None \<Rightarrow> ERR_line
        | Some m \<Rightarrow> ''OK'' @ SP # show_nat (length m) @ NL # m)"
proof -
  obtain es where es: "handle_client dir c (st, d) =
      (case read_token [] (istringstream (''GET_MANIFEST'' @ SP # k)) of (cmd, iss) \<Rightarrow>
        (case handle_command dir cmd iss (c\<lparr>cn_rx := es\<rparr>) (st, d) of
           (Inl e, c2, s') \<Rightarrow> (Inl e, c2, s')
         | (Inr _, c2, s') \<Rightarrow> (Inr (), close_conn c2, s')))"
    using handle_client_line [OF assms(1,2,4), of dir "(st, d)"] by blast
  have "read_token [] (istringstream (''GET_MANIFEST'' @ SP # k)) = (''GET_MANIFEST'', istringstream (SP # k))"
    "read_token [] (istringstream (SP # k)) = (k, istringstream [])"
    using read_command(1) [OF commands_are_tokens(5) assms(3), of "[]"]
      read_command(2) [OF commands_are_tokens(5) assms(3), of "[]"] by simp_all
  then show ?thesis
    using assms(5) es
    by (cases "fs_read d (manifestPath dir k)")
      (simp_all add: handle_command_def handle_get_manifest_def send_ignored_open Let_def)
qed

section \<open>The accept loop\<close>

text \<open>
  C4: Read your writes over the wire: after a \<^verbatim>\<open>PUT_CHUNK\<close> that the store has room for,
  answered \<^verbatim>\<open>OK\<close>, a \<^verbatim>\<open>GET_CHUNK\<close> on a later connection is answered with the length and
  the same bytes, whatever failed \<^verbatim>\<open>accept\<close> calls lie between and however both requests
  are cut into segments.
\<close>

theorem service_read_your_writes:
  assumes "store_inv s" "accepts s k" "room s (Suc (Suc n)) (length data + b)" "is_token k"
    "good_line (''PUT_CHUNK'' @ SP # k @ SP # show_u64 sz)" "unat sz = length data" "length data \<le> vector_char_max"
    "clean rx1" "stream rx1 = (''PUT_CHUNK'' @ SP # k @ SP # show_u64 sz) @ NL # data"
    "clean rx2" "stream rx2 = (''GET_CHUNK'' @ SP # k) @ [NL]"
  shows "\<exists>c1 c2 s'. accept_loop dir (Client (new_conn rx1 []) # replicate m Accept_error @ [Client (new_conn rx2 [])]) s
      = (Inr (), [c1, c2], s')
    \<and> cn_tx c1 = OK_line \<and> cn_tx c2 = ''OK'' @ SP # show_nat (length data) @ NL # data
    \<and> cn_closes c1 = 1 \<and> cn_closes c2 = 1 \<and> store_inv s' \<and> room s' n b"
proof -
  obtain s1 s2 where s: "storeChunk k data s = (Inr (), s1)" "loadChunk k s1 = (Inr data, s2)"
      "store_inv s2" "room s2 n b"
    using lru_store.put_then_get [OF assms(1-3)] by blast
  obtain c1 where c1: "handle_client dir (new_conn rx1 []) s = (Inr (), c1, s1)" "cn_tx c1 = OK_line" "cn_closes c1 = 1"
    using put_chunk_request [of "new_conn rx1 []" k sz data "[]", OF _ _ assms(4-7) s(1), of dir] assms(8,9)
    by (auto simp: new_conn_def send_ignored_open)
  have "good_line (''GET_CHUNK'' @ SP # k)" using assms(5) by (auto simp: good_line_def)
  then obtain c2 where c2: "handle_client dir (new_conn rx2 []) s1 = (Inr (), c2, s2)" "cn_closes c2 = 1"
      "cn_tx c2 = ''OK'' @ SP # show_nat (length data) @ NL # data"
    using get_chunk_request [of "new_conn rx2 []" k "[]", OF _ _ assms(4) _ s(2), of dir] assms(10,11)
    by (auto simp: new_conn_def)
  have "accept_loop dir (replicate m Accept_error @ [Client (new_conn rx2 [])]) s1 = (Inr (), [c2], s2)"
    by (induction m) (simp_all add: c2)
  with c1 c2 s show ?thesis by simp
qed

theorem service_read_your_writes_witness:
  "\<exists>c1 c2 s'. accept_loop ''p'' [Client (new_conn [Data ''PUT_CHUNK c 3'', Data (NL # ''ne''), Data ''w''] []),
       Accept_error, Client (new_conn [Data (''GET_CHUNK c'' @ [NL])] [])] (sample_store 12, sample_disk)
      = (Inr (), [c1, c2], s') \<and> cn_tx c1 = OK_line \<and> cn_tx c2 = ''OK 3'' @ NL # ''new''"
proof -
  have n: "show_u64 3 = ''3''" "show_nat (Suc (Suc (Suc 0))) = ''3''" by code_simp+
  have "accepts (sample_store 12, sample_disk) ''c''" "room (sample_store 12, sample_disk) (Suc (Suc 0)) (length ''new'' + 0)"
    by (simp_all add: accepts_def tmp_name_code room_def sample_simps meta_bytes_def)
  from service_read_your_writes [OF sample_store_inv this, of 3 "[Data ''PUT_CHUNK c 3'', Data (NL # ''ne''), Data ''w'']"
      "[Data (''GET_CHUNK c'' @ [NL])]" "''p''" 1]
  show ?thesis
    by (simp del: accept_loop.simps add: n is_token_def isspace_def good_line_def vector_char_max_def) fastforce
qed

text \<open>
  What the accounting needs of the environment: a file system that permits the writes of
  chunks, and counters far enough from wrapping for \<open>n\<close> requests with \<open>b\<close> bytes.
\<close>

definition serving :: "nat \<Rightarrow> nat \<Rightarrow> storage \<times> disk \<Rightarrow> bool" where
  "serving n b = (\<lambda>(st, d). within_limit st \<and> (\<forall>k. writable k (st, d))
     \<and> unat (st_accessCounter st) + n < 2 ^ 64 \<and> meta_bytes (st_meta st) + b < 2 ^ 64)"

lemma serving_counter: "serving (Suc n) b (st, d) \<Longrightarrow> st_accessCounter st \<noteq> - 1"
  by (auto simp: serving_def unat_u64_max)

lemma serving_step:
  assumes "serving (Suc n) (b + b') (st, d)" "within_limit st'" "meta_bytes (st_meta st') \<le> meta_bytes (st_meta st) + b"
    "unat (st_accessCounter st') \<le> unat (st_accessCounter st) + 1" "same_setting (st, d) (st', d')"
  shows "serving n b' (st', d') \<and> st_maxBytes st' = st_maxBytes st"
  using assms by (auto simp: serving_def same_setting_def writable_def)

lemma serving_mono: "serving (Suc n) b s \<Longrightarrow> b' \<le> b \<Longrightarrow> serving n b' s"
  by (auto simp: serving_def split: prod.splits)

lemma read_payload_le:
  "read_payload sz c = Inr (Some data, c') \<Longrightarrow> length data \<le> arriving (cn_rx c)"
  by (auto simp: read_payload_def split: if_splits prod.splits dest: recv_exact_le)

lemma handle_put_chunk_serving:
  assumes "serving (Suc n) (arriving (cn_rx c) + b) (st, d)" "handle_put_chunk iss c (st, d) = (r, c', st', d')"
  shows "serving n b (st', d') \<and> st_maxBytes st' = st_maxBytes st"
proof -
  obtain hash iss1 where i: "read_token [] iss = (hash, iss1)" by fastforce
  obtain sz iss2 where j: "read_u64 0 iss1 = (sz, iss2)" by fastforce
  show ?thesis
  proof (cases "\<exists>data c1. read_payload sz c = Inr (Some data, c1)")
    case False
    then have "st' = st \<and> d' = d"
      using assms(2) i j by (auto simp: handle_put_chunk_def split: sum.splits option.splits prod.splits)
    then show ?thesis using serving_mono [OF assms(1), of b] by simp
  next
    case True
    then obtain data c1 where p: "read_payload sz c = Inr (Some data, c1)" by blast
    note len = read_payload_le [OF p]
    obtain r1 where r1: "storeChunk hash data (st, d) = (r1, st', d')"
      using assms(2) i j p by (auto simp: handle_put_chunk_def split: prod.splits sum.splits)
    have ctr: "st_accessCounter st \<noteq> - 1" by (rule serving_counter [OF assms(1)])
    have "within_limit st" "writable hash (st, d)" "meta_bytes (st_meta st) + length data < 2 ^ 64"
      using assms(1) len by (auto simp: serving_def)
    then have "within_limit st' \<and> meta_bytes (st_meta st') \<le> meta_bytes (st_meta st) + length data
        \<and> unat (st_accessCounter st') \<le> unat (st_accessCounter st) + 1 \<and> same_setting (st, d) (st', d')"
      using storeChunk_accounted [OF _ _ ctr _ r1] by blast
    then show ?thesis using serving_step [OF assms(1), of st' d'] len by auto
  qed
qed

lemma handle_get_chunk_serving:
  assumes "serving (Suc n) b (st, d)" "handle_get_chunk iss c (st, d) = (r, c', st', d')"
  shows "serving n b (st', d') \<and> st_maxBytes st' = st_maxBytes st"
proof -
  obtain hash iss1 where i: "read_token [] iss = (hash, iss1)" by fastforce
  obtain r1 where r1: "loadChunk hash (st, d) = (r1, st', d')"
    using assms(2) i by (auto simp: handle_get_chunk_def Let_def split: prod.splits sum.splits)
  have "within_limit st" using assms(1) by (simp add: serving_def)
  from loadChunk_accounted [OF this serving_counter [OF assms(1)] r1]
  show ?thesis using serving_step [of n 0 b st d st' d'] assms(1) by auto
qed

lemma handle_put_manifest_serving:
  assumes "serving (Suc n) b (st, d)" "handle_put_manifest dir iss c (st, d) = (r, c', st', d')"
  shows "serving n b (st', d') \<and> st_maxBytes st' = st_maxBytes st"
proof -
  have "st' = st \<and> can_open d' = can_open d \<and> can_rename d' = can_rename d"
    using assms(2) can_write_rename(1)
    by (auto simp: handle_put_manifest_def split: prod.splits sum.splits option.splits)
  then show ?thesis using assms(1) by (auto simp: serving_def writable_def)
qed

lemma handle_client_serving:
  assumes "serving (Suc n) (arriving (cn_rx c) + b) (st, d)" "handle_client dir c (st, d) = (r, c', st', d')"
  shows "serving n b (st', d') \<and> st_maxBytes st' = st_maxBytes st"
proof -
  obtain ok line es where l: "recv_line (cn_rx c) = (ok, line, es)" by (cases "recv_line (cn_rx c)")
  have es: "arriving es \<le> arriving (cn_rx c)"
    using recv_line_loop_le [of "[]" "cn_rx c"] l by (simp add: recv_line_def)
  obtain cmd iss where t: "read_token [] (istringstream line) = (cmd, iss)" by fastforce
  obtain r1 c1 where h: "(r1, c1, st', d') = handle_command dir cmd iss (c\<lparr>cn_rx := es\<rparr>) (st, d) \<or> (st', d') = (st, d)"
    using assms(2) l t by (auto simp: handle_client_def Let_def split: prod.splits sum.splits if_splits)
  have le: "serving (Suc n) (arriving es + b) (st, d)" "serving (Suc n) b (st, d)" "serving n b (st, d)"
    using assms(1) es by (auto simp: serving_def)
  show ?thesis
  proof (cases "(st', d') = (st, d)")
    case True
    then show ?thesis using le(3) by simp
  next
    case False
    then have h': "handle_command dir cmd iss (c\<lparr>cn_rx := es\<rparr>) (st, d) = (r1, c1, st', d')" using h by auto
    then consider "handle_put_chunk iss (c\<lparr>cn_rx := es\<rparr>) (st, d) = (r1, c1, st', d')"
      | "handle_get_chunk iss (c\<lparr>cn_rx := es\<rparr>) (st, d) = (r1, c1, st', d')"
      | "handle_put_manifest dir iss (c\<lparr>cn_rx := es\<rparr>) (st, d) = (r1, c1, st', d')"
      using False
      by (auto simp: handle_command_def handle_has_chunk_def handle_get_manifest_def handle_has_manifest_def Let_def
          split: if_splits prod.splits option.splits)
    then show ?thesis
      using handle_put_chunk_serving [of n "c\<lparr>cn_rx := es\<rparr>" b st d iss r1 c1 st' d'] le
        handle_get_chunk_serving [OF le(2)] handle_put_manifest_serving [OF le(2)] by (cases; auto)
  qed
qed

fun arriving_total :: "accepted list \<Rightarrow> nat" where
  "arriving_total [] = 0"
| "arriving_total (Accept_error # as) = arriving_total as"
| "arriving_total (Client c # as) = arriving (cn_rx c) + arriving_total as"

lemma accept_loop_serving:
  "serving (length as) (arriving_total as) (st, d) \<Longrightarrow> accept_loop dir as (st, d) = (r, cs, st', d') \<Longrightarrow>
   within_limit st' \<and> st_maxBytes st' = st_maxBytes st"
proof (induction as arbitrary: st d cs)
  case Nil
  then show ?case by (simp add: serving_def)
next
  case (Cons a as)
  show ?case
  proof (cases a)
    case Accept_error
    then have "serving (length as) (arriving_total as) (st, d)"
      using serving_mono [of "length as" _ "(st, d)"] Cons.prems(1) by simp
    then show ?thesis using Cons Accept_error by simp
  next
    case (Client c)
    obtain r1 c1 st1 d1 where h: "handle_client dir c (st, d) = (r1, c1, st1, d1)"
      by (cases "handle_client dir c (st, d)")
    have s1: "serving (length as) (arriving_total as) (st1, d1)" "st_maxBytes st1 = st_maxBytes st"
      using handle_client_serving [OF _ h] Cons.prems(1) Client by auto
    show ?thesis
    proof (cases r1)
      case (Inl e)
      then show ?thesis using Cons.prems(2) Client h s1 by (auto simp: serving_def)
    next
      case (Inr u)
      then show ?thesis using Cons.IH [OF s1(1)] s1(2) Cons.prems(2) Client h
        by (auto split: prod.splits)
    qed
  qed
qed

text \<open>
  C26: Whatever bytes clients send, in any order and with any connection failures, the
  byte accounting of the peer stays exact and the bytes in use never exceed the limit, on
  a disk that permits the writes and while the 64-bit counters do not wrap.
\<close>

theorem accounting_any_clients:
  assumes "serving (length as) (arriving_total as) (st, d)" "accept_loop dir as (st, d) = (r, cs, st', d')"
  shows "accounted st' \<and> (st_maxBytes st = 0 \<or> st_usedBytes st' \<le> st_maxBytes st)"
  using accept_loop_serving [OF assms] by (auto simp: within_limit_def)

theorem accounting_any_clients_witness:
  "\<exists>r cs st' d'. accept_loop ''p'' [Client (new_conn [Data (''PUT_CHUNK x.tmp 4'' @ [NL] @ ''zzzz'')] []),
      Accept_error, Client (new_conn [Data (''GET_CHUNK a'' @ [NL])] [])] (sample_store 9, sample_disk) = (r, cs, st', d')
    \<and> accounted st' \<and> st_usedBytes st' \<le> 9"
proof -
  let ?as = "[Client (new_conn [Data (''PUT_CHUNK x.tmp 4'' @ [NL] @ ''zzzz'')] []),
      Accept_error, Client (new_conn [Data (''GET_CHUNK a'' @ [NL])] [])]"
  obtain r cs st' d' where run: "accept_loop ''p'' ?as (sample_store 9, sample_disk) = (r, cs, st', d')"
    by (cases "accept_loop ''p'' ?as (sample_store 9, sample_disk)")
  have "accounted (sample_store 9)" using sample_store_inv store_invD(1) by blast
  then have "serving (length ?as) (arriving_total ?as) (sample_store 9, sample_disk)"
    by (simp add: serving_def within_limit_def writable_def new_conn_def sample_simps meta_bytes_def)
  moreover have "st_maxBytes (sample_store 9) = 9" by (simp add: sample_simps)
  ultimately show ?thesis using accounting_any_clients [OF _ run] run by auto
qed

text \<open>
  A request announcing \<open>2 ^ 63\<close> bytes or more ends the service: the buffer is allocated
  outside the \<^verbatim>\<open>try\<close> block, the \<^verbatim>\<open>length_error\<close> leaves the accept loop, the connection is
  not closed, and no later client is served. A negative number is enough, since it is read
  into an unsigned variable.
\<close>

theorem oversized_put_ends_service:
  assumes "clean rx" "stream rx = (''PUT_CHUNK'' @ SP # k @ SP # t) @ NL # rest" "is_token k"
    "good_line (''PUT_CHUNK'' @ SP # k @ SP # t)" "fst (read_u64 0 (istringstream (SP # t))) = sz" "unat sz \<ge> 2 ^ 63"
  shows "\<exists>c e. accept_loop dir (Client (new_conn rx os) # as) s = (Inl e, [c], s) \<and> cn_closes c = 0 \<and> cn_tx c = []"
proof -
  obtain es where es: "handle_client dir (new_conn rx os) s =
      (case read_token [] (istringstream (''PUT_CHUNK'' @ SP # k @ SP # t)) of (cmd, iss) \<Rightarrow>
        (case handle_command dir cmd iss ((new_conn rx os)\<lparr>cn_rx := es\<rparr>) s of
           (Inl e, c2, s') \<Rightarrow> (Inl e, c2, s')
         | (Inr _, c2, s') \<Rightarrow> (Inr (), close_conn c2, s')))"
    using handle_client_line [of "new_conn rx os" "''PUT_CHUNK'' @ SP # k @ SP # t" rest dir s] assms(1,2,4)
    by (auto simp: new_conn_def)
  have "read_token [] (istringstream (SP # k @ SP # t)) = (k, istringstream (SP # t))"
    by (rule read_command(2) [OF commands_are_tokens(1) assms(3)]) simp
  moreover obtain s2 where "read_u64 0 (istringstream (SP # t)) = (sz, s2)"
    using assms(5) by (cases "read_u64 0 (istringstream (SP # t))") auto
  ultimately have "handle_client dir (new_conn rx os) s
      = (Inl (Length_error ''cannot create std::vector larger than max_size()''), (new_conn rx os)\<lparr>cn_rx := es\<rparr>, s)"
    using es assms(6) unfolding read_command(1) [OF commands_are_tokens(1) assms(3)]
    by (simp add: handle_command_def handle_put_chunk_def read_payload_def vector_char_max_def)
  then show ?thesis by (simp add: new_conn_def)
qed

theorem oversized_put_ends_service_witness:
  "\<exists>c e. accept_loop ''p'' [Client (new_conn [Data (''PUT_CHUNK k -1'' @ [NL])] []),
      Client (new_conn [Data (''GET_CHUNK a'' @ [NL])] [])] (sample_store 9, sample_disk)
    = (Inl e, [c], sample_store 9, sample_disk) \<and> cn_closes c = 0"
proof -
  have "fst (read_u64 0 (istringstream (SP # ''-1''))) = - 1"
    by (simp add: read_u64_def read_num_def isspace_def scan_int_def isdigit_def digits_val_def digit_val_def to_u64_def)
  then show ?thesis
    using oversized_put_ends_service [of "[Data (''PUT_CHUNK k -1'' @ [NL])]" "''k''" "''-1''" "[]" "- 1" "''p''" "[]"
      "[Client (new_conn [Data (''GET_CHUNK a'' @ [NL])] [])]" "(sample_store 9, sample_disk)"]
    by (simp del: accept_loop.simps add: is_token_def isspace_def good_line_def unat_u64_max) blast
qed

text \<open>
  A \<^verbatim>\<open>PUT_CHUNK\<close> whose size is missing or not a number is taken for a chunk of size 0:
  an existing chunk of that name is replaced by an empty one, and the answer is \<^verbatim>\<open>OK\<close>.
\<close>

theorem put_without_size_empties:
  assumes "clean rx" "stream rx = (''PUT_CHUNK'' @ SP # k) @ NL # rest" "is_token k"
    "good_line (''PUT_CHUNK'' @ SP # k)" "store_inv s" "accepts s k" "room s (Suc n) b"
  shows "\<exists>c s'. handle_client dir (new_conn rx []) s = (Inr (), c, s') \<and> cn_tx c = OK_line
    \<and> contents s' = (contents s)(k \<mapsto> [])"
proof -
  obtain s' where s': "storeChunk k [] s = (Inr (), s')" "contents s' = (contents s)(k \<mapsto> [])"
    using lru_store.put_ok [OF assms(5,6), of n "[]" b] assms(7) by auto
  obtain es where es: "handle_client dir (new_conn rx []) s =
      (case read_token [] (istringstream (''PUT_CHUNK'' @ SP # k)) of (cmd, iss) \<Rightarrow>
        (case handle_command dir cmd iss ((new_conn rx [])\<lparr>cn_rx := es\<rparr>) s of
           (Inl e, c2, s') \<Rightarrow> (Inl e, c2, s')
         | (Inr _, c2, s') \<Rightarrow> (Inr (), close_conn c2, s')))"
    using handle_client_line [of "new_conn rx []" "''PUT_CHUNK'' @ SP # k" rest dir s] assms(1,2,4)
    by (auto simp: new_conn_def)
  have "read_token [] (istringstream (''PUT_CHUNK'' @ SP # k)) = (''PUT_CHUNK'', istringstream (SP # k))"
    "read_token [] (istringstream (SP # k)) = (k, istringstream [])"
    using read_command(1) [OF commands_are_tokens(1) assms(3), of "[]"]
      read_command(2) [OF commands_are_tokens(1) assms(3), of "[]"] by simp_all
  then show ?thesis
    using es s' by (simp add: handle_command_def handle_put_chunk_def read_payload_def u64c.extract_end
        recv_exact.simps [of _ 0] send_ignored_open new_conn_def)
qed

theorem put_without_size_empties_witness:
  "\<exists>c s'. handle_client ''p'' (new_conn [Data (''PUT_CHUNK a'' @ [NL])] []) (sample_store 9, sample_disk) = (Inr (), c, s')
    \<and> cn_tx c = OK_line \<and> contents s' ''a'' = Some []"
proof -
  have "accepts (sample_store 9, sample_disk) ''a''" "room (sample_store 9, sample_disk) (Suc 0) 0"
    by (simp_all add: accepts_def tmp_name_code room_def sample_simps meta_bytes_def)
  from put_without_size_empties [OF _ _ _ _ sample_store_inv this, of "[Data (''PUT_CHUNK a'' @ [NL])]" "[]" "''p''"]
  show ?thesis by (auto simp: is_token_def isspace_def good_line_def)
qed

end
