(* ===== verification/Cluster.thy ===== *)
theory Cluster
  imports Replication Peer_Service
begin

text \<open>
  Clients and peers together: the network parameter of the client is filled with the model
  of the peer service, one store per address, every message cut into segments in an
  arbitrary way.
\<close>

section \<open>Peers as a network\<close>

text \<open>The peers that run, by address, each with its storage manager and its disk.\<close>

type_synonym cluster = "sockaddr \<Rightarrow> (storage \<times> disk) option"

text \<open>
  A request is handled by \<open>handle_client\<close>; a peer whose accept loop is left by an exception
  accepts no further connection.
\<close>

definition serve_request :: "(bytes \<Rightarrow> recv_event list) \<Rightarrow> cluster \<Rightarrow> sockaddr \<Rightarrow> bytes \<Rightarrow> recv_event list \<times> cluster" where
  "serve_request seg w a sent =
     (case w a of
        None \<Rightarrow> ([], w)
      | Some s \<Rightarrow>
         (case handle_client (st_baseDir (fst s)) (new_conn (seg sent) []) s of
            (Inl e, c, s') \<Rightarrow> (seg (cn_tx c), w(a := None))
          | (Inr _, c, s') \<Rightarrow> (seg (cn_tx c), w(a \<mapsto> s'))))"

definition cluster_net :: "(string \<Rightarrow> u32 option) \<Rightarrow> (bytes \<Rightarrow> recv_event list) \<Rightarrow> cluster network" where
  "cluster_net resolve seg =
     \<lparr>net_sys = \<lambda>w. \<lparr>os_socket = True, os_inet_pton = resolve, os_getaddrinfo = \<lambda>_. None, os_connect = \<lambda>a. w a \<noteq> None\<rparr>,
      net_sends = \<lambda>_ _. [], net_reply = serve_request seg\<rparr>"

definition addr_of :: "(string \<Rightarrow> u32 option) \<Rightarrow> peer_endpoint \<Rightarrow> sockaddr option" where
  "addr_of resolve p = map_option (\<lambda>h. (h, word_of_int (port p))) (resolve (ip p))"

definition store_of :: "(string \<Rightarrow> u32 option) \<Rightarrow> cluster \<Rightarrow> peer_endpoint \<Rightarrow> (storage \<times> disk) option" where
  "store_of resolve w p = Option.bind (addr_of resolve p) w"

lemma connect_cluster:
  assumes "addr_of resolve p = Some a" "w a = Some s"
  shows "net_connect (cluster_net resolve seg) w p = (Inr a, 0)"
  using assms by (auto simp: net_connect_def connect_tcp_fatal_or_throw_def cluster_net_def addr_of_def
      fill_sockaddr_in_v4_def)

lemma exchange_cluster:
  assumes "w a = Some s"
  shows "exchange (cluster_net resolve seg) w a parts =
    (case serve_request seg w a (concat parts) of (es, w') \<Rightarrow> (Inr (), es, w'))"
  by (simp add: exchange_def cluster_net_def send_parts_open split: prod.splits)

section \<open>Requests and answers meet\<close>

text \<open>A name that fits into a request line.\<close>

definition object_name :: "string \<Rightarrow> bool" where
  "object_name k \<longleftrightarrow> is_token k \<and> length k \<le> 8000"

lemma good_line_put:
  assumes "object_name k" "is_token cmd" "length cmd \<le> 20"
  shows "good_line (cmd @ SP # k @ SP # show_u64 n)"
proof -
  have "length (show_u64 n) \<le> 20"
    unfolding show_u64_def using unat_u64_bound by (intro show_nat_short) simp
  moreover have "is_token (show_u64 n)" by (simp add: show_u64_def show_nat_is_token)
  ultimately show ?thesis
    using assms token_no_break [of k] token_no_break [of cmd] token_no_break [of "show_u64 n"]
    by (auto simp: good_line_def object_name_def)
qed

lemma good_line_name:
  "object_name k \<Longrightarrow> is_token cmd \<Longrightarrow> length cmd \<le> 20 \<Longrightarrow> good_line (cmd @ SP # k)"
  using token_no_break [of k] token_no_break [of cmd] by (auto simp: good_line_def object_name_def)

text \<open>The answer \<^verbatim>\<open>OK <n>\<close> with \<open>n\<close> bytes after it is received as those bytes.\<close>

lemma receive_object_OK:
  assumes "clean es" "stream es = ''OK'' @ SP # show_nat (length data) @ NL # data" "length data < 2 ^ 64"
    "alloc (of_nat (length data)) = Inr ()"
  shows "receive_object what alloc es = (Inr data, 1)"
proof -
  let ?n = "of_nat (length data) :: u64"
  have n: "unat ?n = length data" "show_nat (length data) = show_u64 ?n"
    using assms(3) by (simp_all add: unat_of_nat_u64 show_u64_def)
  have "stream es = (''OK'' @ SP # show_u64 ?n) @ NL # data" using assms(2) n(2) by simp
  note st = this
  have "good_line (''OK'' @ SP # show_u64 ?n)"
    using good_line_name [of "show_u64 ?n" "''OK''"] show_nat_short [OF assms(3)]
    by (simp add: object_name_def show_nat_is_token flip: n(2)) (simp add: is_token_def isspace_def)
  then obtain es' where es': "recv_line es = (True, ''OK'' @ SP # show_u64 ?n, es')" "clean es'" "stream es' = data"
    using recv_line_at [OF assms(1) st] unfolding good_line_def by blast
  have tok: "read_token [] (istringstream (''OK'' @ SP # show_u64 ?n)) = (''OK'', istringstream (SP # show_u64 ?n))"
    by (rule tok.extract_at) (simp_all add: is_token_def isspace_def)
  have "fst (recv_exact (length data) (length data) es') = Some data"
  proof (cases "data = []")
    case True
    then show ?thesis by (simp add: recv_exact.simps)
  next
    case False
    then show ?thesis using recv_exact_clean [OF es'(2), of "length data" "length data"] es'(3) by auto
  qed
  then show ?thesis
    using es'(1) tok assms(4) n(1)
    by (cases "recv_exact (length data) (length data) es'") (simp add: receive_object_def read_size)
qed

lemma receive_object_ERR:
  assumes "clean es" "stream es = ''ERR'' @ [NL]"
  shows "\<exists>e. receive_object what alloc es = (Inl e, 2)"
proof -
  obtain es' where "recv_line es = (True, ''ERR'', es')"
    using recv_line_at [OF assms(1), of "''ERR''" "[]"] assms(2) by auto
  moreover have "read_token [] (istringstream ''ERR'') = (''ERR'', istringstream [])"
    using tok.extract_at [of "''ERR''" "[]"] by (simp add: is_token_def isspace_def)
  ultimately show ?thesis by (auto simp: receive_object_def split: prod.splits)
qed

lemma serve_clean:
  assumes "segments seg" "w a = Some s" "handle_client (st_baseDir (fst s)) (new_conn (seg sent) []) s = (Inr (), c, s')"
  shows "serve_request seg w a sent = (seg (cn_tx c), w(a \<mapsto> s')) \<and> clean (seg (cn_tx c)) \<and> stream (seg (cn_tx c)) = cn_tx c"
  using assms by (simp add: serve_request_def segments_def)

lemma put_chunk_cluster:
  assumes "segments seg" "addr_of resolve p = Some a" "w a = Some s" "object_name k" "length v \<le> vector_char_max"
    "storeChunk k v s = (Inr (), s')"
  shows "putChunk (cluster_net resolve seg) w p k v = (Inr (), 1, w(a \<mapsto> s'))"
proof -
  let ?n = "of_nat (length v) :: u64" and ?c = "new_conn (seg (concat (put_request ''PUT_CHUNK'' k v))) []"
  have n: "unat ?n = length v" "show_nat (length v) = show_u64 ?n"
    using assms(5) by (simp_all add: unat_of_nat_u64 show_u64_def vector_char_max_def)
  have seg: "clean (cn_rx ?c)" "stream (cn_rx ?c) = (''PUT_CHUNK'' @ SP # k @ SP # show_u64 ?n) @ NL # v @ []"
    using assms(1) by (simp_all add: segments_def put_request_def new_conn_def flip: n(2))
  have line: "good_line (''PUT_CHUNK'' @ SP # k @ SP # show_u64 ?n)"
    by (rule good_line_put [OF assms(4)]) simp_all
  obtain c where c: "handle_client (st_baseDir (fst s)) ?c s = (Inr (), c, s')" "cn_tx c = OK_line"
    using put_chunk_request [OF seg _ line n(1) assms(5,6), of "st_baseDir (fst s)"] assms(4)
    by (auto simp: object_name_def send_ignored_open new_conn_def)
  note srv = serve_clean [where seg = seg and w = w and a = a, OF assms(1,3) c(1)]
  have "recv_all_text (seg (cn_tx c)) = Inr OK_line"
    using recv_all_loop_clean [of "seg (cn_tx c)" "[]"] srv c(2) by (simp add: recv_all_text_def)
  then show ?thesis
    using srv by (simp add: putChunk_def connect_cluster [where w = w and resolve = resolve and a = a, OF assms(2,3)] exchange_cluster [where w = w and a = a, OF assms(3)] starts_with_def)
qed

lemma put_manifest_cluster:
  assumes "segments seg" "addr_of resolve p = Some a" "w a = Some (st, d)" "object_name k" "length v \<le> vector_char_max"
    "fs_write d (manifestPath (st_baseDir st) k) v = Some d'"
  shows "putManifest (cluster_net resolve seg) w p k v = (Inr (), 1, w(a \<mapsto> (st, d')))"
proof -
  let ?n = "of_nat (length v) :: u64" and ?c = "new_conn (seg (concat (put_request ''PUT_MANIFEST'' k v))) []"
  have n: "unat ?n = length v" "show_nat (length v) = show_u64 ?n"
    using assms(5) by (simp_all add: unat_of_nat_u64 show_u64_def vector_char_max_def)
  have seg: "clean (cn_rx ?c)" "stream (cn_rx ?c) = (''PUT_MANIFEST'' @ SP # k @ SP # show_u64 ?n) @ NL # v @ []"
    using assms(1) by (simp_all add: segments_def put_request_def new_conn_def flip: n(2))
  have line: "good_line (''PUT_MANIFEST'' @ SP # k @ SP # show_u64 ?n)"
    by (rule good_line_put [OF assms(4)]) simp_all
  have "can_open d (manifestPath (st_baseDir st) k)" using assms(6) by (simp add: fs_write_Some)
  then obtain c where c: "handle_client (st_baseDir (fst (st, d))) ?c (st, d) = (Inr (), c, st, d')" "cn_tx c = OK_line"
    using put_manifest_request [OF seg _ line n(1) assms(5), of "st_baseDir st" st d] assms(4,6)
    by (auto simp: object_name_def send_ignored_open new_conn_def)
  note srv = serve_clean [where seg = seg and w = w and a = a, OF assms(1,3) c(1)]
  have "recv_all_text (seg (cn_tx c)) = Inr OK_line"
    using recv_all_loop_clean [of "seg (cn_tx c)" "[]"] srv c(2) by (simp add: recv_all_text_def)
  then show ?thesis
    using srv by (simp add: putManifest_def connect_cluster [where w = w and resolve = resolve and a = a, OF assms(2,3)] exchange_cluster [where w = w and a = a, OF assms(3)] starts_with_def)
qed

lemma get_object_cluster:
  assumes "segments seg" "addr_of resolve p = Some a" "w a = Some s"
    "handle_client (st_baseDir (fst s)) (new_conn (seg (concat (name_request cmd k))) []) s = (Inr (), c, s')"
  shows "get_object cmd alloc (cluster_net resolve seg) w p k
    = (case receive_object cmd alloc (seg (cn_tx c)) of (r, m) \<Rightarrow> (r, m, w(a \<mapsto> s')))"
  using serve_clean [where seg = seg and w = w and a = a, OF assms(1,3,4)]
  by (simp add: get_object_def connect_cluster [where w = w and resolve = resolve and a = a, OF assms(2,3)] exchange_cluster [where w = w and a = a, OF assms(3)])

lemma get_chunk_cluster:
  assumes "segments seg" "addr_of resolve p = Some a" "w a = Some s" "object_name k" "loadChunk k s = (r, s')"
    "\<And>v. r = Inr v \<Longrightarrow> length v \<le> vector_char_max"
  shows "\<exists>r' n. getChunk (cluster_net resolve seg) w p k = (r', n, w(a \<mapsto> s')) \<and> (\<forall>v. r = Inr v \<longrightarrow> r' = Inr v)
    \<and> (\<forall>e. r = Inl e \<longrightarrow> (\<exists>e'. r' = Inl e'))"
proof -
  let ?c = "new_conn (seg (concat (name_request ''GET_CHUNK'' k))) []"
  have seg: "clean (cn_rx ?c)" "stream (cn_rx ?c) = (''GET_CHUNK'' @ SP # k) @ NL # []"
    using assms(1) by (simp_all add: segments_def name_request_def new_conn_def)
  have line: "good_line (''GET_CHUNK'' @ SP # k)" by (rule good_line_name [OF assms(4)]) simp_all
  obtain c where c: "handle_client (st_baseDir (fst s)) ?c s = (Inr (), c, s')"
      "cn_tx c = (case r of Inl _ \<Rightarrow> ERR_line | Inr data \<Rightarrow> ''OK'' @ SP # show_nat (length data) @ NL # data)"
    using get_chunk_request [OF seg _ line assms(5), of "st_baseDir (fst s)"] assms(4) by (auto simp: object_name_def new_conn_def)
  have tx: "clean (seg (cn_tx c))" "stream (seg (cn_tx c)) = cn_tx c" using assms(1) by (simp_all add: segments_def)
  have "(\<forall>v. r = Inr v \<longrightarrow> receive_object ''GET_CHUNK'' alloc_vector (seg (cn_tx c)) = (Inr v, 1))
    \<and> (\<forall>e. r = Inl e \<longrightarrow> (\<exists>e'. receive_object ''GET_CHUNK'' alloc_vector (seg (cn_tx c)) = (Inl e', 2)))"
    using receive_object_OK [OF tx(1)] receive_object_ERR [OF tx(1)] tx(2) c(2) assms(6)
    by (cases r) (auto simp: alloc_vector_def vector_char_max_def unat_of_nat_u64)
  then show ?thesis
    unfolding getChunk_def get_object_cluster [where seg = seg and w = w and a = a, OF assms(1-3) c(1)] by (cases r) auto
qed

lemma has_chunk_cluster:
  assumes "segments seg" "addr_of resolve p = Some a" "w a = Some s" "object_name k"
  shows "hasChunk_rpc (cluster_net resolve seg) w p k = (Inr (hasChunk (fst s) k), 1, w)"
proof -
  let ?c = "new_conn (seg (concat (name_request ''HAS_CHUNK'' k))) []"
  have seg: "clean (cn_rx ?c)" "stream (cn_rx ?c) = (''HAS_CHUNK'' @ SP # k) @ NL # []"
    using assms(1) by (simp_all add: segments_def name_request_def new_conn_def)
  have line: "good_line (''HAS_CHUNK'' @ SP # k)" by (rule good_line_name [OF assms(4)]) simp_all
  obtain c where c: "handle_client (st_baseDir (fst s)) ?c s = (Inr (), c, s)"
      "cn_tx c = (if hasChunk (fst s) k then ''OK'' else ''ERR'') @ NL # []"
    using has_chunk_request [OF seg _ line, of "st_baseDir (fst s)" s] assms(4)
    by (auto simp: object_name_def new_conn_def split: if_splits)
  have tx: "clean (seg (cn_tx c))" "stream (seg (cn_tx c)) = cn_tx c" using assms(1) by (simp_all add: segments_def)
  obtain es where "recv_line (seg (cn_tx c)) = (True, if hasChunk (fst s) k then ''OK'' else ''ERR'', es)"
    using recv_line_at [OF tx(1) trans [OF tx(2) c(2)]] by (cases "hasChunk (fst s) k") auto
  moreover have "w(a \<mapsto> s) = w" using assms(3) by auto
  ultimately show ?thesis
    using serve_clean [where seg = seg and w = w and a = a, OF assms(1,3) c(1)]
    by (simp add: hasChunk_rpc_def has_object_def starts_with_def
        connect_cluster [where w = w and resolve = resolve and a = a, OF assms(2,3)]
        exchange_cluster [where w = w and a = a, OF assms(3)])
qed

lemma get_manifest_cluster:
  assumes "segments seg" "addr_of resolve p = Some a" "w a = Some (st, d)" "object_name k"
    "\<And>v. fs_read d (manifestPath (st_baseDir st) k) = Some v \<Longrightarrow> length v < vector_char_max"
  shows "\<exists>r n. getManifest (cluster_net resolve seg) w p k = (r, n, w)
    \<and> (\<forall>v. fs_read d (manifestPath (st_baseDir st) k) = Some v \<longleftrightarrow> r = Inr v)"
proof -
  let ?c = "new_conn (seg (concat (name_request ''GET_MANIFEST'' k))) []"
  let ?m = "fs_read d (manifestPath (st_baseDir st) k)"
  have seg: "clean (cn_rx ?c)" "stream (cn_rx ?c) = (''GET_MANIFEST'' @ SP # k) @ NL # []"
    using assms(1) by (simp_all add: segments_def name_request_def new_conn_def)
  have line: "good_line (''GET_MANIFEST'' @ SP # k)" by (rule good_line_name [OF assms(4)]) simp_all
  obtain c where c: "handle_client (st_baseDir (fst (st, d))) ?c (st, d) = (Inr (), c, st, d)"
      "cn_tx c = (case ?m of None \<Rightarrow> ERR_line | Some m \<Rightarrow> ''OK'' @ SP # show_nat (length m) @ NL # m)"
    using get_manifest_request [OF seg _ line, of "st_baseDir st" st d] assms(4) by (auto simp: object_name_def new_conn_def)
  have tx: "clean (seg (cn_tx c))" "stream (seg (cn_tx c)) = cn_tx c" using assms(1) by (simp_all add: segments_def)
  have "receive_object ''GET_MANIFEST'' alloc_string (seg (cn_tx c)) = (Inr v, 1)" if "?m = Some v" for v
    using receive_object_OK [OF tx(1), of v alloc_string] tx(2) c(2) that assms(5) [OF that]
    by (simp add: alloc_string_def vector_char_max_def unat_of_nat_u64)
  moreover have "\<exists>e. receive_object ''GET_MANIFEST'' alloc_string (seg (cn_tx c)) = (Inl e, 2)" if "?m = None"
    using receive_object_ERR [OF tx(1)] tx(2) c(2) that by simp
  moreover have "w(a \<mapsto> (st, d)) = w" using assms(3) by auto
  ultimately show ?thesis
    unfolding getManifest_def get_object_cluster [where seg = seg and w = w and a = a, OF assms(1-3) c(1)]
    by (cases ?m) (auto split: prod.splits)
qed

end
