(* ===== verification/Live_Cluster.thy ===== *)
theory Live_Cluster
  imports Cluster
begin

text \<open>
  The contracts of \<open>Replication\<close> are met by the peers of the model: a peer whose store is
  sound and has room answers every request as \<open>peer_rpc\<close> says, an address where no peer
  listens is one that is down. What a client may rely on end to end follows.
\<close>

section \<open>Peers that are ready\<close>

text \<open>The names that SHA-256 gives, and any other name that is one file of the two directories.\<close>

definition good_name :: "string \<Rightarrow> bool" where
  "good_name k \<longleftrightarrow> object_name k \<and> \<not> tmp_name k \<and> CHR ''/'' \<notin> set k"

lemma sha256_good_name:
  assumes "digest32 sha"
  shows "good_name (sha256_hex sha x)"
proof -
  have len: "length (sha x) = 32" by (rule digest32D [OF assms])
  have no: "CHR ''.'' \<notin> set (sha256_hex sha x)" "CHR ''/'' \<notin> set (sha256_hex sha x)"
    using sha256_hex_alphabet [of sha x, OF len] by (auto simp: kHex_def)
  have "\<not> tmp_name (sha256_hex sha x)"
  proof
    assume "tmp_name (sha256_hex sha x)"
    then obtain h where "sha256_hex sha x = h @ ''.tmp''" unfolding tmp_name_def by blast
    then show False using no(1) by simp
  qed
  then show ?thesis
    using no(2) sha256_hex_token [of sha x, OF len] sha256_hex_length [of sha x, OF len] by (simp add: good_name_def object_name_def)
qed

definition published_at :: "storage \<times> disk \<Rightarrow> string \<Rightarrow> bytes option" where
  "published_at = (\<lambda>(st, d) k. fs_read d (manifestPath (st_baseDir st) k))"

text \<open>
  A peer that will serve \<open>n\<close> more requests and take \<open>b\<close> more bytes: its store is sound, has
  room, may write the files of good names, and no file of a good name is too long for a
  \<^verbatim>\<open>std::vector\<close>.
\<close>

definition ready :: "storage \<times> disk \<Rightarrow> nat \<Rightarrow> nat \<Rightarrow> bool" where
  "ready = (\<lambda>(st, d) n b. store_inv (st, d) \<and> room (st, d) n b
     \<and> (\<forall>k. good_name k \<longrightarrow> accepts (st, d) k \<and> can_open d (manifestPath (st_baseDir st) k))
     \<and> (\<forall>k v. good_name k \<longrightarrow> fs_read d (chunkPath st k) = Some v \<or> fs_read d (manifestPath (st_baseDir st) k) = Some v
          \<longrightarrow> length v < vector_char_max))"

lemma readyD:
  assumes "ready (st, d) n b"
  shows "store_inv (st, d)" "room (st, d) n b" "wf_layout st"
    "good_name k \<Longrightarrow> accepts (st, d) k" "good_name k \<Longrightarrow> can_open d (manifestPath (st_baseDir st) k)"
    "good_name k \<Longrightarrow> fs_read d (chunkPath st k) = Some v \<Longrightarrow> length v < vector_char_max"
    "good_name k \<Longrightarrow> fs_read d (manifestPath (st_baseDir st) k) = Some v \<Longrightarrow> length v < vector_char_max"
  using assms by (auto simp: ready_def store_inv_def stored_def)

lemma readyI:
  assumes "store_inv (st, d)" "room (st, d) n b"
    "\<And>k. good_name k \<Longrightarrow> accepts (st, d) k" "\<And>k. good_name k \<Longrightarrow> can_open d (manifestPath (st_baseDir st) k)"
    "\<And>k v. good_name k \<Longrightarrow> fs_read d (chunkPath st k) = Some v \<Longrightarrow> length v < vector_char_max"
    "\<And>k v. good_name k \<Longrightarrow> fs_read d (manifestPath (st_baseDir st) k) = Some v \<Longrightarrow> length v < vector_char_max"
  shows "ready (st, d) n b"
  using assms by (auto simp: ready_def)

text \<open>The texts in a peer's chunk and manifest files.\<close>

definition texts_at :: "storage \<times> disk \<Rightarrow> bytes set" where
  "texts_at = (\<lambda>(st, d). {v. \<exists>k. good_name k \<and> (fs_read d (chunkPath st k) = Some v
     \<or> fs_read d (manifestPath (st_baseDir st) k) = Some v)})"

lemma texts_atI:
  "good_name k \<Longrightarrow> fs_read d (chunkPath st k) = Some v \<Longrightarrow> v \<in> texts_at (st, d)"
  "good_name k \<Longrightarrow> published_at (st, d) k = Some v \<Longrightarrow> v \<in> texts_at (st, d)"
  by (auto simp: texts_at_def published_at_def)

lemma room_mono: "room s m c \<Longrightarrow> n \<le> m \<Longrightarrow> b \<le> c \<Longrightarrow> room s n b"
  by (cases s) (auto simp: room_def)

lemma ready_mono: "ready s m c \<Longrightarrow> n \<le> m \<Longrightarrow> b \<le> c \<Longrightarrow> ready s n b"
  by (cases s) (auto simp: ready_def intro: room_mono)

text \<open>The files of chunks, of manifests and of the metadata are apart.\<close>

lemma manifestPath_apart:
  assumes "wf_layout st"
  shows "manifestPath (st_baseDir st) k \<noteq> chunkPath st j" "manifestPath (st_baseDir st) k \<noteq> chunkPath st j @ ''.tmp''"
    "manifestPath (st_baseDir st) k \<noteq> st_metaPath st"
    "manifestPath (st_baseDir st) k = manifestPath (st_baseDir st) j \<longleftrightarrow> k = j"
  using assms by (simp_all add: wf_layout_def manifestPath_def chunkPath_def)

lemma good_not_tmp: "good_name k \<Longrightarrow> chunkPath st j @ ''.tmp'' \<noteq> chunkPath st k"
  unfolding chunkPath_tmp by (auto simp: good_name_def tmp_name_def)

lemma ready_storeChunk:
  assumes "ready (st, d) (Suc n) (length v + b)" "good_name k" "length v < vector_char_max"
    "storeChunk k v (st, d) = (r, st', d')"
  shows "r = Inr () \<and> ready (st', d') n b \<and> contents (st', d') = (contents (st, d))(k \<mapsto> v)
    \<and> published_at (st', d') = published_at (st, d) \<and> texts_at (st', d') \<subseteq> insert v (texts_at (st, d))"
proof -
  note rd = readyD [OF assms(1)]
  have run: "r = Inr ()" "store_inv (st', d')" "contents (st', d') = (contents (st, d))(k \<mapsto> v)"
      "accepts (st', d') = accepts (st, d)" "room (st', d') n b"
    using storeChunk_room [OF rd(1) rd(4) [OF assms(2)] rd(2)] assms(4) by auto
  note frame = storeChunk_room_files [OF rd(1) rd(4) [OF assms(2)] rd(2) assms(4)]
  have man: "fs_read d' (manifestPath (st_baseDir st) j) = fs_read d (manifestPath (st_baseDir st) j)" for j
    using frame manifestPath_apart [OF rd(3)] by simp
  have chunk: "fs_read d' (chunkPath st j) = (if j = k then Some v else fs_read d (chunkPath st j))" if "good_name j" for j
    using frame chunkPath_not_meta [OF rd(3)] good_not_tmp [OF that, of st k] by simp
  have "ready (st', d') n b"
  proof (rule readyI)
    show "length x < vector_char_max" if "good_name j" "fs_read d' (chunkPath st' j) = Some x" for j x
      using that chunk [OF that(1)] frame rd(6) assms(3) by (auto split: if_splits)
  qed (use run frame rd man in auto)
  moreover have "published_at (st', d') = published_at (st, d)"
    using frame man by (simp add: published_at_def fun_eq_iff)
  moreover have "texts_at (st', d') \<subseteq> insert v (texts_at (st, d))"
    using frame man chunk by (auto simp: texts_at_def split: if_splits)
  ultimately show ?thesis using run by simp
qed

lemma ready_loadChunk:
  assumes "ready (st, d) (Suc n) b" "loadChunk k (st, d) = (r, st', d')"
  shows "ready (st', d') n b \<and> contents (st', d') = contents (st, d) \<and> published_at (st', d') = published_at (st, d)
    \<and> texts_at (st', d') = texts_at (st, d)"
proof -
  note rd = readyD [OF assms(1)]
  note run = loadChunk_room_any [OF rd(1,2) assms(2)]
  note frame = loadChunk_files [OF assms(2)]
  have man: "fs_read d' (manifestPath (st_baseDir st) j) = fs_read d (manifestPath (st_baseDir st) j)" for j
    using frame manifestPath_apart [OF rd(3)] by simp
  have chunk: "fs_read d' (chunkPath st j) = fs_read d (chunkPath st j)" for j
    using frame chunkPath_not_meta [OF rd(3)] by simp
  have "accepts (st', d') = accepts (st, d)" using frame by (simp add: accepts_def fun_eq_iff)
  then have "ready (st', d') n b"
    using run frame rd man chunk by (intro readyI) auto
  moreover have "published_at (st', d') = published_at (st, d)"
    using frame man by (simp add: published_at_def fun_eq_iff)
  moreover have "texts_at (st', d') = texts_at (st, d)"
    using frame man chunk by (simp add: texts_at_def)
  ultimately show ?thesis using run by simp
qed

lemma ready_manifest:
  assumes "ready (st, d) n b" "length v < vector_char_max" "fs_write d (manifestPath (st_baseDir st) k) v = Some d'"
  shows "ready (st, d') n b \<and> contents (st, d') = contents (st, d) \<and> published_at (st, d') = (published_at (st, d))(k \<mapsto> v)
    \<and> texts_at (st, d') \<subseteq> insert v (texts_at (st, d))"
proof -
  note rd = readyD [OF assms(1)]
  note apart = manifestPath_apart [OF rd(3)]
  have chunk: "fs_read d' (chunkPath st j) = fs_read d (chunkPath st j)" for j
    using fs_read_write [OF assms(3)] apart(1) [symmetric] by simp
  have man: "fs_read d' (manifestPath (st_baseDir st) j) = (if j = k then Some v else fs_read d (manifestPath (st_baseDir st) j))" for j
    using fs_read_write [OF assms(3)] apart(4) by auto
  have can: "can_open d' = can_open d" "can_rename d' = can_rename d"
    using can_write_rename(1) [OF assms(3)] by simp_all
  have "stored st d'" using store_invD(2) [OF rd(1)] by (rule stored_frame) (simp_all add: chunk rd(3))
  then have "store_inv (st, d')" using store_invD(1) [OF rd(1)] by (simp add: store_inv_def)
  moreover have "accepts (st, d') = accepts (st, d)" using can by (simp add: accepts_def fun_eq_iff)
  ultimately have "ready (st, d') n b"
    using rd chunk can assms(2) by (intro readyI) (auto simp: man room_def split: if_splits)
  moreover have "texts_at (st, d') \<subseteq> insert v (texts_at (st, d))"
    using chunk man by (auto simp: texts_at_def split: if_splits)
  ultimately show ?thesis using chunk man by (auto simp: contents_def published_at_def fun_eq_iff)
qed

section \<open>The cluster meets the contract\<close>

definition up_in :: "(string \<Rightarrow> u32 option) \<Rightarrow> cluster \<Rightarrow> peer_endpoint \<Rightarrow> nat \<Rightarrow> nat \<Rightarrow> bool" where
  "up_in resolve w p n b \<longleftrightarrow> (\<exists>s. store_of resolve w p = Some s \<and> ready s n b)"

definition held_in :: "(string \<Rightarrow> u32 option) \<Rightarrow> cluster \<Rightarrow> peer_endpoint \<Rightarrow> string \<Rightarrow> bytes option" where
  "held_in resolve w p = (case store_of resolve w p of None \<Rightarrow> Map.empty | Some s \<Rightarrow> contents s)"

definition published_in :: "(string \<Rightarrow> u32 option) \<Rightarrow> cluster \<Rightarrow> peer_endpoint \<Rightarrow> string \<Rightarrow> bytes option" where
  "published_in resolve w p = (case store_of resolve w p of None \<Rightarrow> Map.empty | Some s \<Rightarrow> published_at s)"

definition same_peer :: "(string \<Rightarrow> u32 option) \<Rightarrow> peer_endpoint \<Rightarrow> peer_endpoint \<Rightarrow> bool" where
  "same_peer resolve p q \<longleftrightarrow> addr_of resolve p = addr_of resolve q"

definition down_in :: "(string \<Rightarrow> u32 option) \<Rightarrow> cluster \<Rightarrow> peer_endpoint \<Rightarrow> bool" where
  "down_in resolve w p \<longleftrightarrow> store_of resolve w p = None"

text \<open>All texts in the chunk and manifest files of the peers.\<close>

definition texts_in :: "cluster \<Rightarrow> bytes set" where
  "texts_in w = (\<Union>s \<in> ran w. texts_at s)"

lemma texts_in_upd:
  assumes "w a = Some s" "texts_at s' \<subseteq> T \<union> texts_at s"
  shows "texts_in (w(a \<mapsto> s')) \<subseteq> T \<union> texts_in w"
proof -
  have "ran (w(a \<mapsto> s')) \<subseteq> insert s' (ran w)" by (auto simp: ran_def simp del: split_paired_Ex)
  moreover have "s \<in> ran w" using assms(1) by (rule ranI)
  ultimately show ?thesis using assms(2) unfolding texts_in_def by blast
qed

lemma texts_at_in: "w a = Some s \<Longrightarrow> v \<in> texts_at s \<Longrightarrow> v \<in> texts_in w"
  unfolding texts_in_def by (blast intro: ranI)

text \<open>A way of cutting messages into segments that loses nothing; a message in one piece otherwise.\<close>

definition orderly :: "(bytes \<Rightarrow> recv_event list) \<Rightarrow> bytes \<Rightarrow> recv_event list" where
  "orderly seg = (if segments seg then seg else (\<lambda>m. [Data m]))"

lemma segments_orderly [simp]: "segments (orderly seg)" "segments seg \<Longrightarrow> orderly seg = seg"
  by (simp_all add: orderly_def segments_def)

lemma store_of_upd:
  assumes "addr_of resolve p = Some a"
  shows "store_of resolve (w(a \<mapsto> s)) q = (if same_peer resolve p q then Some s else store_of resolve w q)"
  using assms by (cases "addr_of resolve q") (auto simp: store_of_def same_peer_def)

lemma up_inE:
  assumes "up_in resolve w p n b"
  obtains a st d where "addr_of resolve p = Some a" "w a = Some (st, d)" "ready (st, d) n b"
    "store_of resolve w p = Some (st, d)"
proof -
  obtain st d where s: "store_of resolve w p = Some (st, d)" "ready (st, d) n b"
    using assms unfolding up_in_def by (metis surj_pair)
  then obtain a where a: "addr_of resolve p = Some a" "w a = Some (st, d)" by (auto simp: store_of_def bind_eq_Some_conv)
  show thesis by (rule that [OF a s(2,1)])
qed

lemma same_peer_store: "same_peer resolve p q \<Longrightarrow> store_of resolve w q = store_of resolve w p"
  by (simp add: same_peer_def store_of_def)

lemma store_of_same: "store_of resolve w p = Some s \<Longrightarrow> addr_of resolve p = Some a \<Longrightarrow> same_peer resolve p q \<Longrightarrow> store_of resolve w q = Some s"
  by (simp add: same_peer_store)

text \<open>What one peer's change means for all endpoints.\<close>

lemma in_upd:
  assumes "addr_of resolve p = Some a"
  shows "held_in resolve (w(a \<mapsto> s)) q = (if same_peer resolve p q then contents s else held_in resolve w q)"
    "published_in resolve (w(a \<mapsto> s)) q = (if same_peer resolve p q then published_at s else published_in resolve w q)"
    "up_in resolve (w(a \<mapsto> s)) q n b \<longleftrightarrow> (if same_peer resolve p q then ready s n b else up_in resolve w q n b)"
    "down_in resolve (w(a \<mapsto> s)) q \<longleftrightarrow> (if same_peer resolve p q then False else down_in resolve w q)"
  unfolding held_in_def published_in_def up_in_def down_in_def store_of_upd [OF assms] by (auto simp del: split_paired_Ex)

lemma in_same:
  assumes "store_of resolve w p = Some s" "same_peer resolve p q"
  shows "held_in resolve w q = contents s" "published_in resolve w q = published_at s"
    "up_in resolve w q n b \<longleftrightarrow> ready s n b" "\<not> down_in resolve w q"
  unfolding held_in_def published_in_def up_in_def down_in_def same_peer_store [OF assms(2)] assms(1) by simp_all

lemma keep_in:
  assumes "addr_of resolve p = Some a" "store_of resolve w p = Some s"
  shows "contents s' = contents s \<Longrightarrow> held_in resolve (w(a \<mapsto> s')) = held_in resolve w"
    "published_at s' = published_at s \<Longrightarrow> published_in resolve (w(a \<mapsto> s')) = published_in resolve w"
  using in_same [OF assms(2)] by (auto simp: in_upd [OF assms(1)])

lemma up_upd:
  assumes "addr_of resolve p = Some a" "store_of resolve w p = Some s" "up_in resolve w q m c"
    "ready s m c \<Longrightarrow> ready s' n b" "n \<le> m" "b \<le> c"
  shows "up_in resolve (w(a \<mapsto> s')) q n b"
proof (cases "same_peer resolve p q")
  case True
  then show ?thesis unfolding in_upd(3) [OF assms(1)] using in_same(3) [OF assms(2)] assms(3,4) by simp
next
  case False
  moreover have "up_in resolve w q n b" using assms(3,5,6) ready_mono unfolding up_in_def by blast
  ultimately show ?thesis unfolding in_upd(3) [OF assms(1)] by simp
qed

lemma live_put_chunk:
  assumes "segments seg" "up_in resolve w p (Suc n) (length v + b)" "good_name k" "length v < vector_char_max"
  shows "\<exists>c w'. putChunk (cluster_net resolve seg) w p k v = (Inr (), c, w') \<and> published_in resolve w' = published_in resolve w
    \<and> texts_in w' \<subseteq> insert v (texts_in w)
    \<and> (\<forall>q. held_in resolve w' q = (if same_peer resolve p q then (held_in resolve w q)(k \<mapsto> v) else held_in resolve w q))
    \<and> (\<forall>q m b'. up_in resolve w q (Suc m) (length v + b') \<longrightarrow> up_in resolve w' q m b')"
proof -
  obtain a st d where p: "addr_of resolve p = Some a" "w a = Some (st, d)" "ready (st, d) (Suc n) (length v + b)"
      "store_of resolve w p = Some (st, d)" using up_inE [OF assms(2)] .
  obtain r st' d' where run: "storeChunk k v (st, d) = (r, st', d')" by (metis surj_pair)
  note step = ready_storeChunk [OF _ assms(3,4) run]
  have put: "putChunk (cluster_net resolve seg) w p k v = (Inr (), 1, w(a \<mapsto> (st', d')))"
    using step [OF p(3)] run assms(3,4) by (intro put_chunk_cluster [where seg = seg and resolve = resolve and w = w and a = a, OF assms(1) p(1,2)]) (simp_all add: good_name_def)
  note upd = in_upd [OF p(1), of w "(st', d')"] and same = in_same [OF p(4)]
  show ?thesis
  proof (rule exI, rule exI, intro conjI allI impI, rule put)
    show "published_in resolve (w(a \<mapsto> (st', d'))) = published_in resolve w"
      by (rule keep_in(2) [OF p(1,4)]) (use step [OF p(3)] in simp)
    show "texts_in (w(a \<mapsto> (st', d'))) \<subseteq> insert v (texts_in w)"
      using texts_in_upd [where w = w and a = a, OF p(2), of "(st', d')" "{v}"] step [OF p(3)] by simp
    show "held_in resolve (w(a \<mapsto> (st', d'))) q = (if same_peer resolve p q then (held_in resolve w q)(k \<mapsto> v) else held_in resolve w q)" for q
      unfolding upd(1) using step [OF p(3)] same(1) [of q] by simp
    show "up_in resolve (w(a \<mapsto> (st', d'))) q m b'" if "up_in resolve w q (Suc m) (length v + b')" for q m b'
      by (rule up_upd [OF p(1,4) that]) (use step in simp_all)
  qed
qed

lemma live_get_chunk:
  assumes "segments seg" "up_in resolve w p (Suc n) b" "good_name k"
  shows "\<exists>r c w'. getChunk (cluster_net resolve seg) w p k = (r, c, w') \<and> (\<forall>v. held_in resolve w p k = Some v \<longrightarrow> r = Inr v)
    \<and> (\<forall>v. r = Inr v \<longrightarrow> v \<in> texts_in w) \<and> texts_in w' \<subseteq> texts_in w \<and> held_in resolve w' = held_in resolve w \<and> published_in resolve w' = published_in resolve w
    \<and> (\<forall>q m b'. up_in resolve w q (Suc m) b' \<longrightarrow> up_in resolve w' q m b') \<and> (\<forall>q. down_in resolve w q \<longrightarrow> down_in resolve w' q)"
proof -
  obtain a st d where p: "addr_of resolve p = Some a" "w a = Some (st, d)" "ready (st, d) (Suc n) b"
      "store_of resolve w p = Some (st, d)" using up_inE [OF assms(2)] .
  obtain r st' d' where run: "loadChunk k (st, d) = (r, st', d')" by (metis surj_pair)
  note step = ready_loadChunk [OF _ run]
  have obj: "object_name k" using assms(3) by (simp add: good_name_def)
  have small: "length v \<le> vector_char_max" if "r = Inr v" for v
    using readyD(6) [OF p(3) assms(3)] loadChunk_files [OF run] that by fastforce
  have g: "\<exists>r' n. getChunk (cluster_net resolve seg) w p k = (r', n, w(a \<mapsto> (st', d')))
      \<and> (\<forall>v. r = Inr v \<longrightarrow> r' = Inr v) \<and> (\<forall>e. r = Inl e \<longrightarrow> (\<exists>e'. r' = Inl e'))"
    by (rule get_chunk_cluster [where seg = seg and resolve = resolve and w = w and a = a, OF assms(1) p(1,2) obj run]) (rule small)
  obtain r' c where get: "getChunk (cluster_net resolve seg) w p k = (r', c, w(a \<mapsto> (st', d')))" "\<forall>v. r = Inr v \<longrightarrow> r' = Inr v"
      "\<forall>e. r = Inl e \<longrightarrow> (\<exists>e'. r' = Inl e')"
    using g by (elim exE conjE) (rule that)
  note upd = in_upd [OF p(1), of w "(st', d')"] and same = in_same [OF p(4)]
  have res: "r = Inr v" if "held_in resolve w p k = Some v" for v
  proof -
    have "contents (st, d) k = Some v" using that same(1) [of p] by (simp add: same_peer_def)
    then show ?thesis using loadChunk_room [OF readyD(1,2) [OF p(3)]] run by fastforce
  qed
  show ?thesis
  proof (rule exI, rule exI, rule exI, intro conjI allI impI, rule get(1))
    show "r' = Inr v" if "held_in resolve w p k = Some v" for v using get(2) res [OF that] by blast
    show "v \<in> texts_in w" if "r' = Inr v" for v
    proof -
      have "r = Inr v" using get(2,3) that by (cases r) auto
      then have "fs_read d (chunkPath st k) = Some v" using loadChunk_files [OF run] by simp
      then show ?thesis by (rule texts_at_in [where w = w and a = a, OF p(2) texts_atI(1) [OF assms(3)]])
    qed
    show "texts_in (w(a \<mapsto> (st', d'))) \<subseteq> texts_in w"
      using texts_in_upd [where w = w and a = a, OF p(2), of "(st', d')" "{}"] step [OF p(3)] by simp
    show "held_in resolve (w(a \<mapsto> (st', d'))) = held_in resolve w"
      by (rule keep_in(1) [OF p(1,4)]) (use step [OF p(3)] in simp)
    show "published_in resolve (w(a \<mapsto> (st', d'))) = published_in resolve w"
      by (rule keep_in(2) [OF p(1,4)]) (use step [OF p(3)] in simp)
    show "up_in resolve (w(a \<mapsto> (st', d'))) q m b'" if "up_in resolve w q (Suc m) b'" for q m b'
      by (rule up_upd [OF p(1,4) that]) (use step in simp_all)
    show "down_in resolve (w(a \<mapsto> (st', d'))) q" if "down_in resolve w q" for q
      unfolding upd(4) using same(4) that by auto
  qed
qed

lemma live_put_manifest:
  assumes "segments seg" "up_in resolve w p n b" "good_name k" "length v < vector_char_max"
  shows "\<exists>c w'. putManifest (cluster_net resolve seg) w p k v = (Inr (), c, w') \<and> held_in resolve w' = held_in resolve w
    \<and> texts_in w' \<subseteq> insert v (texts_in w)
    \<and> (\<forall>q. published_in resolve w' q = (if same_peer resolve p q then (published_in resolve w q)(k \<mapsto> v) else published_in resolve w q))
    \<and> (\<forall>q m b'. up_in resolve w q m b' \<longrightarrow> up_in resolve w' q m b')"
proof -
  obtain a st d where p: "addr_of resolve p = Some a" "w a = Some (st, d)" "ready (st, d) n b"
      "store_of resolve w p = Some (st, d)" using up_inE [OF assms(2)] .
  obtain d' where d': "fs_write d (manifestPath (st_baseDir st) k) v = Some d'"
    using readyD(5) [OF p(3) assms(3)] by (simp add: fs_write_def)
  note step = ready_manifest [OF _ assms(4) d']
  have put: "putManifest (cluster_net resolve seg) w p k v = (Inr (), 1, w(a \<mapsto> (st, d')))"
    using assms(3,4) by (intro put_manifest_cluster [where seg = seg and resolve = resolve and w = w and a = a, OF assms(1) p(1,2) _ _ d']) (simp_all add: good_name_def)
  note upd = in_upd [OF p(1), of w "(st, d')"] and same = in_same [OF p(4)]
  show ?thesis
  proof (rule exI, rule exI, intro conjI allI impI, rule put)
    show "held_in resolve (w(a \<mapsto> (st, d'))) = held_in resolve w"
      by (rule keep_in(1) [OF p(1,4)]) (use step [OF p(3)] in simp)
    show "texts_in (w(a \<mapsto> (st, d'))) \<subseteq> insert v (texts_in w)"
      using texts_in_upd [where w = w and a = a, OF p(2), of "(st, d')" "{v}"] step [OF p(3)] by simp
    show "published_in resolve (w(a \<mapsto> (st, d'))) q
        = (if same_peer resolve p q then (published_in resolve w q)(k \<mapsto> v) else published_in resolve w q)" for q
      unfolding upd(2) using step [OF p(3)] same(2) [of q] by simp
    show "up_in resolve (w(a \<mapsto> (st, d'))) q m b'" if "up_in resolve w q m b'" for q m b'
      by (rule up_upd [OF p(1,4) that]) (use step in simp_all)
  qed
qed

lemma live_has_chunk:
  assumes "segments seg" "up_in resolve w p n b" "good_name k"
  shows "\<exists>c. hasChunk_rpc (cluster_net resolve seg) w p k = (Inr (held_in resolve w p k \<noteq> None), c, w)"
proof -
  obtain a st d where p: "addr_of resolve p = Some a" "w a = Some (st, d)" "ready (st, d) n b"
      "store_of resolve w p = Some (st, d)" using up_inE [OF assms(2)] .
  have "held_in resolve w p = contents (st, d)" using in_same(1) [OF p(4)] by (simp add: same_peer_def)
  moreover have "hasChunk_rpc (cluster_net resolve seg) w p k = (Inr (hasChunk st k), 1, w)"
    using has_chunk_cluster [where seg = seg and resolve = resolve and w = w and a = a, OF assms(1) p(1,2), of k] assms(3) by (simp add: good_name_def)
  ultimately show ?thesis using hasChunk_contents [OF readyD(1) [OF p(3)], of k] by simp
qed

lemma live_get_manifest:
  assumes "segments seg" "up_in resolve w p n b" "good_name k"
  shows "\<exists>r c. getManifest (cluster_net resolve seg) w p k = (r, c, w) \<and> (\<forall>v. published_in resolve w p k = Some v \<longleftrightarrow> r = Inr v)"
proof -
  obtain a st d where p: "addr_of resolve p = Some a" "w a = Some (st, d)" "ready (st, d) n b"
      "store_of resolve w p = Some (st, d)" using up_inE [OF assms(2)] .
  have "published_in resolve w p = published_at (st, d)" using in_same(2) [OF p(4)] by (simp add: same_peer_def)
  moreover have "object_name k" using assms(3) by (simp add: good_name_def)
  ultimately show ?thesis
    using get_manifest_cluster [where seg = seg and resolve = resolve and w = w and a = a, OF assms(1) p(1,2) _ readyD(7) [OF p(3) assms(3)]] by (fastforce simp: published_at_def)
qed

lemma published_texts:
  assumes "published_in resolve w p k = Some v" "good_name k"
  shows "v \<in> texts_in w"
proof -
  obtain a st d where "w a = Some (st, d)" "published_at (st, d) k = Some v"
    using assms(1) by (auto simp: published_in_def store_of_def bind_eq_Some_conv split: option.splits)
  then show ?thesis using texts_atI(2) [OF assms(2)] by (blast intro: texts_at_in)
qed

lemma down_connect_cluster:
  assumes "down_in resolve w p"
  shows "\<exists>e c. net_connect (cluster_net resolve seg) w p = (Inl e, c)"
  using assms
  by (auto simp: down_in_def store_of_def net_connect_def connect_tcp_fatal_or_throw_def cluster_net_def addr_of_def
      fill_sockaddr_in_v4_def split: option.splits)

interpretation live: crashing_peers "cluster_net resolve (orderly seg)" "up_in resolve" "held_in resolve"
    "published_in resolve" good_name "same_peer resolve" texts_in "down_in resolve"
  for resolve seg
proof
  show "up_in resolve w p m c \<Longrightarrow> n \<le> m \<Longrightarrow> b \<le> c \<Longrightarrow> up_in resolve w p n b" for w p m c n b
    by (auto simp: up_in_def intro: ready_mono)
  show "down_in resolve w' q" if "up_in resolve w p (Suc n) b" "good_name k"
    "getChunk (cluster_net resolve (orderly seg)) w p k = (r, c, w')" "down_in resolve w q" for w p n b k r c w' q
    using live_get_chunk [OF segments_orderly(1) that(1,2), of seg] that(3,4) by auto
  show "\<exists>r c w'. getChunk (cluster_net resolve (orderly seg)) w p k = (r, c, w')
      \<and> (\<forall>v. held_in resolve w p k = Some v \<longrightarrow> r = Inr v) \<and> (\<forall>v. r = Inr v \<longrightarrow> v \<in> texts_in w)
      \<and> texts_in w' \<subseteq> texts_in w \<and> held_in resolve w' = held_in resolve w
      \<and> published_in resolve w' = published_in resolve w
      \<and> (\<forall>q m b'. up_in resolve w q (Suc m) b' \<longrightarrow> up_in resolve w' q m b')"
    if "up_in resolve w p (Suc n) b" "good_name k" for w p n b k
    using live_get_chunk [OF segments_orderly(1) that, of seg] by blast
qed (fact live_put_chunk [OF segments_orderly(1)] live_has_chunk [OF segments_orderly(1)]
      live_put_manifest [OF segments_orderly(1)] live_get_manifest [OF segments_orderly(1)] down_connect_cluster
  | simp add: same_peer_def)+

end
