(* ===== verification/End_To_End.thy ===== *)
theory End_To_End
  imports Live_Cluster
begin

text \<open>
  Upload and download through live peers: what \<^verbatim>\<open>DssClient::putFile\<close> stored can be
  fetched by every client that knows the peers, also after some of them have crashed.
\<close>

section \<open>Crashes\<close>

text \<open>Some peers are gone, the others are as they were.\<close>

definition crashed_to :: "cluster \<Rightarrow> cluster \<Rightarrow> bool" where
  "crashed_to w w' \<longleftrightarrow> (\<forall>a. w' a = w a \<or> w' a = None)"

definition down_peers :: "(string \<Rightarrow> u32 option) \<Rightarrow> cluster \<Rightarrow> peer_endpoint list \<Rightarrow> nat" where
  "down_peers resolve w ps = card {p \<in> set ps. down_in resolve w p}"

lemma crashed_store_of: "crashed_to w w' \<Longrightarrow> store_of resolve w' p = store_of resolve w p \<or> store_of resolve w' p = None"
  by (cases "addr_of resolve p") (simp_all add: crashed_to_def store_of_def del: split_paired_All)

lemma crashed_alive:
  assumes "crashed_to w w'" "\<not> down_in resolve w' p"
  shows "held_in resolve w' p = held_in resolve w p" "published_in resolve w' p = published_in resolve w p"
    "up_in resolve w' p n b \<longleftrightarrow> up_in resolve w p n b"
  using assms crashed_store_of [OF assms(1), of resolve p]
  by (auto simp: down_in_def held_in_def published_in_def up_in_def)

lemma crashed_up_or_down: "crashed_to w w' \<Longrightarrow> up_in resolve w p n b \<Longrightarrow> up_in resolve w' p n b \<or> down_in resolve w' p"
  using crashed_alive(3) by blast

lemma crashed_texts:
  assumes "crashed_to w w'"
  shows "texts_in w' \<subseteq> texts_in w"
proof -
  have "ran w' \<subseteq> ran w"
  proof
    fix s assume "s \<in> ran w'"
    then obtain a where a: "w' a = Some s" unfolding ran_def by blast
    then have "w a = Some s" using assms unfolding crashed_to_def by (metis option.distinct(1))
    then show "s \<in> ran w" by (rule ranI)
  qed
  then show ?thesis unfolding texts_in_def by blast
qed

text \<open>The peers among \<open>ps\<close> that were running before and are gone now.\<close>

definition crash_count :: "(string \<Rightarrow> u32 option) \<Rightarrow> cluster \<Rightarrow> cluster \<Rightarrow> peer_endpoint list \<Rightarrow> nat" where
  "crash_count resolve w w' ps = card {p \<in> set ps. \<not> down_in resolve w p \<and> down_in resolve w' p}"

lemma crash_count_up:
  assumes "\<forall>p \<in> set ps. up_in resolve w p n b"
  shows "crash_count resolve w w' ps = down_peers resolve w' ps"
proof -
  have "\<not> down_in resolve w p" if "p \<in> set ps" for p using assms that by (auto simp: up_in_def down_in_def)
  then have "{p \<in> set ps. \<not> down_in resolve w p \<and> down_in resolve w' p} = {p \<in> set ps. down_in resolve w' p}" by blast
  then show ?thesis by (simp add: crash_count_def down_peers_def)
qed

text \<open>Fewer crashes than copies leave a copy.\<close>

lemma survivor:
  assumes "distinct hs" "set hs \<subseteq> set ps" "down_peers resolve w ps < length hs"
  shows "\<exists>p \<in> set hs. \<not> down_in resolve w p"
proof (rule ccontr)
  assume "\<not> ?thesis"
  then have "set hs \<subseteq> {p \<in> set ps. down_in resolve w p}" using assms(2) by blast
  then have "card (set hs) \<le> down_peers resolve w ps" unfolding down_peers_def by (intro card_mono) simp_all
  then show False using assms(1,3) by (simp add: distinct_card)
qed

lemma plain_manifest_wf:
  assumes "digest32 sha" "is_token (path_filename path)" "length chunks \<le> entries_max"
  shows "wf_manifest (plain_manifest sha cfg path content chunks)"
  using assms sha_hex_is_token [OF assms(1)]
  by (auto simp: wf_manifest_def plain_manifest_def manifest_head_def empty_manifest_def)

section \<open>Upload, crashes, download\<close>

text \<open>Of peers more than those that crashed, one is still there.\<close>

lemma surviving_target:
  assumes "\<forall>p \<in> set ps. up_in resolve w p n b" "crashed_to w w'" "distinct hs" "set hs \<subseteq> set ps"
    "down_peers resolve w' ps < length hs" "\<And>p. p \<in> set hs \<Longrightarrow> \<not> down_in resolve w' p \<Longrightarrow> Q p"
  shows "\<exists>p \<in> set ps. up_in resolve w' p n b \<and> Q p"
proof -
  obtain p where p: "p \<in> set hs" "\<not> down_in resolve w' p" using survivor [OF assms(3,4)] assms(5) by metis
  then show ?thesis using assms(1,4,6) crashed_alive(3) [OF assms(2) p(2)] by blast
qed

lemma download_after_crashes:
  assumes net: "segments seg" "en_net env' = cluster_net resolve seg" "digest32 (en_sha256 env')"
    and peers: "cc_peers cfg' \<noteq> []" "set (cc_peers cfg') = set ps"
    and dht: "table_of (en_sha256 env') (set ps) dht" and r: "r > 0"
    and m: "parseManifestText (serializeManifest m) = Inr m" "\<not> mf_encrypted m" "\<forall>i \<in> set (mf_chunks m). good_name i"
      "mid = sha256_hex (en_sha256 env') (serializeManifest m)"
      "\<forall>v \<in> texts_in w. sha256_hex (en_sha256 env') v = mid \<longrightarrow> v = serializeManifest m"
    and up: "\<forall>p \<in> set ps. up_in resolve w p (length (cc_peers cfg') * length (mf_chunks m)) 0"
    and hon: "live.honest resolve (en_sha256 env') w"
    and reps: "\<forall>i \<in> set (mf_chunks m). live.replicated resolve w (nat r) i (targets_of (en_sha256 env') dht r i)"
    and pub: "\<forall>p \<in> set (targets_of (en_sha256 env') dht r (''manifest:'' @ mid)). published_in resolve w p mid = Some (serializeManifest m)"
    and crash: "crashed_to w (ds_world s2)" "down_peers resolve (ds_world s2) ps < min (nat r) (length (rt_nodes dht))"
    and files: "\<not> fs_exists (ds_disk s2) (share_prefix @ mid)" "can_open (ds_disk s2) out"
  shows "\<exists>s3 pieces. getFile env' cfg' (share_prefix @ mid) out s2 = (Inr (), s3)
    \<and> accepted_texts env' cfg' (share_prefix @ mid) s2 = serializeManifest m # pieces \<and> set pieces \<subseteq> texts_in w"
proof -
  let ?sha = "en_sha256 env'" and ?w = "ds_world s2" and ?n = "length (cc_peers cfg') * length (mf_chunks m)"
  note some = surviving_target [OF up crash(1) _ _ order_less_le_trans [OF crash(2)]]
  have sub: "set (targets_of ?sha dht r k) \<subseteq> set ps" for k
    using targets_of_props(1) dht unfolding table_of_def by fastforce
  have len: "length (targets_of ?sha dht r k) = min (nat r) (length (rt_nodes dht))" for k
    using targets_of_props(2) [of ?sha dht r k] r by simp
  have "\<exists>p \<in> set (cc_peers cfg'). up_in resolve ?w p ?n 0 \<and> published_in resolve ?w p mid = Some (serializeManifest m)"
    unfolding peers(2) using pub crashed_alive(2) [OF crash(1)]
    by (intro some [OF distinct_targets [OF dht, of r "''manifest:'' @ mid"] sub]) (simp_all add: len)
  moreover have "\<exists>p \<in> set (cc_peers cfg'). up_in resolve ?w p ?n 0
      \<and> (\<exists>v. held_in resolve ?w p (mf_chunks m ! i) = Some v \<and> live.opens env' None (of_nat i) (mf_chunks m ! i) v)"
    if i: "i < length (mf_chunks m)" for i
  proof -
    let ?cid = "mf_chunks m ! i" and ?ts = "targets_of ?sha dht r (mf_chunks m ! i)"
    let ?hs = "filter (\<lambda>p. held_in resolve w p ?cid \<noteq> None) ?ts"
    have "live.replicated resolve w (nat r) ?cid ?ts" using reps i by simp
    then have "min (nat r) (length (rt_nodes dht)) \<le> length ?hs"
      by (simp add: live.replicated_def live.holders_def len)
    then show ?thesis unfolding peers(2)
    proof (intro some [of ?hs])
      show "distinct ?hs" using distinct_targets [OF dht] by simp
      show "set ?hs \<subseteq> set ps" using sub by auto
      show "\<exists>v. held_in resolve ?w p ?cid = Some v \<and> live.opens env' None (of_nat i) ?cid v"
        if "p \<in> set ?hs" "\<not> down_in resolve ?w p" for p
      proof -
        obtain v where v: "held_in resolve w p ?cid = Some v" using \<open>p \<in> set ?hs\<close> by auto
        then have "sha256_hex ?sha v = ?cid" using hon unfolding live.honest_def by blast
        then show ?thesis using v crashed_alive(1) [OF crash(1) that(2)] by (simp add: live.opens_def)
      qed
    qed
  qed
  moreover have "\<forall>p \<in> set (cc_peers cfg'). up_in resolve ?w p ?n 0 \<or> down_in resolve ?w p"
    using up peers(2) crashed_up_or_down [OF crash(1)] by blast
  moreover have "en_net env' = cluster_net resolve (orderly seg)" using net(1,2) by simp
  moreover have "\<forall>p \<in> set (cc_peers cfg'). \<forall>v. published_in resolve ?w p mid = Some v \<and> sha256_hex ?sha v = mid \<longrightarrow> v = serializeManifest m"
  proof (intro ballI allI impI)
    fix p v assume v: "published_in resolve ?w p mid = Some v \<and> sha256_hex ?sha v = mid"
    have "good_name mid" using sha256_good_name [OF net(3)] m(4) by simp
    then have "v \<in> texts_in ?w" using published_texts v by blast
    then show "v = serializeManifest m" using crashed_texts [OF crash(1)] m(5) v by blast
  qed
  moreover have "unwrap_key env' cfg' (ds_disk s2) m = (Inr None, False)" using m(2) by (simp add: unwrap_key_def)
  ultimately have "\<exists>s3 pieces. getFile env' cfg' (share_prefix @ mid) out s2 = (Inr (), s3)
      \<and> accepted_texts env' cfg' (share_prefix @ mid) s2 = serializeManifest m # pieces
      \<and> ((None :: file_encryption_params option) = None \<longrightarrow> set pieces \<subseteq> texts_in ?w)"
    using m(1,3,4) files peers(1) net(3) sha256_good_name [OF net(3)] normalize_share_uri
    by (intro live.getFile_up [where tx = "serializeManifest m" and m = m and b = "0" and keys = None and df = False]) (assumption | blast)+
  then show ?thesis using crashed_texts [OF crash(1)] by blast
qed

text \<open>No two of the texts have the same hash.\<close>

definition no_collision :: "(bytes \<Rightarrow> octet list) \<Rightarrow> bytes set \<Rightarrow> bool" where
  "no_collision sha T \<longleftrightarrow> inj_on (sha256_hex sha) T"

lemma no_collisionD: "no_collision sha T \<Longrightarrow> x \<in> T \<Longrightarrow> y \<in> T \<Longrightarrow> sha256_hex sha x = sha256_hex sha y \<Longrightarrow> x = y"
  by (auto simp: no_collision_def dest: inj_onD)

lemma no_collision_at_hand:
  assumes "no_collision sha T" "set xs \<subseteq> T" "set ys \<subseteq> T"
  shows "\<not> collision sha xs ys"
  unfolding collision_def using no_collisionD [OF assms(1)] assms(2,3) by blast

lemma sent_texts_plain:
  assumes "cc_rsaPublicKeyPath cfg = []" "fs_read d path = Some content" "chunkFile d path (cc_chunkSize cfg) = Inr chunks"
  shows "sent_texts env cfg rk ri path d = serializeManifest (plain_manifest (en_sha256 env) cfg path content chunks) # map ck_bytes chunks"
  using assms by (simp add: sent_texts_def make_file_key_def file_manifest_def plain_manifest_def)


lemma put_get_live:
  assumes net: "segments seg" "en_net env = cluster_net resolve seg" "en_net env' = cluster_net resolve seg"
      "en_sha256 env' = en_sha256 env" "digest32 (en_sha256 env)"
    and cfg: "cc_peers cfg \<noteq> []" "length (cc_peers cfg) < 2 ^ 31" "cc_rsaPublicKeyPath cfg = []"
      "set (cc_peers cfg') = set (cc_peers cfg)" "DhtNode (en_sha256 env) (cc_peers cfg) = Inr dht"
    and src: "fs_read (ds_disk s) path = Some content" "chunkFile (ds_disk s) path (cc_chunkSize cfg) = Inr chunks"
      "is_token (path_filename path)" "length content \<le> entries_max"
    and m: "m = plain_manifest (en_sha256 env) cfg path content chunks" "length (serializeManifest m) < vector_char_max"
      "write_local_manifest cfg (en_cwd env) m (ds_disk s) = (Inr lp, d')"
    and ids: "no_collision (en_sha256 env) (insert (serializeManifest m) (set (map ck_bytes chunks) \<union> texts_in (ds_world s)))"
    and hon: "\<forall>p k v. held_in resolve (ds_world s) p k = Some v \<longrightarrow> sha256_hex (en_sha256 env) v = k"
    and up: "\<forall>p \<in> set (cc_peers cfg). up_in resolve (ds_world s) p
        ((length (cc_peers cfg') + length (cc_peers cfg)) * length chunks) (length (cc_peers cfg) * length content)"
  shows "\<exists>res s1. putFile env cfg rk ri path s = (Inr res, s1)
    \<and> pr_shareUri res = share_prefix @ sha256_hex (en_sha256 env) (serializeManifest m) \<and>
    (\<forall>s2 out. crashed_to (ds_world s1) (ds_world s2)
       \<and> crash_count resolve (ds_world s1) (ds_world s2) (cc_peers cfg) < min (nat (clamp_replicas cfg)) (length (rt_nodes dht))
       \<and> \<not> fs_exists (ds_disk s2) (pr_shareUri res) \<and> can_open (ds_disk s2) out \<longrightarrow>
     (\<exists>s3. getFile env' cfg' (pr_shareUri res) out s2 = (Inr (), s3) \<and> fs_read (ds_disk s3) out = Some content))"
proof -
  let ?sha = "en_sha256 env" and ?r = "clamp_replicas cfg" and ?n = "length (cc_peers cfg') * length chunks"
  let ?mid = "sha256_hex ?sha (serializeManifest m)"
  note r = clamp_replicas_pos(1) [OF cfg(1,2)]
  note parts = chunkFile_parts [OF src(2,1)]
  have small: "length content < vector_char_max" using src(4) by (simp add: entries_max_def vector_char_max_def)
  have H: "en_net env = cluster_net resolve (orderly seg)" "live.honest resolve ?sha (ds_world s)"
    using net(1,2) hon by (simp_all add: live.honest_def)
  have U: "\<forall>p \<in> set (cc_peers cfg). up_in resolve (ds_world s) p (?n + length (cc_peers cfg) * length chunks)
      (length (cc_peers cfg) * length content + 0)"
    using up by (simp add: algebra_simps)
  obtain s1 where s1: "putFile env cfg rk ri path s = (Inr \<lparr>pr_shareUri = share_prefix @ ?mid, pr_localManifestPath = lp\<rparr>, s1)"
      "live.honest resolve ?sha (ds_world s1)"
      "\<forall>c \<in> set chunks. live.replicated resolve (ds_world s1) (nat ?r) (sha256_hex ?sha (ck_bytes c))
         (targets_of ?sha dht ?r (sha256_hex ?sha (ck_bytes c)))"
      "\<forall>p \<in> set (targets_of ?sha dht ?r (''manifest:'' @ ?mid)). published_in resolve (ds_world s1) p ?mid = Some (serializeManifest m)"
      "\<forall>p \<in> set (cc_peers cfg). up_in resolve (ds_world s1) p ?n 0"
      "texts_in (ds_world s1) \<subseteq> insert (serializeManifest m) (set (map ck_bytes chunks) \<union> texts_in (ds_world s))"
    using live.putFile_up [OF H(1) net(5) sha256_good_name [OF net(5)] cfg(1-3,5) src(1,2) small m H(2) U, of rk ri]
    by (elim exE conjE) (rule that)
  have ch: "mf_chunks m = map (sha256_hex ?sha) (map ck_bytes chunks)" "\<not> mf_encrypted m"
    by (simp_all add: m(1) plain_manifest_def)
  have wf: "wf_manifest m" unfolding m(1)
    using parts src(3,4) by (intro plain_manifest_wf [OF net(5)]) simp_all
  let ?T = "insert (serializeManifest m) (set (map ck_bytes chunks) \<union> texts_in (ds_world s))"
  have uni: "\<forall>v \<in> texts_in (ds_world s1). sha256_hex (en_sha256 env') v = ?mid \<longrightarrow> v = serializeManifest m"
    using s1(6) no_collisionD [OF ids, of _ "serializeManifest m"] net(4) by auto
  have "\<exists>s3. getFile env' cfg' (share_prefix @ ?mid) out s2 = (Inr (), s3) \<and> fs_read (ds_disk s3) out = Some content"
    if c: "crashed_to (ds_world s1) (ds_world s2)" "crash_count resolve (ds_world s1) (ds_world s2) (cc_peers cfg) < min (nat ?r) (length (rt_nodes dht))"
      "\<not> fs_exists (ds_disk s2) (share_prefix @ ?mid)" "can_open (ds_disk s2) out" for s2 out
  proof -
    have "cc_peers cfg' \<noteq> []" using cfg(1,4) by auto
    then have "\<exists>s3 pieces. getFile env' cfg' (share_prefix @ ?mid) out s2 = (Inr (), s3)
        \<and> accepted_texts env' cfg' (share_prefix @ ?mid) s2 = serializeManifest m # pieces \<and> set pieces \<subseteq> texts_in (ds_world s1)"
      using net cfg(4) table_of_DhtNode [OF cfg(5)] r parse_serialize [OF wf] ch s1 uni c [unfolded crash_count_up [OF s1(5)]]
        sha256_good_name [OF net(5)]
      by (intro download_after_crashes [where ps = "cc_peers cfg" and m = m and r = ?r and w = "ds_world s1" and seg = seg
          and resolve = resolve and dht = dht]) auto
    then obtain s3 pieces where g: "getFile env' cfg' (share_prefix @ ?mid) out s2 = (Inr (), s3)"
        "accepted_texts env' cfg' (share_prefix @ ?mid) s2 = serializeManifest m # pieces" "set pieces \<subseteq> texts_in (ds_world s1)"
      by blast
    have "set (accepted_texts env' cfg' (share_prefix @ ?mid) s2) \<subseteq> ?T" using g(2,3) s1(6) by auto
    moreover have "sent_texts env cfg rk ri path (ds_disk s) = serializeManifest m # map ck_bytes chunks"
      using sent_texts_plain [OF cfg(3) src(1,2)] m(1) by simp
    then have "set (sent_texts env cfg rk ri path (ds_disk s)) \<subseteq> ?T" by auto
    ultimately have "\<not> collision ?sha (sent_texts env cfg rk ri path (ds_disk s)) (accepted_texts env' cfg' (share_prefix @ ?mid) s2)"
      by (rule no_collision_at_hand [OF ids, rotated])
    then show ?thesis
      using put_get_same [OF s1(1), of env' cfg' out s2 s3 content] g(1) c(3) net(4,5) src by auto
  qed
  then show ?thesis using s1(1) by fastforce
qed

text \<open>
  C1: A plain file that was put while its peers were up survives crashes: if fewer peers
  crash than there are replicas, every client that knows the same peers gets the file, byte
  for byte, whichever peers they are and however the messages are cut into segments. The
  number of replicas is what was asked for, or the size of the routing table when that is
  smaller; each peer needs room for the requests of both calls and for the bytes. The
  conditions on the file and the peers: the file name is one word, the file has at most
  \<open>entries_max\<close> bytes, before the upload the peers hold no chunk under a name that is not
  its hash, and no two of the texts at hand have the same SHA-256, which are the manifest,
  the file's chunks and what the peers' chunk and manifest files hold before the upload.
\<close>

theorem put_get_despite_crashes:
  assumes net: "segments seg" "en_net env = cluster_net resolve seg" "en_net env' = cluster_net resolve seg"
      "en_sha256 env' = en_sha256 env" "digest32 (en_sha256 env)"
    and cfg: "cc_peers cfg \<noteq> []" "length (cc_peers cfg) < 2 ^ 31" "cc_rsaPublicKeyPath cfg = []"
      "set (cc_peers cfg') = set (cc_peers cfg)" "DhtNode (en_sha256 env) (cc_peers cfg) = Inr dht"
    and src: "fs_read (ds_disk s) path = Some content" "chunkFile (ds_disk s) path (cc_chunkSize cfg) = Inr chunks"
      "is_token (path_filename path)" "length content \<le> entries_max"
    and m: "m = plain_manifest (en_sha256 env) cfg path content chunks" "length (serializeManifest m) < vector_char_max"
      "write_local_manifest cfg (en_cwd env) m (ds_disk s) = (Inr lp, d')"
    and ids: "no_collision (en_sha256 env) (insert (serializeManifest m) (set (map ck_bytes chunks) \<union> texts_in (ds_world s)))"
    and hon: "\<forall>p k v. held_in resolve (ds_world s) p k = Some v \<longrightarrow> sha256_hex (en_sha256 env) v = k"
    and up: "\<forall>p \<in> set (cc_peers cfg). up_in resolve (ds_world s) p
        ((length (cc_peers cfg') + length (cc_peers cfg)) * length chunks) (length (cc_peers cfg) * length content)"
  shows "\<exists>res s1. putFile env cfg rk ri path s = (Inr res, s1)
    \<and> pr_shareUri res = share_prefix @ sha256_hex (en_sha256 env) (serializeManifest m) \<and>
    (\<forall>s2 out. crashed_to (ds_world s1) (ds_world s2)
       \<and> crash_count resolve (ds_world s1) (ds_world s2) (cc_peers cfg) < min (nat (clamp_replicas cfg)) (length (rt_nodes dht))
       \<and> \<not> fs_exists (ds_disk s2) (pr_shareUri res) \<and> can_open (ds_disk s2) out \<longrightarrow>
     (\<exists>s3. getFile env' cfg' (pr_shareUri res) out s2 = (Inr (), s3) \<and> fs_read (ds_disk s3) out = Some content))"
  by (rule put_get_live [OF assms])

section \<open>An example\<close>

text \<open>
  Two peers, one file of one chunk, and a digest that tells apart the texts that occur; one
  peer crashes after the upload.
\<close>

definition toy_manifest :: manifest where
  "toy_manifest = empty_manifest\<lparr>mf_originalName := ''f'', mf_originalSize := 4, mf_chunkSize := 4,
     mf_chunks := [to_hex (replicate 32 1)]\<rparr>"

text \<open>The digest \<open>sha_for m\<close>: the file's chunk, the text of the manifest \<open>m\<close> and the names that ids are made of.\<close>

definition code_for :: "manifest \<Rightarrow> bytes \<Rightarrow> octet" where
  "code_for m x = (if x = ''data'' then 1 else if x = serializeManifest m then 2 else if x = ''a:1'' then 3
     else if x = ''b:1'' then 4 else if x = ''client'' then 5 else 0)"

definition sha_for :: "manifest \<Rightarrow> bytes \<Rightarrow> octet list" where
  "sha_for m x = replicate 32 (code_for m x)"

definition toy_text :: bytes where
  "toy_text = serializeManifest toy_manifest"

definition toy_sha :: "bytes \<Rightarrow> octet list" where
  "toy_sha = sha_for toy_manifest"

definition toy_resolve :: "string \<Rightarrow> u32 option" where
  "toy_resolve h = (if h = ''a'' then Some 1 else if h = ''b'' then Some 2 else None)"

definition toy_env :: "(cluster, bool, unit, unit) dss_env" where
  "toy_env = \<lparr>en_sha256 = toy_sha, en_cipher = plain_cipher, en_pkey = plain_rsa,
     en_net = cluster_net toy_resolve (\<lambda>m. [Data m]), en_cwd = ''/h''\<rparr>"

definition toy_config :: client_config where
  "toy_config = \<lparr>cc_peers = [\<lparr>ip = ''a'', port = 1\<rparr>, \<lparr>ip = ''b'', port = 1\<rparr>], cc_chunkSize = 4, cc_desiredReplicas = 2,
     cc_rsaPublicKeyPath = [], cc_rsaPrivateKeyPath = [], cc_localManifestDir = []\<rparr>"

definition toy_cluster :: cluster where
  "toy_cluster a = (if a = (1, 1) \<or> a = (2, 1) then Some (StorageManager ''p'' 0, open_disk []) else None)"

definition toy_disk :: "(string \<times> bytes) list \<Rightarrow> disk" where
  "toy_disk fs = (open_disk fs)\<lparr>dirs := []\<rparr>"

definition toy_state :: "cluster \<Rightarrow> (string \<times> bytes) list \<Rightarrow> cluster dss_state" where
  "toy_state w fs = \<lparr>ds_world = w, ds_disk = toy_disk fs, ds_progress = [], ds_double_free = False\<rparr>"

lemma codes: "code_for m ''data'' = 1" "code_for m (serializeManifest m) = 2" "code_for m ''a:1'' = 3" "code_for m ''b:1'' = 4"
  "code_for m ''client'' = 5" "code_for m x = 1 \<longleftrightarrow> x = ''data''" "code_for m x = 2 \<longleftrightarrow> x = serializeManifest m"
proof -
  have "serializeManifest m \<noteq> ''data''" "serializeManifest m \<noteq> ''a:1''" "serializeManifest m \<noteq> ''b:1''"
    "serializeManifest m \<noteq> ''client''"
    by (simp_all add: serializeManifest_def)
  then show "code_for m ''data'' = 1" "code_for m (serializeManifest m) = 2" "code_for m ''a:1'' = 3" "code_for m ''b:1'' = 4"
    "code_for m ''client'' = 5" "code_for m x = 1 \<longleftrightarrow> x = ''data''" "code_for m x = 2 \<longleftrightarrow> x = serializeManifest m"
    by (simp_all add: code_for_def)
qed

lemma digest_for: "digest32 (sha_for m)" "length (sha_for m x) = 32"
  by (simp_all add: digest32_def sha_for_def)

lemma hex_for: "sha256_hex (sha_for m) x = to_hex (replicate 32 (code_for m x))"
  using sha256_hex_to_hex [of "sha_for m" x] digest_for by (simp only: sha_for_def)

lemma ids_for:
  assumes "x \<in> {serializeManifest m, ''data''}" "sha256_hex (sha_for m) x = sha256_hex (sha_for m) y"
  shows "y = x"
proof -
  have "code_for m x = code_for m y"
    using sha256_hex_eq_iff [of "sha_for m" x y] digest_for(2) assms(2) by (simp add: sha_for_def)
  then show ?thesis using assms(1) codes [of m] by (metis insert_iff singletonD)
qed

lemma no_collision_for: "no_collision (sha_for m) {serializeManifest m, ''data''}"
  unfolding no_collision_def by (intro inj_onI) (rule ids_for [symmetric])

lemma dht_for: "\<exists>dht. DhtNode (sha_for m) (cc_peers toy_config) = Inr dht \<and> map endpoint (rt_nodes dht) = cc_peers toy_config"
proof -
  have hex: "hexToBytes (sha256_hex (sha_for m) x) = Inr (replicate 32 (code_for m x))" for x
    using hexToBytes_sha256_hex [of "sha_for m" x] digest_for(2) by (simp add: sha_for_def)
  then have "makeNodeId (sha_for m) p = Inr (replicate 20 (code_for m (ip p @ '':'' @ show_int (port p))))" for p
    by (simp add: makeNodeId_def idFromBytes_def)
  moreover have "makeKeyId (sha_for m) ''client'' = Inr (replicate 20 5)"
    using hex codes by (simp add: makeKeyId_def idFromBytes_def)
  moreover have "show_int 1 = ''1''" by code_simp
  ultimately show ?thesis
    using codes by (simp add: DhtNode_def toy_config_def addNode_def RoutingTable_def)
qed

lemma toy_digest: "digest32 toy_sha" "length (toy_sha x) = 32"
  by (simp_all add: toy_sha_def digest_for)

lemma toy_no_texts: "texts_in toy_cluster = {}"
  by (auto simp: texts_in_def texts_at_def ran_def toy_cluster_def fs_read_def open_disk_def split: if_splits)

lemma toy_ids: "no_collision toy_sha {toy_text, ''data''}" "x \<in> {toy_text, ''data''} \<Longrightarrow> sha256_hex toy_sha x = sha256_hex toy_sha y \<Longrightarrow> y = x"
  unfolding toy_sha_def toy_text_def by (rule no_collision_for, rule ids_for)

lemma toy_dht: "\<exists>dht. DhtNode toy_sha (cc_peers toy_config) = Inr dht \<and> length (rt_nodes dht) = 2"
proof -
  obtain dht where "DhtNode toy_sha (cc_peers toy_config) = Inr dht" "map endpoint (rt_nodes dht) = cc_peers toy_config"
    unfolding toy_sha_def using dht_for by blast
  moreover from this(2) have "length (rt_nodes dht) = length (cc_peers toy_config)" by (metis length_map)
  ultimately show ?thesis by (simp add: toy_config_def)
qed

lemma toy_manifest_plain:
  "plain_manifest toy_sha toy_config ''f'' ''data'' [\<lparr>ck_id = [], ck_bytes = ''data''\<rparr>] = toy_manifest"
  by (simp add: plain_manifest_def manifest_head_def toy_manifest_def toy_config_def toy_sha_def hex_for codes path_filename_def)

lemma toy_text_short: "length toy_text < vector_char_max"
proof -
  have "length (to_hex (replicate 32 1)) = 64" by (simp add: hexc.length_enc)
  moreover have "show_u64 4 = ''4''" "show_nat 1 = ''1''" by code_simp+
  ultimately show ?thesis
    by (simp add: toy_text_def toy_manifest_def serializeManifest_def empty_manifest_def vector_char_max_def)
qed

lemma toy_ready: "n < 2 ^ 64 \<Longrightarrow> b < 2 ^ 64 \<Longrightarrow> ready (StorageManager ''p'' 0, open_disk []) n b"
  by (auto simp: ready_def store_inv_def accounted_def stored_def wf_layout_def room_def accepts_def StorageManager_def
      open_disk_def meta_bytes_def fs_read_def good_name_def object_name_def is_token_def)

lemma toy_up: "p \<in> set (cc_peers toy_config) \<Longrightarrow> n < 2 ^ 64 \<Longrightarrow> b < 2 ^ 64 \<Longrightarrow> up_in toy_resolve toy_cluster p n b"
  using toy_ready by (auto simp: toy_config_def up_in_def store_of_def addr_of_def toy_resolve_def toy_cluster_def)

lemma toy_empty: "held_in toy_resolve toy_cluster p = Map.empty"
  by (auto simp: held_in_def store_of_def toy_cluster_def contents_def hasChunk_def StorageManager_def fun_eq_iff
      Option.bind_eq_Some_conv split: option.splits if_splits)

lemma toy_chunks: "chunkFile (toy_disk [(''f'', ''data'')]) ''f'' 4 = Inr [\<lparr>ck_id = [], ck_bytes = ''data''\<rparr>]"
  by (simp add: chunkFile_def toy_disk_def open_disk_def fs_read_def vector_char_max_def chunk_loop_Cons)

lemma toy_local: "\<exists>lp d'. write_local_manifest toy_config ''/h'' toy_manifest (toy_disk [(''f'', ''data'')]) = (Inr lp, d')"
  by (simp add: write_local_manifest_def create_directories_def writeManifest_def fs_write_def toy_disk_def open_disk_def toy_config_def Let_def)

text \<open>The first of the two peers crashes.\<close>

lemma toy_crash:
  "crashed_to w (w((1, 1) := None))"
  "crash_count toy_resolve w (w((1, 1) := None)) (cc_peers toy_config) < min (nat (clamp_replicas toy_config)) 2"
proof -
  show "crashed_to w (w((1, 1) := None))" by (auto simp: crashed_to_def)
  have "{p \<in> set (cc_peers toy_config). \<not> down_in toy_resolve w p \<and> down_in toy_resolve (w((1, 1) := None)) p}
      \<subseteq> {\<lparr>ip = ''a'', port = 1\<rparr>}"
    by (auto simp: toy_config_def down_in_def store_of_def addr_of_def toy_resolve_def)
  then have "crash_count toy_resolve w (w((1, 1) := None)) (cc_peers toy_config) \<le> card {\<lparr>ip = ''a'', port = 1\<rparr> :: peer_endpoint}"
    unfolding crash_count_def by (intro card_mono) simp_all
  moreover have "clamp_replicas toy_config = 2" by (simp add: clamp_replicas_def toy_config_def int_of_size_def)
  ultimately show "crash_count toy_resolve w (w((1, 1) := None)) (cc_peers toy_config) < min (nat (clamp_replicas toy_config)) 2"
    by simp
qed

lemma toy_setting:
  "segments (\<lambda>m. [Data m])" "en_net toy_env = cluster_net toy_resolve (\<lambda>m. [Data m])" "en_sha256 toy_env = toy_sha"
  "en_cwd toy_env = ''/h''" "cc_peers toy_config \<noteq> []" "length (cc_peers toy_config) = 2"
  "cc_rsaPublicKeyPath toy_config = []" "cc_chunkSize toy_config = 4"
  "ds_world (toy_state w fs) = w" "ds_disk (toy_state w fs) = toy_disk fs"
  "is_token (path_filename ''f'')" "fs_read (toy_disk [(''f'', ''data'')]) ''f'' = Some ''data''"
  "can_open (toy_disk fs) p" "\<not> fs_exists (toy_disk []) x"
  by (simp_all add: segments_def toy_env_def toy_config_def toy_state_def path_filename_def is_token_def isspace_def
      toy_disk_def open_disk_def fs_read_def fs_exists_def share_prefix_def)

lemmas toy_get = toy_digest toy_ids(1) toy_no_texts toy_manifest_plain toy_text_short toy_up toy_empty toy_chunks toy_setting

theorem put_get_despite_crashes_witness:
  "\<exists>res s1 s3. putFile toy_env toy_config None None ''f'' (toy_state toy_cluster [(''f'', ''data'')]) = (Inr res, s1)
    \<and> getFile toy_env toy_config (pr_shareUri res) ''o'' (toy_state ((ds_world s1)((1, 1) := None)) []) = (Inr (), s3)
    \<and> fs_read (ds_disk s3) ''o'' = Some ''data''"
proof -
  let ?s = "toy_state toy_cluster [(''f'', ''data'')]"
  obtain dht where dht: "DhtNode toy_sha (cc_peers toy_config) = Inr dht" "length (rt_nodes dht) = 2" using toy_dht by blast
  obtain lp d' where loc: "write_local_manifest toy_config ''/h'' toy_manifest (toy_disk [(''f'', ''data'')]) = (Inr lp, d')"
    using toy_local by blast
  have "\<exists>res s1. putFile toy_env toy_config None None ''f'' ?s = (Inr res, s1)
    \<and> pr_shareUri res = share_prefix @ sha256_hex (en_sha256 toy_env) (serializeManifest toy_manifest) \<and>
    (\<forall>s2 out. crashed_to (ds_world s1) (ds_world s2)
       \<and> crash_count toy_resolve (ds_world s1) (ds_world s2) (cc_peers toy_config) < min (nat (clamp_replicas toy_config)) (length (rt_nodes dht))
       \<and> \<not> fs_exists (ds_disk s2) (pr_shareUri res) \<and> can_open (ds_disk s2) out \<longrightarrow>
     (\<exists>s3. getFile toy_env toy_config (pr_shareUri res) out s2 = (Inr (), s3) \<and> fs_read (ds_disk s3) out = Some ''data''))"
    using dht(1) loc toy_text_short
    by (intro put_get_despite_crashes [where m = toy_manifest and seg = "\<lambda>m. [Data m]" and resolve = toy_resolve
        and chunks = "[\<lparr>ck_id = [], ck_bytes = ''data''\<rparr>]" and content = "''data''" and lp = lp and d' = d'])
      (simp_all add: toy_get entries_max_def vector_char_max_def flip: toy_text_def)
  moreover have "min (nat (clamp_replicas toy_config)) 2 = min (nat (clamp_replicas toy_config)) (length (rt_nodes dht))"
    using dht(2) by simp
  ultimately show ?thesis
    using toy_crash by (fastforce simp: toy_setting)
qed

text \<open>The same run, for the witnesses of the two integrity theorems.\<close>

lemma toy_run:
  assumes "cc_peers cfg' = cc_peers toy_config"
  shows "\<exists>res s1 s3. putFile toy_env toy_config None None ''f'' (toy_state toy_cluster [(''f'', ''data'')]) = (Inr res, s1)
    \<and> getFile toy_env cfg' (pr_shareUri res) ''o'' (toy_state ((ds_world s1)((1, 1) := None)) []) = (Inr (), s3)
    \<and> pr_shareUri res = share_prefix @ sha256_hex toy_sha toy_text"
proof -
  let ?s = "toy_state toy_cluster [(''f'', ''data'')]"
  obtain dht where dht: "DhtNode toy_sha (cc_peers toy_config) = Inr dht" "length (rt_nodes dht) = 2" using toy_dht by blast
  obtain lp d' where loc: "write_local_manifest toy_config ''/h'' toy_manifest (toy_disk [(''f'', ''data'')]) = (Inr lp, d')"
    using toy_local by blast
  have "\<exists>res s1. putFile toy_env toy_config None None ''f'' ?s = (Inr res, s1)
    \<and> pr_shareUri res = share_prefix @ sha256_hex (en_sha256 toy_env) (serializeManifest toy_manifest) \<and>
    (\<forall>s2 out. crashed_to (ds_world s1) (ds_world s2)
       \<and> crash_count toy_resolve (ds_world s1) (ds_world s2) (cc_peers toy_config) < min (nat (clamp_replicas toy_config)) (length (rt_nodes dht))
       \<and> \<not> fs_exists (ds_disk s2) (pr_shareUri res) \<and> can_open (ds_disk s2) out \<longrightarrow>
     (\<exists>s3. getFile toy_env cfg' (pr_shareUri res) out s2 = (Inr (), s3) \<and> fs_read (ds_disk s3) out = Some ''data''))"
    using dht(1) loc toy_text_short
    by (intro put_get_live [where m = toy_manifest and seg = "\<lambda>m. [Data m]" and resolve = toy_resolve
        and chunks = "[\<lparr>ck_id = [], ck_bytes = ''data''\<rparr>]" and content = "''data''" and lp = lp and d' = d'])
      (simp_all add: assms toy_get entries_max_def vector_char_max_def flip: toy_text_def)
  then obtain res s1 where run: "putFile toy_env toy_config None None ''f'' ?s = (Inr res, s1)"
      "pr_shareUri res = share_prefix @ sha256_hex toy_sha toy_text"
      "\<And>s2 out. crashed_to (ds_world s1) (ds_world s2)
       \<and> crash_count toy_resolve (ds_world s1) (ds_world s2) (cc_peers toy_config) < min (nat (clamp_replicas toy_config)) (length (rt_nodes dht))
       \<and> \<not> fs_exists (ds_disk s2) (pr_shareUri res) \<and> can_open (ds_disk s2) out \<Longrightarrow>
     \<exists>s3. getFile toy_env cfg' (pr_shareUri res) out s2 = (Inr (), s3)"
    unfolding toy_setting(3) toy_text_def [symmetric] by blast
  have "\<exists>s3. getFile toy_env cfg' (pr_shareUri res) ''o'' (toy_state ((ds_world s1)((1, 1) := None)) []) = (Inr (), s3)"
    using toy_crash [of "ds_world s1"] by (intro run(3)) (simp add: toy_setting dht(2))
  with run(1,2) show ?thesis by blast
qed

lemma toy_preconditions:
  "en_sha256 toy_env = toy_sha" "digest32 (en_sha256 toy_env)" "\<not> fs_exists (ds_disk (toy_state w [])) x"
  "fs_read (ds_disk (toy_state w [(''f'', ''data'')])) ''f'' = Some ''data''" "is_token (path_filename ''f'')"
  "chunkFile (ds_disk (toy_state w [(''f'', ''data'')])) ''f'' (cc_chunkSize toy_config) = Inr [\<lparr>ck_id = [], ck_bytes = ''data''\<rparr>]"
  by (simp_all add: toy_get)

lemma toy_no_collision: "\<not> collision toy_sha (sent_texts toy_env toy_config None None ''f'' (toy_disk [(''f'', ''data'')])) ys"
proof -
  have "sent_texts toy_env toy_config None None ''f'' (toy_disk [(''f'', ''data'')]) = [toy_text, ''data'']"
    using sent_texts_plain [of toy_config "toy_disk [(''f'', ''data'')]" "''f''" "''data''" "[\<lparr>ck_id = [], ck_bytes = ''data''\<rparr>]" toy_env]
    by (simp add: toy_setting toy_chunks toy_manifest_plain toy_text_def)
  moreover have "x = y" if "x \<in> set [toy_text, ''data'']" "sha256_hex toy_sha x = sha256_hex toy_sha y" for x y
    using toy_ids(2) [of x y] that by simp
  ultimately show ?thesis unfolding collision_def by metis
qed

theorem getFile_integrity_witness:
  "\<exists>ref s s' tx m pieces. getFile toy_env toy_config ref ''o'' s = (Inr (), s') \<and> sha256_hex toy_sha tx = normalize_manifest_id ref
    \<and> parseManifestText tx = Inr m \<and> map (sha256_hex toy_sha) pieces = mf_chunks m
    \<and> fs_read (ds_disk s') ''o'' = Some (concat pieces)"
proof -
  obtain ref w s' where run: "getFile toy_env toy_config ref ''o'' (toy_state w []) = (Inr (), s')"
    using toy_run [OF refl] by blast
  from getFile_integrity [OF run toy_preconditions(3)] run show ?thesis unfolding toy_preconditions(1) by blast
qed

text \<open>A download whose peers are all down.\<close>

lemma fetch_chunk_down:
  assumes "\<forall>p \<in> set ps. down_in resolve w p" "en_net env = cluster_net resolve seg"
  shows "fetch_chunk env keys idx cid ps w = (None, False, w)"
  using assms(1)
proof (induction ps)
  case (Cons p ps)
  have "down_in resolve w p" using Cons.prems by simp
  from down_connect_cluster [OF this] obtain e c where "net_connect (cluster_net resolve seg) w p = (Inl e, c)" by blast
  then show ?case using Cons by (simp add: assms(2) getChunk_def get_object_def)
qed simp

theorem getFile_failure_witness:
  "\<exists>e s' pieces. getFile toy_env toy_config ''m'' ''o'' (toy_state (\<lambda>_. None) [(''m'', toy_text), (''o'', ''old'')]) = (Inl e, s')
    \<and> fs_read (ds_disk s') ''o'' = Some (concat pieces) \<and> prefix (map (sha256_hex toy_sha) pieces) (mf_chunks toy_manifest)"
proof -
  let ?s = "toy_state (\<lambda>_. None) [(''m'', toy_text), (''o'', ''old'')]"
  let ?d = "toy_disk [(''m'', toy_text), (''o'', ''old'')]"
  obtain dht where dht: "DhtNode toy_sha (cc_peers toy_config) = Inr dht" using toy_dht by blast
  have wf: "wf_manifest toy_manifest"
    using plain_manifest_wf [OF toy_digest(1), of "''f''" "[\<lparr>ck_id = [], ck_bytes = ''data''\<rparr>]" toy_config "''data''"]
    by (simp add: toy_manifest_plain toy_setting entries_max_def vector_char_max_def)
  have res: "resolve_manifest toy_env toy_config t ''m'' ?s = (Inr toy_manifest, ?s)" for t
  proof -
    have "fs_exists ?d ''m''" "fs_read ?d ''m'' = Some toy_text"
      by (simp_all add: toy_disk_def open_disk_def fs_exists_def fs_read_def)
    then show ?thesis
      using parse_serialize [OF wf]
      by (simp add: resolve_manifest_def looks_like_local_manifest_path_def readManifest_def toy_setting flip: toy_text_def)
  qed
  have down: "down_in toy_resolve (\<lambda>_. None) p" for p
    by (cases "addr_of toy_resolve p") (simp_all add: down_in_def store_of_def)
  have chunks: "mf_chunks toy_manifest = [sha256_hex toy_sha ''data'']" by (simp add: toy_manifest_def toy_sha_def hex_for codes)
  have key: "unwrap_key toy_env toy_config ?d toy_manifest = (Inr None, False)"
    by (simp add: unwrap_key_def toy_manifest_def empty_manifest_def)
  obtain d where d: "fs_write ?d ''o'' [] = Some d" "fs_read d ''o'' = Some []" "can_open d ''o''"
    by (simp add: fs_write_def toy_setting) (simp add: fs_read_def toy_disk_def open_disk_def)
  obtain cs where "candidates toy_env toy_config dht (sha256_hex toy_sha ''data'') = Inr cs"
    using candidates_all [of toy_env toy_config dht "sha256_hex toy_sha ''data''"] table_of_DhtNode [OF dht] toy_digest(1)
    unfolding toy_setting(3) by blast
  then obtain e s' where run: "getFile toy_env toy_config ''m'' ''o'' ?s = (Inl e, s')" "fs_read (ds_disk s') ''o'' = Some []"
    using dht res key d fetch_chunk_down [OF _ toy_setting(2)] down
    by (simp add: getFile_def write_output_def chunks toy_setting Let_def fs_write_def fs_read_def)
  from getFile_failure [OF run(1)] obtain t m s1 pieces where
    "resolve_manifest toy_env toy_config t ''m'' ?s = (Inr m, s1)" "prefix (map (sha256_hex toy_sha) pieces) (mf_chunks m)"
    "fs_read (ds_disk s') ''o'' = Some (concat pieces)"
    using run(2) by (auto simp: toy_setting toy_disk_def open_disk_def fs_read_def)
  with run res show ?thesis by auto
qed

theorem put_get_integrity_witness:
  "\<exists>res s1 s2 s3. putFile toy_env toy_config None None ''f'' (toy_state toy_cluster [(''f'', ''data'')]) = (Inr res, s1)
    \<and> getFile toy_env toy_config (pr_shareUri res) ''o'' s2 = (Inr (), s3) \<and> fs_read (ds_disk s3) ''o'' = Some ''data''"
proof -
  obtain res s1 s3 where run: "putFile toy_env toy_config None None ''f'' (toy_state toy_cluster [(''f'', ''data'')]) = (Inr res, s1)"
      "getFile toy_env toy_config (pr_shareUri res) ''o'' (toy_state ((ds_world s1)((1, 1) := None)) []) = (Inr (), s3)"
      "pr_shareUri res = share_prefix @ sha256_hex toy_sha toy_text"
    using toy_run [OF refl] by blast
  have "fs_read (ds_disk s3) ''o'' = Some ''data'' \<or>
      collision (en_sha256 toy_env) (sent_texts toy_env toy_config None None ''f'' (toy_disk [(''f'', ''data'')]))
        (accepted_texts toy_env toy_config (pr_shareUri res) (toy_state ((ds_world s1)((1, 1) := None)) []))"
    using put_get_integrity [OF run(1,2) refl toy_preconditions(2) _ toy_preconditions(4,5)] by (simp add: toy_setting entries_max_def vector_char_max_def)
  then have "fs_read (ds_disk s3) ''o'' = Some ''data''" using toy_no_collision by (simp add: toy_setting)
  with run show ?thesis by blast
qed

end
