(* ===== verification/Endpoint_Parse.thy ===== *)
theory Endpoint_Parse
  imports Iostream
begin

text \<open>
  \<^verbatim>\<open>core/net/peer_endpoint_parse.cpp\<close>: an entry of the peer list, \<^verbatim>\<open>host:port\<close> with an
  optional \<^verbatim>\<open>tcp://\<close> before it, to an endpoint. Shown are that well-formed entries parse,
  however they are padded and prefixed, and what every accepted entry looks like.
\<close>

definition is_ws :: "char \<Rightarrow> bool" where
  "is_ws c \<longleftrightarrow> c \<in> {SP, CHR 0x09, CR, NL}"

definition trim_ws :: "string \<Rightarrow> string" where
  "trim_ws s = rev (dropWhile is_ws (rev (dropWhile is_ws s)))"

text \<open>\<^verbatim>\<open>std::tolower\<close> in the C locale.\<close>

definition to_lower :: "char \<Rightarrow> char" where
  "to_lower c = (let n = of_char c :: nat in if 65 \<le> n \<and> n \<le> 90 then char_of (n + 32) else c)"

definition has_tcp_prefix :: "string \<Rightarrow> bool" where
  "has_tcp_prefix item \<longleftrightarrow> length item \<ge> 6 \<and> to_lower (item ! 0) = CHR ''t'' \<and> to_lower (item ! 1) = CHR ''c''
     \<and> to_lower (item ! 2) = CHR ''p'' \<and> item ! 3 = CHR '':'' \<and> item ! 4 = CHR ''/'' \<and> item ! 5 = CHR ''/''"

text \<open>\<^verbatim>\<open>s.rfind(c)\<close>, \<open>None\<close> for \<^verbatim>\<open>npos\<close>.\<close>

fun rfind_char :: "char \<Rightarrow> string \<Rightarrow> nat option" where
  "rfind_char c [] = None"
| "rfind_char c (x # xs) =
     (case rfind_char c xs of Some i \<Rightarrow> Some (Suc i) | None \<Rightarrow> if x = c then Some 0 else None)"

definition parse_peer_entry :: "string \<Rightarrow> peer_endpoint result" where
  "parse_peer_entry item0 =
     (let item1 = trim_ws item0;
          item = (if has_tcp_prefix item1 then trim_ws (drop 6 item1) else item1) in
      case rfind_char (CHR '':'') item of
        None \<Rightarrow> Inl (Runtime_error (''Invalid peer entry (expected host:port or tcp://host:port): '' @ item))
      | Some colon \<Rightarrow>
          if colon = 0 then
            Inl (Runtime_error (''Invalid peer entry (expected host:port or tcp://host:port): '' @ item))
          else
            let host = trim_ws (take colon item); portStr = trim_ws (drop (colon + 1) item) in
            if host = [] \<or> portStr = [] then
              Inl (Runtime_error (''Invalid peer entry (empty host or port): '' @ item))
            else (case stoi portStr of
                Inl _ \<Rightarrow> Inl (Runtime_error (''Invalid peer entry (bad port): '' @ portStr))
              | Inr p \<Rightarrow> Inr \<lparr>ip = host, port = p\<rparr>))"

section \<open>Trimming and searching\<close>

lemma rfind_char_at: "c \<notin> set r \<Longrightarrow> rfind_char c (l @ c # r) = Some (length l)"
proof -
  assume r: "c \<notin> set r"
  have none: "c \<notin> set r \<Longrightarrow> rfind_char c r = None" for r by (induction r) auto
  show ?thesis using none [OF r] by (induction l) auto
qed

lemma rfind_char_Some: "rfind_char c s = Some i \<Longrightarrow> i < length s \<and> s ! i = c \<and> c \<notin> set (drop (Suc i) s)"
proof -
  have none: "rfind_char c s = None \<Longrightarrow> c \<notin> set s" for s
    by (induction s) (auto split: option.splits if_splits)
  show "rfind_char c s = Some i \<Longrightarrow> i < length s \<and> s ! i = c \<and> c \<notin> set (drop (Suc i) s)"
  proof (induction s arbitrary: i)
    case (Cons x xs)
    then show ?case using none [of xs] by (auto split: option.splits if_splits)
  qed simp
qed

text \<open>A text that trimming leaves alone.\<close>

definition trimmed :: "string \<Rightarrow> bool" where
  "trimmed s \<longleftrightarrow> s = [] \<or> \<not> is_ws (hd s) \<and> \<not> is_ws (last s)"

lemma dropWhile_pad: "\<forall>c \<in> set w. P c \<Longrightarrow> dropWhile P (w @ s) = dropWhile P s"
  by (induction w) auto

lemma trimmed_dropWhile: "trimmed s \<Longrightarrow> dropWhile is_ws s = s \<and> dropWhile is_ws (rev s) = rev s"
  by (auto simp: trimmed_def dropWhile_eq_self_iff hd_rev)

lemma trim_ws_padded:
  assumes "\<forall>c \<in> set w. is_ws c" "\<forall>c \<in> set w'. is_ws c" "trimmed s"
  shows "trim_ws (w @ s @ w') = s"
proof (cases "s = []")
  case True
  moreover have "dropWhile is_ws (w @ w') = []" using assms(1,2) by auto
  ultimately show ?thesis by (simp only: trim_ws_def True append.left_neutral rev.simps dropWhile.simps)
next
  case False
  then have "dropWhile is_ws (w @ s @ w') = s @ w'"
    using assms trimmed_dropWhile [OF assms(3)] by (simp add: dropWhile_pad) (cases s; auto simp: trimmed_def)
  then show ?thesis using assms(2) trimmed_dropWhile [OF assms(3)] by (simp add: trim_ws_def dropWhile_pad)
qed

lemma trimmed_trim: "trimmed (trim_ws s)"
proof -
  have "dropWhile is_ws s = [] \<or> \<not> is_ws (hd (dropWhile is_ws s))" using hd_dropWhile by blast
  moreover have "r = [] \<or> \<not> is_ws (hd r) \<Longrightarrow> trimmed (rev (dropWhile is_ws (rev r)))" for r
  proof -
    assume r: "r = [] \<or> \<not> is_ws (hd r)"
    obtain p where p: "rev r = p @ dropWhile is_ws (rev r)" by (metis takeWhile_dropWhile_id)
    let ?q = "rev (dropWhile is_ws (rev r))"
    have r': "r = ?q @ rev p" using p by (metis rev_append rev_rev_ident)
    show ?thesis
    proof (cases "?q = []")
      case False
      then have "hd ?q = hd r" using r' by (metis hd_append2)
      moreover have "\<not> is_ws (last ?q)" using False by (simp add: last_rev hd_dropWhile)
      moreover have "r \<noteq> []" using False by auto
      ultimately show ?thesis using r by (simp add: trimmed_def)
    qed (simp add: trimmed_def)
  qed
  ultimately show ?thesis by (simp add: trim_ws_def)
qed

section \<open>Parsing entries\<close>

lemma show_int_trimmed: "trimmed (show_int p) \<and> CHR '':'' \<notin> set (show_int p) \<and> show_int p \<noteq> []"
proof -
  have tok: "is_token (show_int p)" by (rule show_int_is_token)
  then have "c \<in> set (show_int p) \<Longrightarrow> \<not> is_ws c" for c
    by (auto simp: is_token_def is_ws_def isspace_def)
  moreover have "c \<in> set (show_int p) \<Longrightarrow> c = CHR ''-'' \<or> isdigit c" for c
    using show_nat_digits by (auto simp: show_int_def split: if_splits)
  then have "CHR '':'' \<notin> set (show_int p)" by (fastforce simp: isdigit_def)
  ultimately show ?thesis using tok by (auto simp: trimmed_def is_token_def)
qed

lemma trimmed_pair:
  assumes "trimmed host" "host \<noteq> []"
  shows "trimmed (host @ CHR '':'' # show_int p)"
  using assms show_int_trimmed [of p] by (auto simp: trimmed_def)

lemma trim_ws_trimmed: "trimmed s \<Longrightarrow> trim_ws s = s"
  using trim_ws_padded [of "[]" "[]" s] by simp

text \<open>The entries that \<^verbatim>\<open>host:port\<close> may be written as: padded, with \<^verbatim>\<open>tcp://\<close> in any case.\<close>

definition entry_prefix :: "string \<Rightarrow> bool" where
  "entry_prefix pre \<longleftrightarrow> pre = [] \<or> (\<exists>t c q sp. pre = [t, c, q, CHR '':'', CHR ''/'', CHR ''/''] @ sp
     \<and> to_lower t = CHR ''t'' \<and> to_lower c = CHR ''c'' \<and> to_lower q = CHR ''p'' \<and> (\<forall>x \<in> set sp. is_ws x))"

lemma parse_trimmed_item:
  assumes "trimmed host" "host \<noteq> []" "in_int_range p"
    "(if has_tcp_prefix (trim_ws s) then trim_ws (drop 6 (trim_ws s)) else trim_ws s) = host @ CHR '':'' # show_int p"
  shows "parse_peer_entry s = Inr \<lparr>ip = host, port = p\<rparr>"
proof -
  have "stoi (show_int p) = Inr p" using stoi_show_int [OF assms(3), of "[]"] by simp
  moreover have "rfind_char (CHR '':'') (host @ CHR '':'' # show_int p) = Some (length host)"
    using show_int_trimmed by (simp add: rfind_char_at)
  ultimately show ?thesis
    using assms(1,2) show_int_trimmed [of p]
    unfolding parse_peer_entry_def Let_def assms(4) by (simp add: trim_ws_trimmed)
qed

text \<open>
  Every spelling of an endpoint is accepted and yields it: \<^verbatim>\<open>host:port\<close>, with white
  space around it and with \<^verbatim>\<open>tcp://\<close> in upper or lower case before it. The last colon
  separates, so a host may contain colons.
\<close>

theorem parse_peer_entry_accepts:
  assumes "trimmed host" "host \<noteq> []" "in_int_range p" "\<not> has_tcp_prefix (host @ CHR '':'' # show_int p)"
    "entry_prefix pre" "\<forall>c \<in> set w. is_ws c" "\<forall>c \<in> set w'. is_ws c"
  shows "parse_peer_entry (w @ (pre @ host @ CHR '':'' # show_int p) @ w') = Inr \<lparr>ip = host, port = p\<rparr>"
proof (rule parse_trimmed_item [OF assms(1-3)])
  let ?e = "host @ CHR '':'' # show_int p"
  have e: "trimmed ?e" "?e \<noteq> []" by (rule trimmed_pair [OF assms(1,2)]) simp
  show "(if has_tcp_prefix (trim_ws (w @ (pre @ ?e) @ w')) then trim_ws (drop 6 (trim_ws (w @ (pre @ ?e) @ w')))
      else trim_ws (w @ (pre @ ?e) @ w')) = ?e"
  proof (cases "pre = []")
    case True
    then have "trim_ws (w @ (pre @ ?e) @ w') = ?e" using trim_ws_padded [OF assms(6,7) e(1)] by simp
    then show ?thesis by (simp only: assms(4) if_False)
  next
    case False
    then obtain t c q sp where pre: "pre = [t, c, q, CHR '':'', CHR ''/'', CHR ''/''] @ sp"
        "to_lower t = CHR ''t''" "to_lower c = CHR ''c''" "to_lower q = CHR ''p''" "\<forall>x \<in> set sp. is_ws x"
      using assms(5) by (auto simp: entry_prefix_def)
    have "\<not> is_ws t" using pre(2) by (auto simp: is_ws_def to_lower_def)
    then have "trimmed (pre @ ?e)" using e by (simp add: trimmed_def pre(1))
    then have trim: "trim_ws (w @ (pre @ ?e) @ w') = pre @ ?e" by (rule trim_ws_padded [OF assms(6,7)])
    have "has_tcp_prefix (pre @ ?e)" using pre by (simp add: has_tcp_prefix_def)
    moreover have "trim_ws (drop 6 (pre @ ?e)) = ?e"
      using trim_ws_padded [OF pre(5), of "[]" ?e] e(1) by (simp add: pre(1))
    ultimately show ?thesis by (simp only: trim if_True)
  qed
qed

theorem parse_peer_entry_accepts_witness:
  "parse_peer_entry ('' '' @ (''TCP://'' @ ''0.tcp.ngrok.io'' @ CHR '':'' # show_int 14321) @ [NL]) = Inr \<lparr>ip = ''0.tcp.ngrok.io'', port = 14321\<rparr>"
proof (rule parse_peer_entry_accepts)
  show "entry_prefix ''TCP://''"
    unfolding entry_prefix_def
    by (rule disjI2, rule exI [of _ "CHR ''T''"], rule exI [of _ "CHR ''C''"], rule exI [of _ "CHR ''P''"],
        rule exI [of _ "[]"]) (simp add: to_lower_def char_of_def bit_0)
qed (simp_all add: trimmed_def is_ws_def in_int_range_def has_tcp_prefix_def to_lower_def)

text \<open>
  What an accepted entry looks like: the host is not empty and has no white space at
  its ends, and the port is an \<^verbatim>\<open>int\<close>. Nothing restricts it to the range of TCP ports.
\<close>

theorem parse_peer_entry_sound:
  assumes "parse_peer_entry s = Inr ep"
  shows "ip ep \<noteq> [] \<and> trimmed (ip ep) \<and> in_int_range (port ep)"
  using assms trimmed_trim
  by (auto simp: parse_peer_entry_def Let_def in_int_range_def stoi_def split: option.splits if_splits sum.splits)

theorem parse_peer_entry_sound_witness:
  "parse_peer_entry (''h'' @ CHR '':'' # show_int 99999) = Inr \<lparr>ip = ''h'', port = 99999\<rparr>
   \<and> ip \<lparr>ip = ''h'', port = 99999\<rparr> \<noteq> []"
proof -
  have h: "trimmed ''h''" by (simp add: trimmed_def is_ws_def)
  have "parse_peer_entry (''h'' @ CHR '':'' # show_int 99999) = Inr \<lparr>ip = ''h'', port = 99999\<rparr>"
    using trim_ws_trimmed [OF trimmed_pair [OF h, of 99999]]
    by (intro parse_trimmed_item h) (simp_all add: in_int_range_def has_tcp_prefix_def to_lower_def)
  with parse_peer_entry_sound [OF this] show ?thesis by simp
qed

end
