(* ===== verification/Cli.thy ===== *)
theory Cli
  imports End_To_End Endpoint_Parse
begin

text \<open>
  The programs around the client: the command line of \<^verbatim>\<open>client/main.cpp\<close> and the worker
  object of the graphical client, \<^verbatim>\<open>client/dss_worker.cpp\<close>. Both read a list of peers and
  call the same \<^verbatim>\<open>DssClient\<close>, but they treat bad entries of the list differently.
\<close>

section \<open>Peer lists\<close>

text \<open>The loop of \<^verbatim>\<open>main\<close> over the items: empty ones are skipped, a bad one ends it.\<close>

fun parse_peers :: "string list \<Rightarrow> peer_endpoint list result" where
  "parse_peers [] = Inr []"
| "parse_peers (item # items) =
     (if item = [] then parse_peers items
      else bindR (parse_peer_entry item) (\<lambda>p. bindR (parse_peers items) (\<lambda>ps. Inr (p # ps))))"

text \<open>The loop of the worker: bad entries are skipped as well.\<close>

fun collect_peers :: "string list \<Rightarrow> peer_endpoint list" where
  "collect_peers [] = []"
| "collect_peers (item # items) =
     (if item = [] then collect_peers items
      else case parse_peer_entry item of Inl _ \<Rightarrow> collect_peers items | Inr p \<Rightarrow> p # collect_peers items)"

definition peer_items :: "string \<Rightarrow> string list" where
  "peer_items peersArg = getlines (CHR '','') peersArg"

definition no_peers :: exn where
  "no_peers = Runtime_error ''No valid peers provided''"

section \<open>The command line client\<close>

text \<open>A line written to the standard output or to the standard error stream.\<close>

datatype printed = Out string | Err string

definition stoul :: "string \<Rightarrow> u64 result" where
  "stoul s = (case fst (scan_int (dropWhile isspace s)) of
       None \<Rightarrow> Inl (Invalid_argument ''stoul'')
     | Some v \<Rightarrow> if \<bar>v\<bar> < 2 ^ 64 then Inr (of_int v) else Inl (Out_of_range ''stoul''))"

definition usage :: "string \<Rightarrow> printed list" where
  "usage prog =
     [Err ''Usage:'',
      Err (''  '' @ prog @ '' put <peers> <file_path> [chunk_size_bytes] [replicas] [rsa_public_key_pem]''),
      Err (''  '' @ prog @ '' get <peers> <share_id_or_manifest_path> <output_file> [rsa_private_key_pem]''),
      Err (''  '' @ prog @ '' repair (not supported without tracker)''),
      Err [], Err ''Environment:'',
      Err ''  DECENT_STORE_MANIFEST_DIR  Directory for local *.manifest.txt after put (default: ./manifests).'']"

definition progress_line :: "string \<Rightarrow> progress \<Rightarrow> printed" where
  "progress_line tag p = Out (tag @ show_int (pg_done p) @ ''/'' @ show_int (pg_total p) @ SP # pg_message p)"

definition default_config :: client_config where
  "default_config = \<lparr>cc_peers = [], cc_chunkSize = 0, cc_desiredReplicas = 0, cc_rsaPublicKeyPath = [],
     cc_rsaPrivateKeyPath = [], cc_localManifestDir = []\<rparr>"

text \<open>The configuration of \<^verbatim>\<open>put\<close>; \<open>dir\<close> is the value of \<^verbatim>\<open>DECENT_STORE_MANIFEST_DIR\<close>.\<close>

definition put_config :: "string option \<Rightarrow> string list \<Rightarrow> client_config result" where
  "put_config dir argv =
     bindR (parse_peers (peer_items (argv ! 2))) (\<lambda>ps.
     if ps = [] then Inl no_peers
     else bindR (if length argv \<ge> 5 then stoul (argv ! 4) else Inr (1024 * 1024)) (\<lambda>n.
     bindR (if length argv \<ge> 6 then stoi (argv ! 5) else Inr 2) (\<lambda>r.
     Inr (default_config\<lparr>cc_peers := ps, cc_chunkSize := n, cc_desiredReplicas := r,
            cc_rsaPublicKeyPath := (if length argv \<ge> 7 then argv ! 6 else []),
            cc_localManifestDir := (case dir of None \<Rightarrow> [] | Some md \<Rightarrow> md)\<rparr>))))"

definition get_config :: "string list \<Rightarrow> client_config result" where
  "get_config argv =
     bindR (parse_peers (peer_items (argv ! 2))) (\<lambda>ps.
     if ps = [] then Inl no_peers
     else Inr (default_config\<lparr>cc_peers := ps, cc_chunkSize := 1024 * 1024, cc_desiredReplicas := 2,
            cc_rsaPrivateKeyPath := (if length argv \<ge> 6 then argv ! 5 else [])\<rparr>))"

text \<open>The handler around both: the exit code of an exception and its message.\<close>

definition report :: "exn \<Rightarrow> printed list" where
  "report e = [Err (''Error: '' @ exn_what e)]"

definition cli_put ::
    "('w, 'c, 'k, 'x) dss_env \<Rightarrow> octet list option \<Rightarrow> octet list option \<Rightarrow> string option \<Rightarrow> string list
       \<Rightarrow> 'w dss_state \<Rightarrow> (int \<times> printed list) \<times> 'w dss_state" where
  "cli_put env rk ri dir argv s =
     (if length argv < 4 then ((1, usage (argv ! 0)), s)
      else case put_config dir argv of
        Inl e \<Rightarrow> ((1, report e), s)
      | Inr cfg \<Rightarrow>
         (case putFile env cfg rk ri (argv ! 3) (s\<lparr>ds_progress := []\<rparr>) of
            (r, s1) \<Rightarrow>
              (let seen = map (progress_line ''[PUT] '') (ds_progress s1) in
               case r of
                 Inl e \<Rightarrow> ((1, seen @ report e), s1)
               | Inr res \<Rightarrow> ((0, seen @ [Out (''DONE. Share ID: '' @ pr_shareUri res),
                                    Out (''Local manifest: '' @ pr_localManifestPath res)]), s1))))"

definition cli_get ::
    "('w, 'c, 'k, 'x) dss_env \<Rightarrow> string list \<Rightarrow> 'w dss_state \<Rightarrow> (int \<times> printed list) \<times> 'w dss_state" where
  "cli_get env argv s =
     (if length argv < 5 then ((1, usage (argv ! 0)), s)
      else case get_config argv of
        Inl e \<Rightarrow> ((1, report e), s)
      | Inr cfg \<Rightarrow>
         (case getFile env cfg (argv ! 3) (argv ! 4) (s\<lparr>ds_progress := []\<rparr>) of
            (r, s1) \<Rightarrow>
              (let seen = map (progress_line ''[GET] '') (ds_progress s1) in
               case r of
                 Inl e \<Rightarrow> ((1, seen @ report e), s1)
               | Inr _ \<Rightarrow> ((0, seen @ [Out (''Download complete: '' @ argv ! 4)]), s1))))"

text \<open>\<^verbatim>\<open>main\<close>, for an argument vector that holds at least the name of the program.\<close>

definition cli_main ::
    "('w, 'c, 'k, 'x) dss_env \<Rightarrow> octet list option \<Rightarrow> octet list option \<Rightarrow> string option \<Rightarrow> string list
       \<Rightarrow> 'w dss_state \<Rightarrow> (int \<times> printed list) \<times> 'w dss_state" where
  "cli_main env rk ri dir argv s =
     (if length argv < 2 then ((1, usage (argv ! 0)), s)
      else if argv ! 1 = ''put'' then cli_put env rk ri dir argv s
      else if argv ! 1 = ''get'' then cli_get env argv s
      else if argv ! 1 = ''repair'' then ((0, [Err ''Repair is not supported in DHT mode (no tracker).'']), s)
      else ((1, usage (argv ! 0)), s))"

section \<open>The worker of the graphical client\<close>

text \<open>
  The signals a slot emits, in order. A \<^verbatim>\<open>QString\<close> is the text it holds;
  \<^verbatim>\<open>QString::trimmed\<close> is a parameter.
\<close>

datatype signal = Progress_signal int int string | Put_finished string string | Get_finished string | Error_signal string

definition runProgress :: "progress \<Rightarrow> signal" where
  "runProgress p = Progress_signal (pg_done p) (pg_total p) (pg_message p)"

definition worker_put_config ::
    "(string \<Rightarrow> string) \<Rightarrow> string \<Rightarrow> string \<Rightarrow> u64 \<Rightarrow> int \<Rightarrow> string \<Rightarrow> client_config result" where
  "worker_put_config trim peers dir chunkSize replicas pub =
     (let ps = collect_peers (peer_items peers) in
      if ps = [] then Inl no_peers
      else Inr (default_config\<lparr>cc_peers := ps, cc_chunkSize := (if chunkSize > 0 then chunkSize else 1024 * 1024),
             cc_desiredReplicas := (if replicas > 0 then replicas else 2),
             cc_rsaPublicKeyPath := trim pub, cc_localManifestDir := dir\<rparr>))"

definition worker_putFile ::
    "('w, 'c, 'k, 'x) dss_env \<Rightarrow> octet list option \<Rightarrow> octet list option \<Rightarrow> (string \<Rightarrow> string)
       \<Rightarrow> string \<Rightarrow> string \<Rightarrow> string \<Rightarrow> u64 \<Rightarrow> int \<Rightarrow> string \<Rightarrow> 'w dss_state \<Rightarrow> signal list \<times> 'w dss_state" where
  "worker_putFile env rk ri trim peers filePath dir chunkSize replicas pub s =
     (case worker_put_config trim peers dir chunkSize replicas pub of
        Inl e \<Rightarrow> ([Error_signal (exn_what e)], s)
      | Inr cfg \<Rightarrow>
         (case putFile env cfg rk ri filePath (s\<lparr>ds_progress := []\<rparr>) of
            (r, s1) \<Rightarrow>
              (map runProgress (ds_progress s1) @
                 [case r of Inl e \<Rightarrow> Error_signal (exn_what e)
                  | Inr res \<Rightarrow> Put_finished (pr_shareUri res) (pr_localManifestPath res)], s1)))"

definition worker_get_config :: "(string \<Rightarrow> string) \<Rightarrow> string \<Rightarrow> string \<Rightarrow> client_config result" where
  "worker_get_config trim peers prv =
     (let ps = collect_peers (peer_items peers) in
      if ps = [] then Inl no_peers
      else Inr (default_config\<lparr>cc_peers := ps, cc_chunkSize := 1024 * 1024, cc_desiredReplicas := 2,
             cc_rsaPrivateKeyPath := trim prv\<rparr>))"

definition worker_getFile ::
    "('w, 'c, 'k, 'x) dss_env \<Rightarrow> (string \<Rightarrow> string) \<Rightarrow> string \<Rightarrow> string \<Rightarrow> string \<Rightarrow> string \<Rightarrow> 'w dss_state
       \<Rightarrow> signal list \<times> 'w dss_state" where
  "worker_getFile env trim peers manifestRef outputPath prv s =
     (case worker_get_config trim peers prv of
        Inl e \<Rightarrow> ([Error_signal (exn_what e)], s)
      | Inr cfg \<Rightarrow>
         (case getFile env cfg manifestRef outputPath (s\<lparr>ds_progress := []\<rparr>) of
            (r, s1) \<Rightarrow>
              (map runProgress (ds_progress s1) @
                 [case r of Inl e \<Rightarrow> Error_signal (exn_what e) | Inr _ \<Rightarrow> Get_finished outputPath], s1)))"

definition worker_repair :: "signal list" where
  "worker_repair = [Error_signal ''Repair is not supported in DHT mode'']"

section \<open>Strict and lenient lists\<close>

lemma parse_peers_collect: "parse_peers items = Inr ps \<Longrightarrow> collect_peers items = ps"
  by (induction items arbitrary: ps) (auto simp: result_iff split: if_splits sum.splits)

lemma parse_peers_bad:
  "item \<in> set items \<Longrightarrow> item \<noteq> [] \<Longrightarrow> parse_peer_entry item = Inl e \<Longrightarrow> \<exists>e'. parse_peers items = Inl e'"
proof (induction items)
  case (Cons i items)
  then show ?case by (cases "parse_peer_entry i") auto
qed simp

text \<open>What the lenient loop keeps.\<close>

definition good_entry :: "string \<Rightarrow> peer_endpoint option" where
  "good_entry item = (if item = [] then None else case parse_peer_entry item of Inl _ \<Rightarrow> None | Inr p \<Rightarrow> Some p)"

lemma collect_peers_filter: "collect_peers items = List.map_filter good_entry items"
  by (induction items) (auto simp: good_entry_def List.map_filter_simps split: sum.splits option.splits)

text \<open>
  One malformed entry of the peer list stops the command line client: whatever the
  other arguments are, \<^verbatim>\<open>put\<close> and \<^verbatim>\<open>get\<close> exit with 1 before any peer is contacted or any file
  is touched. The worker of the graphical client, given the same list, goes on with exactly
  the entries that are well formed, and reports an error only when there is none.
\<close>

theorem malformed_entry:
  assumes "item \<in> set (peer_items peers)" "item \<noteq> []" "parse_peer_entry item = Inl e"
    "argv ! 1 = ''put'' \<or> argv ! 1 = ''get''" "argv ! 2 = peers"
  shows "(\<exists>out. cli_main env rk ri dir argv s = ((1, out), s)) \<and>
    (if List.map_filter good_entry (peer_items peers) = []
     then worker_putFile env rk ri trim peers path d n r pub s = ([Error_signal ''No valid peers provided''], s)
     else \<exists>cfg. worker_put_config trim peers d n r pub = Inr cfg \<and> cc_peers cfg = List.map_filter good_entry (peer_items peers))"
proof
  obtain e' where bad: "parse_peers (peer_items peers) = Inl e'" using parse_peers_bad [OF assms(1-3)] by blast
  then show "\<exists>out. cli_main env rk ri dir argv s = ((1, out), s)"
    using assms(4,5) by (auto simp: cli_main_def cli_put_def cli_get_def put_config_def get_config_def)
qed (simp add: worker_putFile_def worker_put_config_def collect_peers_filter no_peers_def Let_def default_config_def)

lemma sample_entry: "trimmed [h] \<Longrightarrow> to_lower h \<noteq> CHR ''t'' \<Longrightarrow> parse_peer_entry [h, CHR '':'', CHR ''1''] = Inr \<lparr>ip = [h], port = 1\<rparr>"
proof (rule parse_trimmed_item)
  assume h: "trimmed [h]" "to_lower h \<noteq> CHR ''t''"
  have one: "show_int 1 = ''1''" by code_simp
  have "trim_ws [h, CHR '':'', CHR ''1''] = [h, CHR '':'', CHR ''1'']"
    using h(1) by (intro trim_ws_trimmed) (simp add: trimmed_def is_ws_def)
  then show "(if has_tcp_prefix (trim_ws [h, CHR '':'', CHR ''1'']) then trim_ws (drop 6 (trim_ws [h, CHR '':'', CHR ''1'']))
      else trim_ws [h, CHR '':'', CHR ''1'']) = [h] @ CHR '':'' # show_int 1"
    by (simp add: has_tcp_prefix_def one)
qed (simp_all add: in_int_range_def)

lemma sample_entries:
  "peer_items ''h:1,x'' = [''h:1'', ''x'']" "parse_peer_entry ''h:1'' = Inr \<lparr>ip = ''h'', port = 1\<rparr>"
  "\<exists>e. parse_peer_entry ''x'' = Inl e"
  using sample_entry [of "CHR ''h''"]
  by (simp_all add: peer_items_def getlines.simps parse_peer_entry_def trim_ws_def trimmed_def is_ws_def has_tcp_prefix_def
      to_lower_def)

lemma toy_list: "parse_peers (peer_items ''a:1,b:1'') = Inr (cc_peers toy_config)"
  using sample_entry [of "CHR ''a''"] sample_entry [of "CHR ''b''"]
  by (simp add: peer_items_def getlines.simps trimmed_def is_ws_def to_lower_def toy_config_def)

lemma toy_numbers: "stoul ''4'' = Inr 4" "stoi ''2'' = Inr 2"
  by code_simp+

theorem malformed_entry_witness:
  "(\<exists>out. cli_main toy_env None None None [''dss'', ''put'', ''h:1,x'', ''f''] (toy_state toy_cluster []) = ((1, out), toy_state toy_cluster []))
   \<and> (\<exists>cfg. worker_put_config (\<lambda>x. x) ''h:1,x'' [] 0 0 [] = Inr cfg \<and> cc_peers cfg = [\<lparr>ip = ''h'', port = 1\<rparr>])"
proof -
  obtain e where e: "parse_peer_entry ''x'' = Inl e" using sample_entries(3) by blast
  have mem: "''x'' \<in> set (peer_items ''h:1,x'')" by (simp add: sample_entries(1))
  have good: "List.map_filter good_entry (peer_items ''h:1,x'') = [\<lparr>ip = ''h'', port = 1\<rparr>]"
    by (simp add: sample_entries(1,2) e good_entry_def List.map_filter_simps)
  from malformed_entry [OF mem _ e, of "[''dss'', ''put'', ''h:1,x'', ''f'']" toy_env None None None "toy_state toy_cluster []"
      "\<lambda>x. x" "''f''" "[]" 0 0 "[]"] good
  show ?thesis by simp
qed

section \<open>The two clients agree\<close>

text \<open>
  On a list whose entries are all well formed the worker does what the command line
  does: the same final state, one progress signal per progress line, and it ends with
  \<^verbatim>\<open>putFinished\<close> exactly when the exit code is 0, with \<^verbatim>\<open>error\<close> otherwise. The optional
  arguments are all given, the sizes are positive and the key path has no white space at
  its ends.
\<close>

theorem worker_equals_cli:
  assumes "parse_peers (peer_items peers) = Inr ps" "stoul n = Inr sz" "sz > 0" "stoi r = Inr replicas" "replicas > 0"
    "trim pub = pub" "cli_main env rk ri (Some dir) [prog, ''put'', peers, path, n, r, pub] s = ((code, out), s1)"
    "worker_putFile env rk ri trim peers path dir sz replicas pub s = (signals, s2)"
  shows "s2 = s1 \<and> (code = 0 \<longleftrightarrow> (\<exists>uri lp. last signals = Put_finished uri lp))
    \<and> (code = 1 \<longleftrightarrow> (\<exists>e. last signals = Error_signal e))
    \<and> (\<forall>uri. Out (''DONE. Share ID: '' @ uri) \<in> set out \<longleftrightarrow> (\<exists>lp. last signals = Put_finished uri lp))"
proof (cases "ps = []")
  case True
  then show ?thesis
    using assms parse_peers_collect [OF assms(1)]
    by (auto simp: cli_main_def cli_put_def put_config_def worker_putFile_def worker_put_config_def report_def no_peers_def)
next
  case False
  let ?cfg = "default_config\<lparr>cc_peers := ps, cc_chunkSize := sz, cc_desiredReplicas := replicas,
    cc_rsaPublicKeyPath := pub, cc_localManifestDir := dir\<rparr>"
  have "put_config (Some dir) [prog, ''put'', peers, path, n, r, pub] = Inr ?cfg"
    using False assms(1,2,4) by (simp add: put_config_def)
  moreover have "worker_put_config trim peers dir sz replicas pub = Inr ?cfg"
    using False assms(3,5,6) parse_peers_collect [OF assms(1)] by (simp add: worker_put_config_def Let_def)
  moreover obtain r s' where "putFile env ?cfg rk ri path (s\<lparr>ds_progress := []\<rparr>) = (r, s')" by fastforce
  ultimately show ?thesis
    using assms(7,8)
    by (cases r) (auto simp: cli_main_def cli_put_def worker_putFile_def report_def progress_line_def Let_def)
qed

section \<open>The command line end to end\<close>

text \<open>
  C27: The share id the user is shown names the file: when \<^verbatim>\<open>put\<close> exits with 0 and \<^verbatim>\<open>get\<close>,
  run anywhere with the id from its output, exits with 0, the file it wrote has the bytes
  of the file that was put, or a text that the upload sent and a different one that the
  download accepted have the same SHA-256. The file name must be one word, the file no
  larger than \<open>entries_max\<close> bytes, and no local file may have the share id for a name.
\<close>

theorem cli_put_then_get:
  assumes put: "cli_main env rk ri dir argv s = ((0, out), s1)" "argv ! 1 = ''put''" "put_config dir argv = Inr cfg"
      "Out (''DONE. Share ID: '' @ uri) \<in> set out"
    and get: "cli_main env' rk' ri' dir' argv' s2 = ((0, out'), s3)" "argv' ! 1 = ''get''" "argv' ! 3 = uri"
      "get_config argv' = Inr cfg'" "\<not> fs_exists (ds_disk s2) uri"
    and sha: "en_sha256 env' = en_sha256 env" "digest32 (en_sha256 env)"
    and src: "fs_read (ds_disk s) (argv ! 3) = Some content" "is_token (path_filename (argv ! 3))" "length content \<le> entries_max"
  shows "fs_read (ds_disk s3) (argv' ! 4) = Some content \<or>
    collision (en_sha256 env) (sent_texts env cfg rk ri (argv ! 3) (ds_disk s))
      (accepted_texts env' cfg' uri (s2\<lparr>ds_progress := []\<rparr>))"
proof -
  let ?s = "s\<lparr>ds_progress := []\<rparr>" and ?s2 = "s2\<lparr>ds_progress := []\<rparr>"
  obtain res where res: "putFile env cfg rk ri (argv ! 3) ?s = (Inr res, s1)" "uri = pr_shareUri res"
    using put by (auto simp: cli_main_def cli_put_def report_def progress_line_def Let_def split: if_splits prod.splits sum.splits)
  have "getFile env' cfg' (argv' ! 3) (argv' ! 4) ?s2 = (Inr (), s3)"
    using get(1,2,4) by (auto simp: cli_main_def cli_get_def Let_def split: if_splits prod.splits sum.splits)
  then have run: "getFile env' cfg' (pr_shareUri res) (argv' ! 4) ?s2 = (Inr (), s3)" by (simp add: get(3) res(2))
  show ?thesis
    using put_get_same [OF res(1) run sha] get(5) src by (auto simp: res(2))
qed

lemma toy_put_config: "put_config None [''dss'', ''put'', ''a:1,b:1'', ''f'', ''4'', ''2''] = Inr toy_config"
  by (simp add: put_config_def toy_list toy_numbers default_config_def) (simp add: toy_config_def)

theorem cli_put_then_get_witness:
  "\<exists>out uri s1 s2 out' s3. cli_main toy_env None None None [''dss'', ''put'', ''a:1,b:1'', ''f'', ''4'', ''2'']
      (toy_state toy_cluster [(''f'', ''data'')]) = ((0, out), s1)
    \<and> Out (''DONE. Share ID: '' @ uri) \<in> set out
    \<and> cli_main toy_env None None None [''dss'', ''get'', ''a:1,b:1'', uri, ''o''] s2 = ((0, out'), s3)
    \<and> fs_read (ds_disk s3) ''o'' = Some ''data''"
proof -
  let ?s = "toy_state toy_cluster [(''f'', ''data'')]"
  obtain cfg' where cfg': "\<And>uri. get_config [''dss'', ''get'', ''a:1,b:1'', uri, ''o''] = Inr cfg'" "cc_peers cfg' = cc_peers toy_config"
    using toy_setting(5) by (auto simp: get_config_def toy_list)
  obtain res s1 s3 where run: "putFile toy_env toy_config None None ''f'' ?s = (Inr res, s1)"
      "getFile toy_env cfg' (pr_shareUri res) ''o'' (toy_state ((ds_world s1)((1, 1) := None)) []) = (Inr (), s3)"
      "pr_shareUri res = share_prefix @ sha256_hex toy_sha toy_text"
    using toy_run [OF cfg'(2)] by blast
  let ?s2 = "toy_state ((ds_world s1)((1, 1) := None)) []" and ?uri = "pr_shareUri res"
  have fresh: "toy_state w fs\<lparr>ds_progress := []\<rparr> = toy_state w fs" for w fs by (simp add: toy_state_def)
  obtain out where out: "cli_main toy_env None None None [''dss'', ''put'', ''a:1,b:1'', ''f'', ''4'', ''2''] ?s = ((0, out), s1)"
      "Out (''DONE. Share ID: '' @ ?uri) \<in> set out"
    using run(1) by (simp add: cli_main_def cli_put_def toy_put_config fresh)
  obtain out' where out': "cli_main toy_env None None None [''dss'', ''get'', ''a:1,b:1'', ?uri, ''o''] ?s2 = ((0, out'), s3)"
    using run(2) by (simp add: cli_main_def cli_get_def cfg'(1) fresh)
  have "fs_read (ds_disk s3) ([''dss'', ''get'', ''a:1,b:1'', ?uri, ''o''] ! 4) = Some ''data'' \<or>
      collision (en_sha256 toy_env) (sent_texts toy_env toy_config None None ([''dss'', ''put'', ''a:1,b:1'', ''f'', ''4'', ''2''] ! 3) (ds_disk ?s))
        (accepted_texts toy_env cfg' ?uri (?s2\<lparr>ds_progress := []\<rparr>))"
    using toy_preconditions toy_put_config cfg'(1)
    by (intro cli_put_then_get [OF out(1) _ _ out(2) out']) (simp_all add: run(3) entries_max_def vector_char_max_def)
  then have "fs_read (ds_disk s3) ''o'' = Some ''data''" using toy_no_collision by (simp add: toy_setting)
  then show ?thesis using out out' by auto
qed

theorem worker_equals_cli_witness:
  "\<exists>code out s1 signals. cli_main toy_env None None (Some []) [''dss'', ''put'', ''a:1,b:1'', ''f'', ''4'', ''2'', []]
      (toy_state toy_cluster [(''f'', ''data'')]) = ((code, out), s1)
    \<and> worker_putFile toy_env None None (\<lambda>x. x) ''a:1,b:1'' ''f'' [] 4 2 [] (toy_state toy_cluster [(''f'', ''data'')]) = (signals, s1)
    \<and> (code = 0 \<longleftrightarrow> (\<exists>uri lp. last signals = Put_finished uri lp))"
proof -
  let ?s = "toy_state toy_cluster [(''f'', ''data'')]"
  obtain code out s1 where c: "cli_main toy_env None None (Some []) [''dss'', ''put'', ''a:1,b:1'', ''f'', ''4'', ''2'', []] ?s = ((code, out), s1)"
    by (metis surj_pair)
  obtain signals s2 where w: "worker_putFile toy_env None None (\<lambda>x. x) ''a:1,b:1'' ''f'' [] 4 2 [] ?s = (signals, s2)"
    by (metis surj_pair)
  have "s2 = s1 \<and> (code = 0 \<longleftrightarrow> (\<exists>uri lp. last signals = Put_finished uri lp))"
    using worker_equals_cli [OF toy_list toy_numbers(1) _ toy_numbers(2) _ _ c w] by simp
  with c w show ?thesis by auto
qed

end
