(* ===== verification/Peer_Lifecycle.thy ===== *)
theory Peer_Lifecycle
  imports Main
begin

text \<open>
  Starting and stopping the storage peer, \<^verbatim>\<open>PeerService::start\<close>, \<^verbatim>\<open>stop\<close>, \<^verbatim>\<open>runBlocking\<close> and the
  frame of \<^verbatim>\<open>runLoop\<close> in \<^verbatim>\<open>core/peer/peer_service.cpp\<close>: the owner of the object and its worker
  thread interleave, statement by statement, over the shared \<^verbatim>\<open>running_\<close>, \<^verbatim>\<open>listenFd_\<close> and the
  thread object, while other threads of the process open descriptors. What a request does
  is the subject of \<open>Peer_Service\<close>; here it either succeeds or throws.
\<close>

section \<open>States\<close>

text \<open>
  Where the owner is: outside, in \<^verbatim>\<open>stop\<close> (lines 50, 51, 53, 54, 56), destroyed, or
  \<^verbatim>\<open>std::terminate\<close> was called.
\<close>

datatype owner_pc = Idle | Stop_set | Stop_test | Stop_close | Stop_clear | Stop_join | Destroyed | Terminated

text \<open>
  Where the worker is in \<^verbatim>\<open>runLoop\<close>: before line 65, at \<^verbatim>\<open>socket\<close>, at line 74, at \<^verbatim>\<open>bind\<close>, at \<^verbatim>\<open>listen\<close>,
  in the three statements after one of them failed, at the loop test, about to call \<^verbatim>\<open>accept\<close>,
  blocked in it on its own socket, blocked in it on a socket another thread opened under the
  same number, at line 100 after it failed, serving a client, at lines 207, 208, 209 and 211, or
  returned.
\<close>

datatype worker_pc = No_thread | W_init | W_socket | W_publish | W_bind | W_listen
  | W_refused_close | W_refused_clear | W_refused_end
  | W_loop | W_accept | W_blocked | W_foreign | W_failed | W_serve
  | W_test | W_close | W_clear | W_final | W_exit

text \<open>
  \<open>lc_fds\<close> are the descriptors open in the process, \<open>lc_foreign\<close> those of other threads;
  \<open>lc_down\<close> says that the listening socket was shut down, and \<open>lc_stray\<close> is set when the
  service closes a descriptor that is not its own.
\<close>

record life =
  lc_running :: bool
  lc_listenFd :: "nat option"
  lc_owner :: owner_pc
  lc_worker :: worker_pc
  lc_listen_fd :: nat
  lc_down :: bool
  lc_fds :: "nat set"
  lc_foreign :: "nat set"
  lc_stray :: bool

definition new_life :: "nat set \<Rightarrow> life" where
  "new_life others = \<lparr>lc_running = False, lc_listenFd = None, lc_owner = Idle, lc_worker = No_thread,
     lc_listen_fd = 0, lc_down = False, lc_fds = others, lc_foreign = others, lc_stray = False\<rparr>"

text \<open>The thread object is joinable from its start until it has been joined.\<close>

definition joinable :: "life \<Rightarrow> bool" where
  "joinable s \<longleftrightarrow> lc_worker s \<noteq> No_thread"

text \<open>\<^verbatim>\<open>::close\<close>: closing a descriptor of another thread, or one that is not open, is stray.\<close>

definition close_fd :: "nat option \<Rightarrow> life \<Rightarrow> life" where
  "close_fd fd s = (case fd of None \<Rightarrow> s
     | Some n \<Rightarrow> s\<lparr>lc_fds := lc_fds s - {n}, lc_foreign := lc_foreign s - {n},
                  lc_stray := (lc_stray s \<or> n \<in> lc_foreign s \<or> n \<notin> lc_fds s)\<rparr>)"

text \<open>Whether a number still names the socket the worker opened, and whether that socket listens.\<close>

definition own_fd :: "nat \<Rightarrow> life \<Rightarrow> bool" where
  "own_fd fd s \<longleftrightarrow> fd = lc_listen_fd s \<and> fd \<in> lc_fds s \<and> fd \<notin> lc_foreign s"

definition listening :: "worker_pc \<Rightarrow> bool" where
  "listening p \<longleftrightarrow> p \<in> {W_loop, W_accept, W_blocked, W_foreign, W_failed, W_serve, W_test, W_close}"

text \<open>\<^verbatim>\<open>::shutdown\<close> of the descriptor in \<^verbatim>\<open>listenFd_\<close>; it reaches the socket only while the number is its own.\<close>

definition shut_fd :: "nat \<Rightarrow> life \<Rightarrow> life" where
  "shut_fd fd s = s\<lparr>lc_down := lc_down s \<or> own_fd fd s \<and> listening (lc_worker s)\<rparr>"

section \<open>Steps\<close>

inductive owner_step :: "life \<Rightarrow> life \<Rightarrow> bool" where
  start_ignored: "lc_owner s = Idle \<Longrightarrow> lc_running s \<Longrightarrow> owner_step s s"
| start: "lc_owner s = Idle \<Longrightarrow> \<not> lc_running s \<Longrightarrow> \<not> joinable s \<Longrightarrow>
    owner_step s (s\<lparr>lc_running := True, lc_worker := W_init\<rparr>)"
| start_over_thread: "lc_owner s = Idle \<Longrightarrow> \<not> lc_running s \<Longrightarrow> joinable s \<Longrightarrow>
    owner_step s (s\<lparr>lc_running := True, lc_owner := Terminated\<rparr>)"
| stop_ignored: "lc_owner s = Idle \<Longrightarrow> \<not> lc_running s \<Longrightarrow> owner_step s s"
| stop: "lc_owner s = Idle \<Longrightarrow> lc_running s \<Longrightarrow> owner_step s (s\<lparr>lc_owner := Stop_set\<rparr>)"
| stop_set: "lc_owner s = Stop_set \<Longrightarrow> owner_step s (s\<lparr>lc_running := False, lc_owner := Stop_test\<rparr>)"
| stop_no_socket: "lc_owner s = Stop_test \<Longrightarrow> lc_listenFd s = None \<Longrightarrow> owner_step s (s\<lparr>lc_owner := Stop_join\<rparr>)"
| stop_shutdown: "lc_owner s = Stop_test \<Longrightarrow> lc_listenFd s = Some fd \<Longrightarrow>
    owner_step s ((shut_fd fd s)\<lparr>lc_owner := Stop_close\<rparr>)"
| stop_close: "lc_owner s = Stop_close \<Longrightarrow> owner_step s ((close_fd (lc_listenFd s) s)\<lparr>lc_owner := Stop_clear\<rparr>)"
| stop_clear: "lc_owner s = Stop_clear \<Longrightarrow> owner_step s (s\<lparr>lc_listenFd := None, lc_owner := Stop_join\<rparr>)"
| stop_join: "lc_owner s = Stop_join \<Longrightarrow> lc_worker s = W_exit \<Longrightarrow>
    owner_step s (s\<lparr>lc_worker := No_thread, lc_owner := Idle\<rparr>)"
| stop_unjoinable: "lc_owner s = Stop_join \<Longrightarrow> \<not> joinable s \<Longrightarrow> owner_step s (s\<lparr>lc_owner := Idle\<rparr>)"
| destroy: "lc_owner s = Idle \<Longrightarrow> \<not> joinable s \<Longrightarrow> owner_step s (s\<lparr>lc_owner := Destroyed\<rparr>)"
| destroy_joinable: "lc_owner s = Idle \<Longrightarrow> joinable s \<Longrightarrow> owner_step s (s\<lparr>lc_owner := Terminated\<rparr>)"

text \<open>
  What the worker does by itself. Every exception that leaves \<^verbatim>\<open>runLoop\<close> is caught by the thread
  function, which clears \<^verbatim>\<open>running_\<close> again and returns; the two stores are one step. \<^verbatim>\<open>accept\<close>
  fails at once on a number that is not open or whose socket was shut down, waits otherwise,
  and a wait ends by itself only when the socket is shut down.
\<close>

inductive worker_step :: "life \<Rightarrow> life \<Rightarrow> bool" where
  init: "lc_worker s = W_init \<Longrightarrow> worker_step s (s\<lparr>lc_worker := W_socket\<rparr>)"
| init_throws: "lc_worker s = W_init \<Longrightarrow> worker_step s (s\<lparr>lc_running := False, lc_worker := W_exit\<rparr>)"
| socket: "lc_worker s = W_socket \<Longrightarrow> fd \<notin> lc_fds s \<Longrightarrow>
    worker_step s (s\<lparr>lc_fds := insert fd (lc_fds s), lc_foreign := lc_foreign s - {fd}, lc_down := False,
      lc_listen_fd := fd, lc_worker := W_publish\<rparr>)"
| socket_fails: "lc_worker s = W_socket \<Longrightarrow> worker_step s (s\<lparr>lc_running := False, lc_worker := W_exit\<rparr>)"
| publish: "lc_worker s = W_publish \<Longrightarrow> worker_step s (s\<lparr>lc_listenFd := Some (lc_listen_fd s), lc_worker := W_bind\<rparr>)"
| bind: "lc_worker s = W_bind \<Longrightarrow> lc_listen_fd s \<in> lc_fds s \<Longrightarrow> worker_step s (s\<lparr>lc_worker := W_listen\<rparr>)"
| bind_fails: "lc_worker s = W_bind \<Longrightarrow> worker_step s (s\<lparr>lc_worker := W_refused_close\<rparr>)"
| listen: "lc_worker s = W_listen \<Longrightarrow> lc_listen_fd s \<in> lc_fds s \<Longrightarrow> worker_step s (s\<lparr>lc_worker := W_loop\<rparr>)"
| listen_fails: "lc_worker s = W_listen \<Longrightarrow> worker_step s (s\<lparr>lc_worker := W_refused_close\<rparr>)"
| refused_close: "lc_worker s = W_refused_close \<Longrightarrow>
    worker_step s ((close_fd (Some (lc_listen_fd s)) s)\<lparr>lc_worker := W_refused_clear\<rparr>)"
| refused_clear: "lc_worker s = W_refused_clear \<Longrightarrow>
    worker_step s (s\<lparr>lc_listenFd := None, lc_worker := W_refused_end\<rparr>)"
| refused_end: "lc_worker s = W_refused_end \<Longrightarrow> worker_step s (s\<lparr>lc_running := False, lc_worker := W_exit\<rparr>)"
| loop: "lc_worker s = W_loop \<Longrightarrow> lc_running s \<Longrightarrow> worker_step s (s\<lparr>lc_worker := W_accept\<rparr>)"
| loop_ends: "lc_worker s = W_loop \<Longrightarrow> \<not> lc_running s \<Longrightarrow> worker_step s (s\<lparr>lc_worker := W_test\<rparr>)"
| accept_waits: "lc_worker s = W_accept \<Longrightarrow> own_fd (lc_listen_fd s) s \<Longrightarrow> \<not> lc_down s \<Longrightarrow>
    worker_step s (s\<lparr>lc_worker := W_blocked\<rparr>)"
| accept_foreign: "lc_worker s = W_accept \<Longrightarrow> lc_listen_fd s \<in> lc_foreign s \<Longrightarrow>
    worker_step s (s\<lparr>lc_worker := W_foreign\<rparr>)"
| accept_refused: "lc_worker s = W_accept \<Longrightarrow> lc_listen_fd s \<notin> lc_foreign s \<Longrightarrow>
    lc_listen_fd s \<notin> lc_fds s \<or> lc_down s \<Longrightarrow> worker_step s (s\<lparr>lc_worker := W_failed\<rparr>)"
| accept_woken: "lc_worker s = W_blocked \<Longrightarrow> lc_down s \<Longrightarrow> worker_step s (s\<lparr>lc_worker := W_failed\<rparr>)"
| accept_again: "lc_worker s = W_failed \<Longrightarrow> lc_running s \<Longrightarrow> worker_step s (s\<lparr>lc_worker := W_loop\<rparr>)"
| accept_break: "lc_worker s = W_failed \<Longrightarrow> \<not> lc_running s \<Longrightarrow> worker_step s (s\<lparr>lc_worker := W_test\<rparr>)"
| test_open: "lc_worker s = W_test \<Longrightarrow> lc_listenFd s \<noteq> None \<Longrightarrow> worker_step s (s\<lparr>lc_worker := W_close\<rparr>)"
| test_closed: "lc_worker s = W_test \<Longrightarrow> lc_listenFd s = None \<Longrightarrow> worker_step s (s\<lparr>lc_worker := W_final\<rparr>)"
| close: "lc_worker s = W_close \<Longrightarrow> worker_step s ((close_fd (lc_listenFd s) s)\<lparr>lc_worker := W_clear\<rparr>)"
| clear: "lc_worker s = W_clear \<Longrightarrow> worker_step s (s\<lparr>lc_listenFd := None, lc_worker := W_final\<rparr>)"
| final: "lc_worker s = W_final \<Longrightarrow> worker_step s (s\<lparr>lc_running := False, lc_worker := W_exit\<rparr>)"

text \<open>
  What the worker does when a client lets it: a client connects, or gives up while it is
  being accepted; the request goes on with one more read or write, ends, or throws. A socket
  of another thread has clients of its own.
\<close>

inductive client_step :: "life \<Rightarrow> life \<Rightarrow> bool" where
  client_connects: "lc_worker s = W_blocked \<Longrightarrow> \<not> lc_down s \<Longrightarrow> client_step s (s\<lparr>lc_worker := W_serve\<rparr>)"
| client_aborts: "lc_worker s = W_blocked \<Longrightarrow> \<not> lc_down s \<Longrightarrow> client_step s (s\<lparr>lc_worker := W_failed\<rparr>)"
| foreign_client: "lc_worker s = W_foreign \<Longrightarrow> client_step s (s\<lparr>lc_worker := W_serve\<rparr>)"
| foreign_fails: "lc_worker s = W_foreign \<Longrightarrow> client_step s (s\<lparr>lc_worker := W_failed\<rparr>)"
| serves: "lc_worker s = W_serve \<Longrightarrow> client_step s s"
| served: "lc_worker s = W_serve \<Longrightarrow> client_step s (s\<lparr>lc_worker := W_loop\<rparr>)"
| serve_throws: "lc_worker s = W_serve \<Longrightarrow> client_step s (s\<lparr>lc_running := False, lc_worker := W_exit\<rparr>)"

text \<open>Other threads open and close descriptors of their own.\<close>

inductive other_step :: "life \<Rightarrow> life \<Rightarrow> bool" where
  other_open: "fd \<notin> lc_fds s \<Longrightarrow>
    other_step s (s\<lparr>lc_fds := insert fd (lc_fds s), lc_foreign := insert fd (lc_foreign s)\<rparr>)"
| other_close: "fd \<in> lc_foreign s \<Longrightarrow> other_step s (s\<lparr>lc_fds := lc_fds s - {fd}, lc_foreign := lc_foreign s - {fd}\<rparr>)"

text \<open>After \<^verbatim>\<open>std::terminate\<close> nothing runs any more.\<close>

inductive life_step :: "life \<Rightarrow> life \<Rightarrow> bool" where
  by_owner: "lc_owner s \<noteq> Terminated \<Longrightarrow> owner_step s s' \<Longrightarrow> life_step s s'"
| by_worker: "lc_owner s \<noteq> Terminated \<Longrightarrow> worker_step s s' \<Longrightarrow> life_step s s'"
| by_client: "lc_owner s \<noteq> Terminated \<Longrightarrow> client_step s s' \<Longrightarrow> life_step s s'"
| by_other: "lc_owner s \<noteq> Terminated \<Longrightarrow> other_step s s' \<Longrightarrow> life_step s s'"

abbreviation life_steps :: "life \<Rightarrow> life \<Rightarrow> bool" where
  "life_steps \<equiv> life_step\<^sup>*\<^sup>*"

inductive_cases owner_stepE: "owner_step s s'"
inductive_cases worker_stepE: "worker_step s s'"
inductive_cases client_stepE: "client_step s s'"
inductive_cases other_stepE: "other_step s s'"
inductive_cases life_stepE: "life_step s s'"

section \<open>The invariant\<close>

text \<open>In \<^verbatim>\<open>stop\<close>, after \<^verbatim>\<open>running_\<close> was cleared.\<close>

definition in_stop :: "owner_pc \<Rightarrow> bool" where
  "in_stop p \<longleftrightarrow> p \<in> {Stop_test, Stop_close, Stop_clear, Stop_join}"

definition has_socket :: "worker_pc \<Rightarrow> bool" where
  "has_socket p \<longleftrightarrow> p \<notin> {No_thread, W_init, W_socket, W_publish}"

text \<open>From line 74 on, before the worker touches \<^verbatim>\<open>listenFd_\<close> again.\<close>

definition published :: "worker_pc \<Rightarrow> bool" where
  "published p \<longleftrightarrow> p \<in> {W_bind, W_listen, W_refused_close, W_refused_clear, W_loop, W_accept, W_blocked, W_foreign, W_failed, W_serve}"

definition life_inv :: "life \<Rightarrow> bool" where
  "life_inv s \<longleftrightarrow>
     (lc_running s \<longrightarrow> lc_owner s \<in> {Idle, Stop_set, Terminated} \<and> joinable s)
   \<and> (lc_owner s = Stop_set \<or> in_stop (lc_owner s) \<longrightarrow> joinable s)
   \<and> (lc_listenFd s \<noteq> None \<longrightarrow> lc_listenFd s = Some (lc_listen_fd s) \<and> has_socket (lc_worker s)
        \<and> lc_worker s \<notin> {W_final, W_refused_end})
   \<and> (published (lc_worker s) \<and> lc_owner s \<in> {Idle, Stop_set, Stop_test, Stop_close, Stop_clear} \<longrightarrow> lc_listenFd s \<noteq> None)
   \<and> (lc_owner s \<in> {Idle, Stop_set} \<longrightarrow> lc_running s = (lc_worker s \<notin> {No_thread, W_exit}))
   \<and> (lc_owner s = Stop_join \<and> lc_worker s \<in> {W_accept, W_blocked, W_foreign, W_failed, W_serve, W_exit} \<longrightarrow> lc_listenFd s = None)
   \<and> (lc_owner s = Destroyed \<longrightarrow> lc_worker s = No_thread)
   \<and> (lc_worker s \<in> {W_publish, W_bind, W_listen, W_loop, W_accept, W_blocked, W_foreign, W_failed, W_serve}
        \<and> lc_owner s \<in> {Idle, Stop_set, Stop_test, Stop_close} \<longrightarrow> own_fd (lc_listen_fd s) s)
   \<and> (lc_worker s \<in> {W_accept, W_blocked} \<and> lc_owner s \<in> {Stop_close, Stop_clear, Stop_join} \<longrightarrow> lc_down s)"

lemmas pc_defs = in_stop_def joinable_def has_socket_def published_def listening_def

lemma life_inv_new: "life_inv (new_life others)"
  by (simp add: life_inv_def new_life_def pc_defs)

lemma close_fd_simps [simp]:
  "lc_running (close_fd fd s) = lc_running s" "lc_listenFd (close_fd fd s) = lc_listenFd s"
  "lc_owner (close_fd fd s) = lc_owner s" "lc_worker (close_fd fd s) = lc_worker s"
  "lc_listen_fd (close_fd fd s) = lc_listen_fd s" "lc_down (close_fd fd s) = lc_down s"
  by (simp_all add: close_fd_def split: option.splits)

lemma shut_fd_simps [simp]:
  "lc_running (shut_fd fd s) = lc_running s" "lc_listenFd (shut_fd fd s) = lc_listenFd s"
  "lc_owner (shut_fd fd s) = lc_owner s" "lc_worker (shut_fd fd s) = lc_worker s"
  "lc_listen_fd (shut_fd fd s) = lc_listen_fd s" "lc_fds (shut_fd fd s) = lc_fds s"
  "lc_foreign (shut_fd fd s) = lc_foreign s" "lc_down (shut_fd fd s) = (lc_down s \<or> own_fd fd s \<and> listening (lc_worker s))"
  by (simp_all add: shut_fd_def)

lemma life_inv_owner: "owner_step s s' \<Longrightarrow> life_inv s \<Longrightarrow> life_inv s'"
  by (induction rule: owner_step.induct) (auto simp: life_inv_def pc_defs own_fd_def)

lemma life_inv_worker: "worker_step s s' \<Longrightarrow> life_inv s \<Longrightarrow> lc_owner s \<noteq> Terminated \<Longrightarrow> life_inv s'"
  by (erule worker_stepE; cases "lc_owner s"; simp add: life_inv_def pc_defs own_fd_def; (blast)?)

lemma life_inv_client: "client_step s s' \<Longrightarrow> life_inv s \<Longrightarrow> lc_owner s \<noteq> Terminated \<Longrightarrow> life_inv s'"
  by (erule client_stepE; cases "lc_owner s"; simp add: life_inv_def pc_defs own_fd_def; (blast)?)

lemma life_inv_other: "other_step s s' \<Longrightarrow> life_inv s \<Longrightarrow> life_inv s'"
  by (induction rule: other_step.induct) (auto simp: life_inv_def pc_defs own_fd_def)

lemma worker_owner: "worker_step s s' \<Longrightarrow> lc_owner s' = lc_owner s"
  by (induction rule: worker_step.induct) simp_all

lemma client_owner: "client_step s s' \<Longrightarrow> lc_owner s' = lc_owner s"
  by (induction rule: client_step.induct) simp_all

lemma other_owner: "other_step s s' \<Longrightarrow> lc_owner s' = lc_owner s \<and> lc_worker s' = lc_worker s \<and> lc_listenFd s' = lc_listenFd s"
  by (induction rule: other_step.induct) simp_all

lemma life_inv_step: "life_step s s' \<Longrightarrow> life_inv s \<Longrightarrow> life_inv s'"
  by (induction rule: life_step.induct) (auto intro: life_inv_owner life_inv_worker life_inv_client life_inv_other)

lemma life_inv_steps: "life_steps s s' \<Longrightarrow> life_inv s \<Longrightarrow> life_inv s'"
  by (induction rule: rtranclp_induct) (auto intro: life_inv_step)

lemma life_inv_reach: "life_steps (new_life others) s \<Longrightarrow> life_inv s"
  using life_inv_steps life_inv_new by blast

lemma life_inv_stopping:
  "life_inv s \<Longrightarrow> in_stop (lc_owner s) \<Longrightarrow> \<not> lc_running s"
  "life_inv s \<Longrightarrow> in_stop (lc_owner s) \<Longrightarrow> lc_worker s \<noteq> No_thread"
  by (cases "lc_owner s"; simp add: life_inv_def in_stop_def joinable_def)+

lemma life_inv_idle: "life_inv s \<Longrightarrow> lc_owner s = Idle \<Longrightarrow> lc_worker s = No_thread \<Longrightarrow> \<not> lc_running s \<and> lc_listenFd s = None"
  by (simp add: life_inv_def joinable_def has_socket_def)

lemma life_inv_ended:
  "life_inv s \<Longrightarrow> lc_owner s = Idle \<Longrightarrow> lc_running s \<longleftrightarrow> lc_worker s \<notin> {No_thread, W_exit}"
  by (simp add: life_inv_def)

lemma stop_ends:
  "owner_step s s' \<Longrightarrow> in_stop (lc_owner s) \<Longrightarrow> \<not> in_stop (lc_owner s') \<Longrightarrow> lc_owner s' = Idle \<and> lc_worker s' = No_thread"
  by (induction rule: owner_step.induct) (auto simp: in_stop_def joinable_def)

section \<open>After an exception\<close>

definition dead :: "life \<Rightarrow> bool" where
  "dead s \<longleftrightarrow> lc_owner s = Idle \<and> lc_worker s = W_exit"

lemma life_inv_dead: "life_inv s \<Longrightarrow> dead s \<Longrightarrow> \<not> lc_running s"
  by (simp add: life_inv_def dead_def)

text \<open>How \<^verbatim>\<open>stop\<close> returns: from the join, or at once when the service is not running (line 49).\<close>

definition stop_returns :: "life \<Rightarrow> life \<Rightarrow> bool" where
  "stop_returns s s' \<longleftrightarrow> in_stop (lc_owner s) \<and> \<not> in_stop (lc_owner s') \<and> life_step s s'
     \<or> lc_owner s = Idle \<and> \<not> lc_running s \<and> s' = s"

text \<open>
  C8: What \<^verbatim>\<open>stop\<close> leaves, however the worker, clients and other threads were interleaved with
  it. A \<^verbatim>\<open>stop\<close> that found the service running returns with the thread joined, the descriptor
  forgotten, and a \<^verbatim>\<open>start\<close> that begins a new worker. A \<^verbatim>\<open>stop\<close> that found it not running returns
  at once and changes nothing: then the service was never started or stopped before, or its
  worker was ended by an exception, and in that case its thread stays unjoined and the next
  \<^verbatim>\<open>start\<close> is \<^verbatim>\<open>std::terminate\<close>.
\<close>

theorem stop_restores:
  assumes "life_steps (new_life others) s" "stop_returns s s'"
  shows "lc_owner s' = Idle \<and> \<not> lc_running s' \<and>
    (if in_stop (lc_owner s) \<or> \<not> joinable s
     then \<not> joinable s' \<and> lc_listenFd s' = None \<and> life_step s' (s'\<lparr>lc_running := True, lc_worker := W_init\<rparr>)
     else dead s' \<and> life_step s' (s'\<lparr>lc_running := True, lc_owner := Terminated\<rparr>))"
proof (cases "in_stop (lc_owner s)")
  case True
  have inv: "life_inv s" by (rule life_inv_reach [OF assms(1)])
  have step: "life_step s s'" and out: "\<not> in_stop (lc_owner s')"
    using assms(2) True by (auto simp: stop_returns_def in_stop_def)
  have inv': "life_inv s'" by (rule life_inv_step [OF step inv])
  have "owner_step s s'"
    using step True out worker_owner [of s s'] client_owner [of s s'] other_owner [of s s']
    by (cases rule: life_step.cases) simp_all
  then have idle: "lc_owner s' = Idle" "lc_worker s' = No_thread" using stop_ends True out by blast+
  then have "\<not> lc_running s'" "lc_listenFd s' = None" using life_inv_idle [OF inv'] by blast+
  then show ?thesis
    using idle owner_step.start [of s'] True by (auto simp: joinable_def intro: life_step.by_owner)
next
  case False
  then have s: "lc_owner s = Idle" "\<not> lc_running s" "s' = s" using assms(2) by (auto simp: stop_returns_def)
  have inv: "life_inv s" by (rule life_inv_reach [OF assms(1)])
  then have "lc_worker s \<in> {No_thread, W_exit}" using life_inv_ended s by blast
  then show ?thesis
    using s False life_inv_idle [OF inv] owner_step.start [of s] owner_step.start_over_thread [of s]
    by (auto simp: joinable_def dead_def intro: life_step.by_owner)
qed

lemma dead_owner:
  "owner_step s s' \<Longrightarrow> dead s \<Longrightarrow> \<not> lc_running s \<Longrightarrow> dead s' \<and> lc_listenFd s' = lc_listenFd s \<or> lc_owner s' = Terminated"
  by (induction rule: owner_step.induct) (auto simp: dead_def joinable_def)

lemma dead_worker: "worker_step s s' \<Longrightarrow> \<not> dead s"
  by (induction rule: worker_step.induct) (auto simp: dead_def)

lemma dead_client: "client_step s s' \<Longrightarrow> \<not> dead s"
  by (induction rule: client_step.induct) (auto simp: dead_def)

lemma dead_step:
  assumes "life_step s s'" "life_inv s" "dead s"
  shows "dead s' \<and> lc_listenFd s' = lc_listenFd s \<or> lc_owner s' = Terminated"
  using assms(1)
proof (cases rule: life_step.cases)
  case by_owner
  then show ?thesis using dead_owner assms(3) life_inv_dead [OF assms(2,3)] by blast
next
  case by_worker
  then show ?thesis using dead_worker assms(3) by blast
next
  case by_client
  then show ?thesis using dead_client assms(3) by blast
next
  case by_other
  then show ?thesis using other_owner [of s s'] assms(3) by (simp add: dead_def)
qed

text \<open>
  When an exception ends the worker (a request of too large a size does it), the object
  is lost: \<^verbatim>\<open>stop\<close> does nothing, the descriptor is never closed by it, and the next \<^verbatim>\<open>start\<close>,
  or the destructor, calls \<^verbatim>\<open>std::terminate\<close>, because the old thread was not joined.
\<close>

theorem dead_service_stays_dead:
  assumes "life_steps (new_life others) s" "dead s" "life_steps s s'"
  shows "lc_owner s' = Terminated \<or> dead s' \<and> \<not> lc_running s' \<and> lc_listenFd s' = lc_listenFd s"
  using assms(3)
proof (induction rule: rtranclp_induct)
  case base
  have "life_inv s" by (rule life_inv_reach [OF assms(1)])
  then show ?case using assms(2) life_inv_dead [of s] by simp
next
  case (step y z)
  have inv: "life_inv y" using life_inv_reach assms(1) step.hyps(1) rtranclp_trans by metis
  have inv': "life_inv z" by (rule life_inv_step [OF step.hyps(2) inv])
  have "lc_owner y \<noteq> Terminated" using step.hyps(2) by (auto elim: life_stepE)
  then have "dead y" "lc_listenFd y = lc_listenFd s" using step.IH by auto
  from dead_step [OF step.hyps(2) inv this(1)] show ?case
    using life_inv_dead [OF inv'] \<open>lc_listenFd y = lc_listenFd s\<close> by auto
qed

section \<open>Stopping takes boundedly many steps\<close>

definition owner_work :: "owner_pc \<Rightarrow> nat" where
  "owner_work p = (case p of Stop_test \<Rightarrow> 4 | Stop_close \<Rightarrow> 3 | Stop_clear \<Rightarrow> 2 | Stop_join \<Rightarrow> 1 | _ \<Rightarrow> 0)"

definition worker_work :: "worker_pc \<Rightarrow> nat" where
  "worker_work p = (case p of W_init \<Rightarrow> 10 | W_socket \<Rightarrow> 9 | W_publish \<Rightarrow> 8 | W_bind \<Rightarrow> 7 | W_listen \<Rightarrow> 6
     | W_accept \<Rightarrow> 8 | W_blocked \<Rightarrow> 7 | W_foreign \<Rightarrow> 7 | W_serve \<Rightarrow> 6 | W_failed \<Rightarrow> 5 | W_loop \<Rightarrow> 5
     | W_refused_close \<Rightarrow> 3 | W_refused_clear \<Rightarrow> 2 | W_refused_end \<Rightarrow> 1
     | W_test \<Rightarrow> 4 | W_close \<Rightarrow> 3 | W_clear \<Rightarrow> 2 | W_final \<Rightarrow> 1 | _ \<Rightarrow> 0)"

definition stop_work :: "life \<Rightarrow> nat" where
  "stop_work s = owner_work (lc_owner s) + worker_work (lc_worker s)"

lemma stop_work_worker: "worker_step s s' \<Longrightarrow> \<not> lc_running s \<Longrightarrow> stop_work s' < stop_work s"
  by (induction rule: worker_step.induct) (auto simp: stop_work_def worker_work_def)

lemma stop_work_client: "client_step s s' \<Longrightarrow> stop_work s' < stop_work s \<or> lc_worker s = W_serve \<and> s' = s"
  by (induction rule: client_step.induct) (auto simp: stop_work_def worker_work_def)

lemma stop_work_owner: "owner_step s s' \<Longrightarrow> in_stop (lc_owner s) \<Longrightarrow> stop_work s' < stop_work s"
  by (induction rule: owner_step.induct)
    (auto simp: stop_work_def owner_work_def worker_work_def in_stop_def split: worker_pc.splits)

text \<open>
  At the join the worker can move by itself, unless it waits for a client: a wait of its own
  was ended by the \<^verbatim>\<open>shutdown\<close> before.
\<close>

lemma worker_enabled:
  assumes "lc_worker s \<notin> {No_thread, W_exit, W_serve, W_foreign}" "\<not> lc_running s" "lc_worker s = W_blocked \<longrightarrow> lc_down s"
  shows "\<exists>s'. worker_step s s'"
proof (cases "lc_worker s")
  case W_accept
  then show ?thesis
    using worker_step.accept_waits [of s] worker_step.accept_foreign [of s] worker_step.accept_refused [of s]
    by (cases "lc_listen_fd s \<in> lc_foreign s"; cases "lc_listen_fd s \<in> lc_fds s"; cases "lc_down s") (auto simp: own_fd_def)
next
  case W_test
  then show ?thesis using worker_step.test_open [of s] worker_step.test_closed [of s] by (cases "lc_listenFd s") auto
qed (use assms in \<open>simp_all, (blast intro: worker_step.intros)+\<close>)

lemma stop_enabled:
  assumes "life_inv s" "in_stop (lc_owner s)" "\<not> (lc_owner s = Stop_join \<and> lc_worker s \<in> {W_serve, W_foreign})"
  shows "\<exists>s'. owner_step s s' \<or> worker_step s s'"
proof -
  note idle = life_inv_stopping [OF assms(1,2)]
  consider "lc_owner s = Stop_test" | "lc_owner s = Stop_close" | "lc_owner s = Stop_clear" | "lc_owner s = Stop_join"
    using assms(2) by (auto simp: in_stop_def)
  then show ?thesis
  proof cases
    case 1
    then show ?thesis
      using owner_step.stop_no_socket [of s] owner_step.stop_shutdown [of s] by (cases "lc_listenFd s") auto
  next
    case 2
    then show ?thesis using owner_step.stop_close [of s] by blast
  next
    case 3
    then show ?thesis using owner_step.stop_clear [of s] by blast
  next
    case 4
    then have "lc_worker s = W_blocked \<longrightarrow> lc_down s" using assms(1) by (simp add: life_inv_def)
    then show ?thesis using 4 owner_step.stop_join [of s] worker_enabled [of s] idle assms(3) by blast
  qed
qed

text \<open>
  C35: \<^verbatim>\<open>stop\<close> comes to an end unless a client keeps it. Once \<^verbatim>\<open>running_\<close> is cleared, a thread
  blocked in \<^verbatim>\<open>accept\<close> is woken by the \<^verbatim>\<open>shutdown\<close>, and no state of the two threads is stuck: owner
  or worker can move without the help of any client, except while the join waits for the
  request being served, or for a worker that called \<^verbatim>\<open>accept\<close> on a number another thread had
  reused. Every move of owner, worker or client, in any order, brings the end closer by a
  measure that is at most 14 and that other threads do not raise; only a client that makes the
  request under service go on and on leaves it where it is.
\<close>

theorem stop_terminates:
  assumes "life_steps (new_life others) s" "in_stop (lc_owner s)"
  shows "(\<not> (lc_owner s = Stop_join \<and> lc_worker s \<in> {W_serve, W_foreign}) \<longrightarrow> (\<exists>s'. owner_step s s' \<or> worker_step s s'))
    \<and> (\<forall>s'. owner_step s s' \<or> worker_step s s' \<longrightarrow> stop_work s' < stop_work s)
    \<and> (\<forall>s'. client_step s s' \<longrightarrow> stop_work s' < stop_work s \<or> lc_worker s = W_serve \<and> s' = s)
    \<and> (\<forall>s'. other_step s s' \<longrightarrow> stop_work s' = stop_work s) \<and> stop_work s \<le> 14"
proof -
  have inv: "life_inv s" by (rule life_inv_reach [OF assms(1)])
  have "\<not> lc_running s" by (rule life_inv_stopping(1) [OF inv assms(2)])
  moreover have "other_step s s' \<Longrightarrow> stop_work s' = stop_work s" for s'
    by (auto elim!: other_stepE simp: stop_work_def)
  moreover have "stop_work s \<le> 14"
    by (simp add: stop_work_def owner_work_def worker_work_def split: owner_pc.splits worker_pc.splits)
  moreover have "owner_step s s' \<or> worker_step s s' \<Longrightarrow> stop_work s' < stop_work s" for s'
    using stop_work_worker [of s s'] stop_work_owner [of s s'] assms(2) calculation(1) by (elim disjE) simp_all
  ultimately show ?thesis using stop_enabled [OF inv assms(2)] stop_work_client [of s] by blast
qed

section \<open>Runs\<close>

text \<open>A state of a service whose listening descriptor is 3.\<close>

definition life_at :: "bool \<Rightarrow> nat option \<Rightarrow> owner_pc \<Rightarrow> worker_pc \<Rightarrow> bool \<Rightarrow> nat set \<Rightarrow> nat set \<Rightarrow> bool \<Rightarrow> life" where
  "life_at running lfd own wrk down fds other stray = \<lparr>lc_running = running, lc_listenFd = lfd, lc_owner = own,
     lc_worker = wrk, lc_listen_fd = 3, lc_down = down, lc_fds = fds, lc_foreign = other, lc_stray = stray\<rparr>"

lemmas life_at_simps = life_at_def new_life_def joinable_def close_fd_def shut_fd_def own_fd_def listening_def

lemma by_owner_at: "life_steps s0 s \<Longrightarrow> owner_step s s' \<Longrightarrow> lc_owner s \<noteq> Terminated \<Longrightarrow> life_steps s0 s'"
  by (auto intro: rtranclp.rtrancl_into_rtrancl life_step.by_owner)

lemma by_worker_at: "life_steps s0 s \<Longrightarrow> worker_step s s' \<Longrightarrow> lc_owner s \<noteq> Terminated \<Longrightarrow> life_steps s0 s'"
  by (auto intro: rtranclp.rtrancl_into_rtrancl life_step.by_worker)

lemma by_other_at: "life_steps s0 s \<Longrightarrow> other_step s s' \<Longrightarrow> lc_owner s \<noteq> Terminated \<Longrightarrow> life_steps s0 s'"
  by (auto intro: rtranclp.rtrancl_into_rtrancl life_step.by_other)

lemma by_client_at: "life_steps s0 s \<Longrightarrow> client_step s s' \<Longrightarrow> lc_owner s \<noteq> Terminated \<Longrightarrow> life_steps s0 s'"
  by (auto intro: rtranclp.rtrancl_into_rtrancl life_step.by_client)

text \<open>The worker is about to call \<^verbatim>\<open>accept\<close>, or waits in it.\<close>

lemma accepting: "life_steps (new_life {}) (life_at True (Some 3) Idle W_accept False {3} {} False)"
proof -
  let ?s0 = "new_life {}"
  let ?s1 = "?s0\<lparr>lc_running := True, lc_worker := W_init\<rparr>"
  let ?s2 = "?s1\<lparr>lc_worker := W_socket\<rparr>"
  have 1: "life_steps ?s0 ?s1"
    by (rule by_owner_at [OF rtranclp.rtrancl_refl owner_step.start]) (simp_all add: life_at_simps)
  have 2: "life_steps ?s0 ?s2"
    by (rule by_worker_at [OF 1 worker_step.init]) (simp_all add: life_at_simps)
  have 3: "life_steps ?s0 (life_at True None Idle W_publish False {3} {} False)"
    using by_worker_at [OF 2 worker_step.socket [of ?s2 3]] by (simp add: life_at_simps)
  have 4: "life_steps ?s0 (life_at True (Some 3) Idle W_bind False {3} {} False)"
    using by_worker_at [OF 3 worker_step.publish] by (simp add: life_at_simps)
  have 5: "life_steps ?s0 (life_at True (Some 3) Idle W_listen False {3} {} False)"
    using by_worker_at [OF 4 worker_step.bind] by (simp add: life_at_simps)
  have 6: "life_steps ?s0 (life_at True (Some 3) Idle W_loop False {3} {} False)"
    using by_worker_at [OF 5 worker_step.listen] by (simp add: life_at_simps)
  show ?thesis using by_worker_at [OF 6 worker_step.loop] by (simp add: life_at_simps)
qed

lemma waiting: "life_steps (new_life {}) (life_at True (Some 3) Idle W_blocked False {3} {} False)"
  using by_worker_at [OF accepting worker_step.accept_waits] by (simp add: life_at_simps)

text \<open>A stop up to the test of \<^verbatim>\<open>listenFd_\<close>, with the worker before or in \<^verbatim>\<open>accept\<close>.\<close>

lemma stopping:
  assumes "life_steps (new_life {}) (life_at True (Some 3) Idle w False {3} {} False)"
  shows "life_steps (new_life {}) (life_at False (Some 3) Stop_test w False {3} {} False)"
proof -
  have "life_steps (new_life {}) (life_at True (Some 3) Stop_set w False {3} {} False)"
    using by_owner_at [OF assms owner_step.stop] by (simp add: life_at_simps)
  from by_owner_at [OF this owner_step.stop_set] show ?thesis by (simp add: life_at_simps)
qed

lemma shutting: "life_steps (new_life {}) (life_at False (Some 3) Stop_close W_blocked True {3} {} False)"
  using by_owner_at [OF stopping [OF waiting] owner_step.stop_shutdown] by (simp add: life_at_simps)

lemma died: "life_steps (new_life {}) (life_at False (Some 3) Idle W_exit False {3} {} False)"
proof -
  have "life_steps (new_life {}) (life_at True (Some 3) Idle W_serve False {3} {} False)"
    using by_client_at [OF waiting client_step.client_connects] by (simp add: life_at_simps)
  from by_client_at [OF this client_step.serve_throws] show ?thesis by (simp add: life_at_simps)
qed

text \<open>Both threads have seen the descriptor and are about to close it.\<close>

lemma both_closing: "life_steps (new_life {}) (life_at False (Some 3) Stop_close W_close True {3} {} False)"
proof -
  have 1: "life_steps (new_life {}) (life_at False (Some 3) Stop_close W_failed True {3} {} False)"
    using by_worker_at [OF shutting worker_step.accept_woken] by (simp add: life_at_simps)
  have 2: "life_steps (new_life {}) (life_at False (Some 3) Stop_close W_test True {3} {} False)"
    using by_worker_at [OF 1 worker_step.accept_break] by (simp add: life_at_simps)
  show ?thesis using by_worker_at [OF 2 worker_step.test_open] by (simp add: life_at_simps)
qed

theorem stop_terminates_witness:
  "in_stop (lc_owner (life_at False (Some 3) Stop_test W_blocked False {3} {} False))
    \<and> stop_work (life_at False (Some 3) Stop_test W_blocked False {3} {} False) \<le> 14"
  using stop_terminates [OF stopping [OF waiting]] by (simp add: in_stop_def life_at_def)

theorem dead_service_stays_dead_witness:
  "life_steps (new_life {}) (life_at False (Some 3) Idle W_exit False {3} {} False)
    \<and> dead (life_at False (Some 3) Idle W_exit False {3} {} False)
    \<and> lc_listenFd (life_at False (Some 3) Idle W_exit False {3} {} False) = Some 3
    \<and> \<not> lc_running (life_at False (Some 3) Idle W_exit False {3} {} False)
    \<and> life_step (life_at False (Some 3) Idle W_exit False {3} {} False) (life_at True (Some 3) Terminated W_exit False {3} {} False)"
proof -
  let ?s = "life_at False (Some 3) Idle W_exit False {3} {} False"
  have d: "dead ?s" by (simp add: dead_def life_at_def)
  have "owner_step ?s (life_at True (Some 3) Terminated W_exit False {3} {} False)"
    using owner_step.start_over_thread [of ?s] by (simp add: life_at_simps)
  then have "life_step ?s (life_at True (Some 3) Terminated W_exit False {3} {} False)"
    by (intro life_step.by_owner) (simp add: life_at_def)
  then show ?thesis using dead_service_stays_dead [OF died d rtranclp.rtrancl_refl] died d by (simp add: life_at_def)
qed

theorem stop_restores_witness:
  "\<exists>s s'. life_steps (new_life {}) s \<and> stop_returns s s' \<and> in_stop (lc_owner s) \<and> lc_owner s' = Idle
    \<and> lc_listenFd s' = None \<and> \<not> lc_running s'"
proof -
  have 1: "life_steps (new_life {}) (life_at False (Some 3) Stop_clear W_blocked True {} {} False)"
    using by_owner_at [OF shutting owner_step.stop_close] by (simp add: life_at_simps)
  have 2: "life_steps (new_life {}) (life_at False None Stop_join W_blocked True {} {} False)"
    using by_owner_at [OF 1 owner_step.stop_clear] by (simp add: life_at_simps)
  have 3: "life_steps (new_life {}) (life_at False None Stop_join W_failed True {} {} False)"
    using by_worker_at [OF 2 worker_step.accept_woken] by (simp add: life_at_simps)
  have 4: "life_steps (new_life {}) (life_at False None Stop_join W_test True {} {} False)"
    using by_worker_at [OF 3 worker_step.accept_break] by (simp add: life_at_simps)
  have 5: "life_steps (new_life {}) (life_at False None Stop_join W_final True {} {} False)"
    using by_worker_at [OF 4 worker_step.test_closed] by (simp add: life_at_simps)
  have 6: "life_steps (new_life {}) (life_at False None Stop_join W_exit True {} {} False)"
    using by_worker_at [OF 5 worker_step.final] by (simp add: life_at_simps)
  let ?s = "life_at False None Stop_join W_exit True {} {} False" and ?t = "life_at False None Idle No_thread True {} {} False"
  have "owner_step ?s ?t" using owner_step.stop_join [of ?s] by (simp add: life_at_simps)
  then have "life_step ?s ?t" by (intro life_step.by_owner) (simp add: life_at_def)
  then have t: "stop_returns ?s ?t" "in_stop (lc_owner ?s)" by (simp_all add: stop_returns_def in_stop_def life_at_def)
  from stop_restores [OF 6 t(1)] show ?thesis using 6 t by (auto simp only: if_True simp_thms)
qed

text \<open>
  C36: \<^verbatim>\<open>listenFd_\<close> is closed by two threads without synchronisation: a run exists in which
  \<^verbatim>\<open>stop\<close> closes it, another thread of the process opens a file and gets the same number,
  and the worker, which had tested \<^verbatim>\<open>listenFd_\<close> before, closes that file.
\<close>

theorem stop_closes_foreign_file:
  "\<exists>s s'. life_steps (new_life {}) s \<and> \<not> lc_stray s \<and> 3 \<in> lc_foreign s \<and> 3 \<in> lc_fds s
    \<and> worker_step s s' \<and> 3 \<notin> lc_fds s' \<and> lc_stray s'"
proof -
  have 1: "life_steps (new_life {}) (life_at False (Some 3) Stop_clear W_close True {} {} False)"
    using by_owner_at [OF both_closing owner_step.stop_close] by (simp add: life_at_simps)
  have 2: "life_steps (new_life {}) (life_at False (Some 3) Stop_clear W_close True {3} {3} False)"
    using by_other_at [OF 1 other_step.other_open [of 3]] by (simp add: life_at_simps)
  let ?s = "life_at False (Some 3) Stop_clear W_close True {3} {3} False"
  have "worker_step ?s (life_at False (Some 3) Stop_clear W_clear True {} {} True)"
    using worker_step.close [of ?s] by (simp add: life_at_simps)
  with 2 show ?thesis by (intro exI [of _ ?s] exI [of _ "life_at False (Some 3) Stop_clear W_clear True {} {} True"])
      (simp add: life_at_def)
qed

text \<open>
  The same race can also make \<^verbatim>\<open>stop\<close> wait for ever: the worker has read \<^verbatim>\<open>running_\<close> and is about to
  call \<^verbatim>\<open>accept\<close>, \<^verbatim>\<open>stop\<close> closes the descriptor, another thread opens a listening socket that gets
  the same number, and the worker then waits for clients of that socket while \<^verbatim>\<open>stop\<close> waits for
  the worker.
\<close>

theorem stop_waits_for_foreign_socket:
  "\<exists>s. life_steps (new_life {}) s \<and> lc_owner s = Stop_join \<and> \<not> lc_running s \<and> (\<nexists>s'. owner_step s s' \<or> worker_step s s')"
proof -
  have 1: "life_steps (new_life {}) (life_at False (Some 3) Stop_close W_accept True {3} {} False)"
    using by_owner_at [OF stopping [OF accepting] owner_step.stop_shutdown] by (simp add: life_at_simps)
  have 2: "life_steps (new_life {}) (life_at False (Some 3) Stop_clear W_accept True {} {} False)"
    using by_owner_at [OF 1 owner_step.stop_close] by (simp add: life_at_simps)
  have 3: "life_steps (new_life {}) (life_at False None Stop_join W_accept True {} {} False)"
    using by_owner_at [OF 2 owner_step.stop_clear] by (simp add: life_at_simps)
  have 4: "life_steps (new_life {}) (life_at False None Stop_join W_accept True {3} {3} False)"
    using by_other_at [OF 3 other_step.other_open [of 3]] by (simp add: life_at_simps)
  have 5: "life_steps (new_life {}) (life_at False None Stop_join W_foreign True {3} {3} False)"
    using by_worker_at [OF 4 worker_step.accept_foreign] by (simp add: life_at_simps)
  let ?s = "life_at False None Stop_join W_foreign True {3} {3} False"
  have "\<not> owner_step ?s s'" "\<not> worker_step ?s s'" for s'
    by (auto elim!: owner_stepE worker_stepE simp: life_at_simps)
  then show ?thesis using 5 by (intro exI [of _ ?s]) (simp add: life_at_def)
qed

end
