(* ===== verification/Embedded_Peer.thy ===== *)
theory Embedded_Peer
  imports Peer_Lifecycle Iostream
begin

text \<open>
  The storage peer inside the graphical client: a \<^verbatim>\<open>PeerService\<close> object as its owner sees it,
  through the constructor, \<^verbatim>\<open>isRunning\<close>, \<^verbatim>\<open>start\<close>, \<^verbatim>\<open>stop\<close> and the destructor. Of the threads and
  descriptors of \<open>Peer_Lifecycle\<close> the owner can tell three phases apart, and the lemmas
  show that these phases are an abstraction of that step relation.
\<close>

text \<open>No thread; a thread and \<^verbatim>\<open>running_\<close>; a thread that an exception ended and nobody joined.\<close>

datatype service_phase = Fresh | Running | Dead

record embedded =
  em_advertiseIp :: string
  em_peerPort :: int
  em_storageDir :: string
  em_maxBytes :: u64
  em_phase :: service_phase

definition PeerService :: "string \<Rightarrow> int \<Rightarrow> string \<Rightarrow> u64 \<Rightarrow> embedded" where
  "PeerService advertiseIp peerPort storageDir maxBytes =
     \<lparr>em_advertiseIp = advertiseIp, em_peerPort = peerPort, em_storageDir = storageDir,
      em_maxBytes = maxBytes, em_phase = Fresh\<rparr>"

definition isRunning :: "embedded \<Rightarrow> bool" where
  "isRunning e \<longleftrightarrow> em_phase e = Running"

text \<open>
  \<^verbatim>\<open>start\<close>: it returns, it throws because no thread can be had, or it assigns over a thread
  object that is still joinable, which is \<^verbatim>\<open>std::terminate\<close>.
\<close>

datatype started = Returns embedded | Throws | Terminates

definition service_start :: "bool \<Rightarrow> embedded \<Rightarrow> started" where
  "service_start spawns e =
     (if isRunning e then Returns e
      else if \<not> spawns then Throws
      else if em_phase e = Dead then Terminates
      else Returns (e\<lparr>em_phase := Running\<rparr>))"

text \<open>\<^verbatim>\<open>stop\<close>, once it has returned.\<close>

definition service_stop :: "embedded \<Rightarrow> embedded" where
  "service_stop e = (if isRunning e then e\<lparr>em_phase := Fresh\<rparr> else e)"

text \<open>The destructor: destroying a joinable \<^verbatim>\<open>std::thread\<close> is \<^verbatim>\<open>std::terminate\<close>.\<close>

definition destroyable :: "embedded \<Rightarrow> bool" where
  "destroyable e \<longleftrightarrow> em_phase e = Fresh"

text \<open>An exception leaves \<^verbatim>\<open>runLoop\<close>.\<close>

definition service_dies :: "embedded \<Rightarrow> embedded" where
  "service_dies e = (if isRunning e then e\<lparr>em_phase := Dead\<rparr> else e)"

lemma stop_destroyable: "destroyable (service_stop e) \<longleftrightarrow> em_phase e \<noteq> Dead"
  by (cases "em_phase e") (simp_all add: destroyable_def service_stop_def isRunning_def)

section \<open>The object abstracts the threads\<close>

text \<open>What the owner sees: the object, a call of \<^verbatim>\<open>stop\<close> that has not returned yet, or an end.\<close>

datatype object = Object embedded | Stopping embedded | Gone | Crashed

inductive object_step :: "object \<Rightarrow> object \<Rightarrow> bool" where
  starts: "service_start True e = Returns e' \<Longrightarrow> object_step (Object e) (Object e')"
| start_terminates: "service_start True e = Terminates \<Longrightarrow> object_step (Object e) Crashed"
| stops: "isRunning e \<Longrightarrow> object_step (Object e) (Stopping e)"
| stopped: "object_step (Stopping e) (Object (service_stop e))"
| dies: "object_step (Object e) (Object (service_dies e))"
| destroyed: "destroyable e \<Longrightarrow> object_step (Object e) Gone"
| destroy_terminates: "\<not> destroyable e \<Longrightarrow> object_step (Object e) Crashed"

definition phase_of :: "life \<Rightarrow> service_phase" where
  "phase_of s = (if lc_running s then Running else if joinable s then Dead else Fresh)"

definition view :: "embedded \<Rightarrow> life \<Rightarrow> object" where
  "view e s = (case lc_owner s of
       Idle \<Rightarrow> Object (e\<lparr>em_phase := phase_of s\<rparr>)
     | Destroyed \<Rightarrow> Gone
     | Terminated \<Rightarrow> Crashed
     | _ \<Rightarrow> Stopping (e\<lparr>em_phase := Running\<rparr>))"

lemmas object_defs = isRunning_def service_start_def service_stop_def service_dies_def destroyable_def

lemma object_moves:
  "object_step (Object (e\<lparr>em_phase := Fresh\<rparr>)) (Object (e\<lparr>em_phase := Running\<rparr>))"
  "object_step (Object (e\<lparr>em_phase := Running\<rparr>)) (Stopping (e\<lparr>em_phase := Running\<rparr>))"
  "object_step (Stopping (e\<lparr>em_phase := Running\<rparr>)) (Object (e\<lparr>em_phase := Fresh\<rparr>))"
  "object_step (Object (e\<lparr>em_phase := Running\<rparr>)) (Object (e\<lparr>em_phase := Dead\<rparr>))"
  "object_step (Object (e\<lparr>em_phase := Fresh\<rparr>)) Gone"
  "object_step (Object (e\<lparr>em_phase := Running\<rparr>)) Crashed"
  "object_step (Object (e\<lparr>em_phase := Dead\<rparr>)) Crashed"
  using object_step.starts [of "e\<lparr>em_phase := Fresh\<rparr>"] object_step.stops [of "e\<lparr>em_phase := Running\<rparr>"]
    object_step.stopped [of "e\<lparr>em_phase := Running\<rparr>"] object_step.dies [of "e\<lparr>em_phase := Running\<rparr>"]
    object_step.destroyed [of "e\<lparr>em_phase := Fresh\<rparr>"] object_step.destroy_terminates
  by (simp_all add: object_defs)

lemma phase_worker:
  "worker_step s s' \<Longrightarrow> phase_of s' = phase_of s \<or> phase_of s = Running \<and> phase_of s' = Dead"
  by (induction rule: worker_step.induct) (auto simp: phase_of_def joinable_def)

lemma phase_client:
  "client_step s s' \<Longrightarrow> phase_of s' = phase_of s \<or> phase_of s = Running \<and> phase_of s' = Dead"
  by (induction rule: client_step.induct) (auto simp: phase_of_def joinable_def)

lemma phase_other: "other_step s s' \<Longrightarrow> phase_of s' = phase_of s"
  by (induction rule: other_step.induct) (auto simp: phase_of_def joinable_def)

lemma view_worker: "worker_step s s' \<Longrightarrow> view e s' = view e s \<or> object_step (view e s) (view e s')"
  using phase_worker [of s s'] worker_owner [of s s'] by (auto simp: view_def object_moves split: owner_pc.split)

lemma view_client: "client_step s s' \<Longrightarrow> view e s' = view e s \<or> object_step (view e s) (view e s')"
  using phase_client [of s s'] client_owner [of s s'] by (auto simp: view_def object_moves split: owner_pc.split)

lemma view_other: "other_step s s' \<Longrightarrow> view e s' = view e s"
  using phase_other [of s s'] other_owner [of s s'] by (simp add: view_def split: owner_pc.split)

lemma view_idle: "lc_owner s = Idle \<Longrightarrow> view e s = Object (e\<lparr>em_phase := phase_of s\<rparr>)"
  by (simp add: view_def)

lemma view_owner:
  assumes "owner_step s s'" "life_inv s" "life_inv s'"
  shows "view e s' = view e s \<or> object_step (view e s) (view e s')"
proof -
  consider "lc_owner s = Idle" | "lc_owner s = Stop_set" | "in_stop (lc_owner s)"
    using assms(1) by (cases rule: owner_step.cases) (auto simp: in_stop_def)
  then show ?thesis
  proof cases
    case 1
    with assms(1) show ?thesis
      using life_inv_idle [OF assms(2)]
      by (cases rule: owner_step.cases) (auto simp: view_def phase_of_def joinable_def object_moves)
  next
    case 2
    with assms(1) show ?thesis by (cases rule: owner_step.cases) (simp_all add: view_def)
  next
    case 3
    then have before: "view e s = Stopping (e\<lparr>em_phase := Running\<rparr>)" by (auto simp: view_def in_stop_def)
    show ?thesis
    proof (cases "in_stop (lc_owner s')")
      case True
      then show ?thesis using before by (auto simp: view_def in_stop_def)
    next
      case False
      then have idle: "lc_owner s' = Idle" "lc_worker s' = No_thread" using stop_ends [OF assms(1) 3] by auto
      then have "phase_of s' = Fresh" using life_inv_idle [OF assms(3)] by (simp add: phase_of_def joinable_def)
      then show ?thesis using before idle by (simp add: view_def object_moves)
    qed
  qed
qed

text \<open>
  C14: The object the graphical client handles is an abstraction of the threads behind it: in
  every run of the owner, the worker and the other threads of the process, each step either
  is not visible to the owner or is one of the moves of the object: \<^verbatim>\<open>start\<close> makes a fresh
  service a running one, \<^verbatim>\<open>stop\<close> a running one a fresh one, an exception a running one a dead
  one, and starting or destroying a dead one ends the process.
\<close>

theorem embedded_simulates:
  assumes "life_steps (new_life others) s" "life_step s s'"
  shows "view e s' = view e s \<or> object_step (view e s) (view e s')"
proof -
  have inv: "life_inv s" by (rule life_inv_reach [OF assms(1)])
  have inv': "life_inv s'" by (rule life_inv_step [OF assms(2) inv])
  from assms(2) show ?thesis
    using view_owner [OF _ inv inv'] view_worker view_client view_other by (cases rule: life_step.cases) blast+
qed

theorem embedded_simulates_witness:
  "object_step (view (PeerService ''h'' 1 ''p'' 0) (life_at False (Some 3) Idle W_exit False {3} {} False)) Crashed
   \<and> view (PeerService ''h'' 1 ''p'' 0) (life_at True (Some 3) Terminated W_exit False {3} {} False) = Crashed"
proof -
  let ?s = "life_at False (Some 3) Idle W_exit False {3} {} False" and ?t = "life_at True (Some 3) Terminated W_exit False {3} {} False"
  have "owner_step ?s ?t" using owner_step.start_over_thread [of ?s] by (simp add: life_at_simps)
  then have "life_step ?s ?t" by (intro life_step.by_owner) (simp add: life_at_def)
  from embedded_simulates [OF died this, of "PeerService ''h'' 1 ''p'' 0"] show ?thesis
    by (simp add: view_def life_at_def)
qed

end
