(* ===== verification/Main_Window.thy ===== *)
theory Main_Window
  imports Cli Embedded_Peer
begin

text \<open>
  The logic behind the window of the graphical client, \<^verbatim>\<open>client/main_window.cpp\<close>: settings
  that survive the program, discovery of peers through the bootstrap list, the embedded
  storage peer, and the requests that the buttons post to the worker. What
  the window shows of this is the subject of \<open>Window_Display\<close>; what a dialog or an input field
  returns is an argument, and so is every function of Qt.
\<close>

section \<open>The Qt functions the window uses\<close>

text \<open>
  \<^verbatim>\<open>QString::trimmed\<close>, \<^verbatim>\<open>split(',', Qt::SkipEmptyParts)\<close>, \<^verbatim>\<open>QStringList::join(',')\<close>,
  \<^verbatim>\<open>removeDuplicates\<close>, \<^verbatim>\<open>QString::arg\<close> with one and with two texts, and \<^verbatim>\<open>toULongLong(&ok)\<close>.
\<close>

record qt =
  qt_trimmed :: "string \<Rightarrow> string"
  qt_split :: "string \<Rightarrow> string list"
  qt_join :: "string list \<Rightarrow> string"
  qt_unique :: "string list \<Rightarrow> string list"
  qt_arg :: "string \<Rightarrow> string \<Rightarrow> string"
  qt_arg2 :: "string \<Rightarrow> string \<Rightarrow> string \<Rightarrow> string"
  qt_ulonglong :: "string \<Rightarrow> u64 option"

text \<open>Whether \<^verbatim>\<open>connectToHost\<close> to a host and port succeeds within the time limit.\<close>

type_synonym reach = "string \<Rightarrow> 16 word \<Rightarrow> bool"

section \<open>State\<close>

text \<open>
  The keys of \<^verbatim>\<open>QSettings\<close>, each absent or holding a value of the type the program writes:
  \<^verbatim>\<open>peer/settings_initialized\<close>, \<^verbatim>\<open>peer/enabled\<close>, \<^verbatim>\<open>peer/max_bytes\<close>, \<^verbatim>\<open>peer/port\<close>, \<^verbatim>\<open>peer/storage_dir\<close>,
  \<^verbatim>\<open>paths/local_manifest_dir\<close>, \<^verbatim>\<open>network/bootstrap_seeds\<close>, \<^verbatim>\<open>network/advertise_ip\<close>.
\<close>

record settings =
  se_initialized :: "bool option"
  se_enabled :: "bool option"
  se_maxBytes :: "u64 option"
  se_port :: "int option"
  se_storageDir :: "string option"
  se_manifestDir :: "string option"
  se_seeds :: "string option"
  se_advertiseIp :: "string option"

text \<open>\<^verbatim>\<open>settings.value(key, default)\<close>\<close>

definition setting :: "'a option \<Rightarrow> 'a \<Rightarrow> 'a" where
  "setting v dflt = (case v of None \<Rightarrow> dflt | Some x \<Rightarrow> x)"

text \<open>The slots of the worker that the window invokes, with their arguments.\<close>

datatype request =
    Put_request string string string u64 int string
  | Get_request string string string string
  | Repair_request string int int

text \<open>The members of \<^verbatim>\<open>MainWindow\<close> that are not widgets, the rows of its two tables, and what it did.\<close>

record gui =
  g_settings :: settings
  g_disk :: disk
  g_csv :: string
  g_bootstrap :: "string list"
  g_enabled :: bool
  g_maxBytes :: u64
  g_port :: int
  g_storageDir :: string
  g_peer :: "embedded option"
  g_advertiseIp :: string
  g_manifestDir :: string
  g_files :: "(string \<times> string \<times> string) list"
  g_peers :: "(string \<times> string \<times> string) list"
  g_busy :: bool
  g_posted :: "request list"
  g_warned :: "string list"

text \<open>The members before the constructor runs.\<close>

definition blank_gui :: "settings \<Rightarrow> disk \<Rightarrow> gui" where
  "blank_gui se d = \<lparr>g_settings = se, g_disk = d, g_csv = [], g_bootstrap = [], g_enabled = True, g_maxBytes = 0,
     g_port = 9101, g_storageDir = [], g_peer = None, g_advertiseIp = ''127.0.0.1'', g_manifestDir = [],
     g_files = [], g_peers = [], g_busy = False, g_posted = [], g_warned = []\<rparr>"

definition warn :: "string \<Rightarrow> gui \<Rightarrow> gui" where
  "warn text g = g\<lparr>g_warned := g_warned g @ [text]\<rparr>"

section \<open>Settings\<close>

definition default_seeds :: string where
  "default_seeds = ''127.0.0.1:9101,127.0.0.1:9102,127.0.0.1:9103''"

definition loadBootstrapSeedsFromSettings :: "qt \<Rightarrow> gui \<Rightarrow> gui" where
  "loadBootstrapSeedsFromSettings q g =
     (let seeds = setting (se_seeds (g_settings g)) default_seeds;
          nodes = filter (\<lambda>t. t \<noteq> []) (map (qt_trimmed q) (qt_split q seeds)) in
      g\<lparr>g_bootstrap := (if nodes = [] then map (qt_trimmed q) (qt_split q default_seeds) else nodes)\<rparr>)"

text \<open>The answers to the dialogs of the first run and the writable location of the application.\<close>

record first_run =
  fr_yes :: bool
  fr_gib :: int
  fr_port :: int
  fr_appData :: string

definition gib_bytes :: "int \<Rightarrow> u64" where
  "gib_bytes gib = of_int gib * 1024 * 1024 * 1024"

definition app_data :: "first_run \<Rightarrow> string" where
  "app_data a = (if fr_appData a = [] then ''.'' else fr_appData a)"

definition prompt_settings :: "first_run \<Rightarrow> gui \<Rightarrow> gui" where
  "prompt_settings a g =
     (let g1 = g\<lparr>g_enabled := fr_yes a, g_maxBytes := gib_bytes (fr_gib a), g_port := fr_port a,
                 g_storageDir := app_data a @ ''/peer-storage'', g_manifestDir := app_data a @ ''/manifests''\<rparr>;
          se = g_settings g in
      g1\<lparr>g_settings := se\<lparr>se_manifestDir := Some (g_manifestDir g1), se_initialized := Some True,
          se_enabled := Some (g_enabled g1), se_maxBytes := Some (g_maxBytes g1), se_port := Some (g_port g1),
          se_storageDir := Some (g_storageDir g1),
          se_seeds := (if se_seeds se = None then Some default_seeds else se_seeds se),
          se_advertiseIp := (if se_advertiseIp se = None then Some ''127.0.0.1'' else se_advertiseIp se)\<rparr>\<rparr>)"

definition read_settings :: "qt \<Rightarrow> first_run \<Rightarrow> gui \<Rightarrow> gui" where
  "read_settings q a g =
     (let se = g_settings g;
          dir = setting (se_storageDir se) [];
          dflt = app_data a @ ''/manifests'';
          mdir = qt_trimmed q (setting (se_manifestDir se) dflt) in
      g\<lparr>g_enabled := setting (se_enabled se) True,
        g_maxBytes := setting (se_maxBytes se) (5 * 1024 * 1024 * 1024),
        g_port := setting (se_port se) 9101,
        g_storageDir := (if dir = [] then app_data a @ ''/peer-storage'' else dir),
        g_manifestDir := (if mdir = [] then dflt else mdir)\<rparr>)"

definition loadOrPromptPeerSettings :: "qt \<Rightarrow> first_run \<Rightarrow> gui \<Rightarrow> gui" where
  "loadOrPromptPeerSettings q a g =
     (let g1 = (if \<not> setting (se_initialized (g_settings g)) False then prompt_settings a g else read_settings q a g);
          g2 = loadBootstrapSeedsFromSettings q g1;
          adv = qt_trimmed q (setting (se_advertiseIp (g_settings g2)) ''127.0.0.1'');
          g3 = g2\<lparr>g_advertiseIp := (if adv = [] then ''127.0.0.1'' else adv)\<rparr> in
      g3\<lparr>g_disk := snd (create_directories (g_disk g3) (g_manifestDir g3))\<rparr>)"

text \<open>What the settings tab shows for the storage cap: whole GiB, between 1 and 1024.\<close>

definition shown_gib :: "u64 \<Rightarrow> int" where
  "shown_gib maxBytes =
     (let gib = maxBytes div (1024 * 1024 * 1024);
          gib1 = (if gib < 1 then 1 else gib);
          gib2 = (if gib1 > 1024 then 1024 else gib1) in
      sint (ucast gib2 :: 32 word))"

text \<open>The fields of the settings tab.\<close>

record form =
  fm_manifestDir :: string
  fm_enabled :: bool
  fm_port :: int
  fm_gib :: int
  fm_storageDir :: string

definition syncPeerSettingsToUi :: "gui \<Rightarrow> form" where
  "syncPeerSettingsToUi g =
     \<lparr>fm_manifestDir = g_manifestDir g, fm_enabled = g_enabled g, fm_port = g_port g,
      fm_gib = shown_gib (g_maxBytes g), fm_storageDir = g_storageDir g\<rparr>"

section \<open>The embedded peer\<close>

definition hadRunning :: "gui \<Rightarrow> bool" where
  "hadRunning g \<longleftrightarrow> (case g_peer g of None \<Rightarrow> False | Some e \<Rightarrow> isRunning e)"

text \<open>Dropping the object that \<^verbatim>\<open>embeddedPeerService_\<close> holds; \<open>None\<close> is \<^verbatim>\<open>std::terminate\<close>.\<close>

definition drop_peer :: "gui \<Rightarrow> gui option" where
  "drop_peer g = (if (\<exists>e \<in> set_option (g_peer g). \<not> destroyable e) then None else Some (g\<lparr>g_peer := None\<rparr>))"

definition startEmbeddedPeerIfEnabled :: "bool \<Rightarrow> gui \<Rightarrow> gui option" where
  "startEmbeddedPeerIfEnabled spawns g =
     (if \<not> g_enabled g then Some g
      else if hadRunning g then Some g
      else if g_storageDir g = [] then Some g
      else let g1 = g\<lparr>g_disk := snd (create_directories (g_disk g) (g_storageDir g))\<rparr> in
        (case drop_peer g1 of
           None \<Rightarrow> None
         | Some g2 \<Rightarrow>
            (case service_start spawns (PeerService (g_advertiseIp g) (g_port g) (g_storageDir g) (g_maxBytes g)) of
               Returns e \<Rightarrow> Some (g2\<lparr>g_peer := Some e\<rparr>)
             | Throws \<Rightarrow> Some g2
             | Terminates \<Rightarrow> None)))"

definition stopEmbeddedPeer :: "gui \<Rightarrow> gui option" where
  "stopEmbeddedPeer g =
     (case g_peer g of
        None \<Rightarrow> Some g
      | Some e \<Rightarrow> drop_peer (g\<lparr>g_peer := Some (service_stop e)\<rparr>))"

text \<open>The end of both Apply handlers: restart the peer.\<close>

definition restart_peer :: "bool \<Rightarrow> gui \<Rightarrow> gui option" where
  "restart_peer spawns g =
     (case (if hadRunning g then stopEmbeddedPeer g else Some g) of
        None \<Rightarrow> None
      | Some g1 \<Rightarrow> startEmbeddedPeerIfEnabled spawns g1)"

section \<open>Discovery\<close>

fun probe :: "qt \<Rightarrow> reach \<Rightarrow> string list \<Rightarrow> string list" where
  "probe q reach [] = []"
| "probe q reach (raw # rest) =
     (let peerStr = qt_trimmed q raw in
      if peerStr = [] then probe q reach rest
      else case parse_peer_entry peerStr of
        Inl _ \<Rightarrow> probe q reach rest
      | Inr ep \<Rightarrow>
          if port ep \<le> 0 then probe q reach rest
          else if reach (ip ep) (word_of_int (port ep))
            then qt_arg q (qt_arg q ''%1:%2'' (ip ep)) (show_int (port ep)) # probe q reach rest
            else probe q reach rest)"

definition discoverPeersFromBootstrap :: "qt \<Rightarrow> reach \<Rightarrow> gui \<Rightarrow> gui" where
  "discoverPeersFromBootstrap q reach g =
     (let merged = probe q reach (g_bootstrap g);
          local = qt_arg2 q ''%1:%2'' (g_advertiseIp g) (show_int (g_port g));
          merged1 = (if g_enabled g \<and> hadRunning g \<and> local \<notin> set merged then merged @ [local] else merged) in
      g\<lparr>g_csv := qt_join q (qt_unique q merged1)\<rparr>)"

definition trackerIp :: "qt \<Rightarrow> gui \<Rightarrow> string" where
  "trackerIp q g = qt_trimmed q (g_csv g)"

text \<open>One row of the peer monitor per entry that parses: address, status, eight digits of the node id.\<close>

fun monitor_rows :: "qt \<Rightarrow> (bytes \<Rightarrow> octet list) \<Rightarrow> reach \<Rightarrow> string list \<Rightarrow> (string \<times> string \<times> string) list result" where
  "monitor_rows q sha256 reach [] = Inr []"
| "monitor_rows q sha256 reach (part # parts) =
     (let peerStr = qt_trimmed q part in
      if peerStr = [] then monitor_rows q sha256 reach parts
      else case parse_peer_entry peerStr of
        Inl _ \<Rightarrow> monitor_rows q sha256 reach parts
      | Inr ep \<Rightarrow>
          bindR (makeNodeId sha256 ep) (\<lambda>i.
          bindR (monitor_rows q sha256 reach parts) (\<lambda>rows.
          Inr ((qt_arg q (qt_arg q ''%1:%2'' (ip ep)) (show_int (port ep)),
                if reach (ip ep) (word_of_int (port ep)) then ''Online'' else ''Offline'',
                take 8 (toHex i)) # rows))))"

definition refreshPeerMonitor :: "qt \<Rightarrow> (bytes \<Rightarrow> octet list) \<Rightarrow> reach \<Rightarrow> gui \<Rightarrow> gui result" where
  "refreshPeerMonitor q sha256 reach g =
     (let g1 = discoverPeersFromBootstrap q reach g in
      bindR (monitor_rows q sha256 reach (qt_split q (trackerIp q g1))) (\<lambda>rows.
      Inr (g1\<lparr>g_peers := rows\<rparr>)))"

section \<open>Apply\<close>

definition onApplySettingsClicked :: "qt \<Rightarrow> reach \<Rightarrow> bool \<Rightarrow> form \<Rightarrow> gui \<Rightarrow> gui option" where
  "onApplySettingsClicked q reach spawns f g =
     (let manifestDir = qt_trimmed q (fm_manifestDir f) in
      if manifestDir = [] then Some (warn ''Manifest directory cannot be empty.'' g)
      else case create_directories (g_disk g) manifestDir of (made, d1) \<Rightarrow>
        if \<not> made then Some (warn ''Cannot create manifest directory'' (g\<lparr>g_disk := d1\<rparr>))
        else let dir = qt_trimmed q (fm_storageDir f) in
          if dir = [] then Some (warn ''Storage directory cannot be empty.'' (g\<lparr>g_disk := d1\<rparr>))
          else let g1 = g\<lparr>g_disk := d1, g_manifestDir := manifestDir, g_enabled := fm_enabled f, g_port := fm_port f,
                 g_maxBytes := gib_bytes (fm_gib f), g_storageDir := dir,
                 g_settings := (g_settings g)\<lparr>se_manifestDir := Some manifestDir, se_enabled := Some (fm_enabled f),
                   se_port := Some (fm_port f), se_maxBytes := Some (gib_bytes (fm_gib f)), se_storageDir := Some dir\<rparr>\<rparr> in
            map_option (discoverPeersFromBootstrap q reach) (restart_peer spawns g1))"

definition onApplyNetworkSettingsClicked :: "qt \<Rightarrow> reach \<Rightarrow> bool \<Rightarrow> string \<Rightarrow> string \<Rightarrow> gui \<Rightarrow> gui option" where
  "onApplyNetworkSettingsClicked q reach spawns advertiseIpEdit bootstrapSeedsEdit g =
     (let adv = qt_trimmed q advertiseIpEdit in
      if adv = [] then Some (warn ''Advertise address cannot be empty.'' g)
      else let seeds0 = qt_trimmed q bootstrapSeedsEdit;
               seeds = (if seeds0 = [] then default_seeds else seeds0);
               g1 = g\<lparr>g_settings := (g_settings g)\<lparr>se_seeds := Some seeds, se_advertiseIp := Some adv\<rparr>, g_advertiseIp := adv\<rparr> in
        map_option (discoverPeersFromBootstrap q reach) (restart_peer spawns (loadBootstrapSeedsFromSettings q g1)))"

section \<open>Opening and closing the window\<close>

definition MainWindow :: "qt \<Rightarrow> first_run \<Rightarrow> reach \<Rightarrow> bool \<Rightarrow> settings \<Rightarrow> disk \<Rightarrow> gui option" where
  "MainWindow q a reach spawns se d =
     map_option (discoverPeersFromBootstrap q reach)
       (startEmbeddedPeerIfEnabled spawns (loadOrPromptPeerSettings q a (blank_gui se d)))"

text \<open>The destructor stops the peer, then the members are destroyed.\<close>

definition close_window :: "gui \<Rightarrow> gui option" where
  "close_window g = (case stopEmbeddedPeer g of None \<Rightarrow> None | Some g1 \<Rightarrow> drop_peer g1)"

section \<open>Requests and answers\<close>

definition no_peers_text :: string where
  "no_peers_text = ''No peers discovered. Start at least one bootstrap node.''"

definition onPutClicked :: "qt \<Rightarrow> string \<Rightarrow> string \<Rightarrow> int \<Rightarrow> string \<Rightarrow> gui \<Rightarrow> gui" where
  "onPutClicked q fileEdit chunkEdit replicas rsaEdit g =
     (if trackerIp q g = [] then warn no_peers_text g
      else let path = qt_trimmed q fileEdit in
        if path = [] then warn ''Enter file path.'' g
        else let chunkStr = qt_trimmed q chunkEdit;
                 chunkSize = (if chunkStr = [] then 1024 * 1024
                   else case qt_ulonglong q chunkStr of None \<Rightarrow> 1024 * 1024
                     | Some n \<Rightarrow> if n = 0 then 1024 * 1024 else n) in
          g\<lparr>g_busy := True, g_posted := g_posted g @
             [Put_request (trackerIp q g) path (g_manifestDir g) chunkSize replicas (qt_trimmed q rsaEdit)]\<rparr>)"

definition onGetClicked :: "qt \<Rightarrow> string \<Rightarrow> string \<Rightarrow> string \<Rightarrow> gui \<Rightarrow> gui" where
  "onGetClicked q manifestEdit outputEdit rsaEdit g =
     (if trackerIp q g = [] then warn no_peers_text g
      else let manifest = qt_trimmed q manifestEdit; output = qt_trimmed q outputEdit in
        if manifest = [] \<or> output = [] then warn ''Enter share ID (or manifest path) and output path.'' g
        else g\<lparr>g_busy := True, g_posted := g_posted g @
             [Get_request (trackerIp q g) manifest output (qt_trimmed q rsaEdit)]\<rparr>)"

definition onRepairClicked :: "qt \<Rightarrow> int \<Rightarrow> int \<Rightarrow> gui \<Rightarrow> gui" where
  "onRepairClicked q replicas batch g =
     (if trackerIp q g = [] then warn no_peers_text g
      else g\<lparr>g_busy := True, g_posted := g_posted g @ [Repair_request (trackerIp q g) replicas batch]\<rparr>)"

text \<open>The file name the save dialog starts with: the share id without prefix and suffix.\<close>

definition suggested_name :: "string \<Rightarrow> string" where
  "suggested_name shareId =
     (let s1 = (if starts_with shareId ''dss://file/'' then drop (length ''dss://file/'') shareId else shareId);
          suffix = ''.manifest.txt'' in
      if length s1 \<ge> length suffix \<and> drop (length s1 - length suffix) s1 = suffix
      then take (length s1 - length suffix) s1 else s1)"

definition onDownloadButtonClicked :: "qt \<Rightarrow> string \<Rightarrow> (string \<Rightarrow> string) \<Rightarrow> string \<Rightarrow> gui \<Rightarrow> gui" where
  "onDownloadButtonClicked q shareId saveDialog rsaEdit g =
     (if shareId = [] then g
      else if trackerIp q g = [] then warn no_peers_text g
      else let output = saveDialog (suggested_name shareId) in
        if output = [] then g
        else g\<lparr>g_busy := True, g_posted := g_posted g @
             [Get_request (trackerIp q g) shareId output (qt_trimmed q rsaEdit)]\<rparr>)"

text \<open>The row of a finished upload: share id, name and size from the local manifest.\<close>

definition file_row :: "disk \<Rightarrow> string \<Rightarrow> string \<Rightarrow> string \<times> string \<times> string" where
  "file_row d shareId localManifestPath =
     (if fs_exists d localManifestPath
      then (case readManifest d localManifestPath of
              Inl _ \<Rightarrow> (shareId, ''(unknown)'', ''-'')
            | Inr m \<Rightarrow> (shareId, mf_originalName m, show_u64 (mf_originalSize m)))
      else (shareId, ''(unknown)'', ''-''))"

definition onPutFinished :: "string \<Rightarrow> string \<Rightarrow> gui \<Rightarrow> gui" where
  "onPutFinished shareId localManifestPath g =
     g\<lparr>g_busy := False, g_files := g_files g @ [file_row (g_disk g) shareId localManifestPath]\<rparr>"

definition onGetFinished :: "string \<Rightarrow> gui \<Rightarrow> gui" where
  "onGetFinished outputPath g = g\<lparr>g_busy := False\<rparr>"

definition onError :: "string \<Rightarrow> gui \<Rightarrow> gui" where
  "onError message g = warn message (g\<lparr>g_busy := False\<rparr>)"

text \<open>The connections of the constructor; progress moves the progress bar only, and \<^verbatim>\<open>repairFinished\<close> is never emitted.\<close>

fun on_signal :: "signal \<Rightarrow> gui \<Rightarrow> gui" where
  "on_signal (Progress_signal done tot message) g = g"
| "on_signal (Put_finished shareId localManifestPath) g = onPutFinished shareId localManifestPath g"
| "on_signal (Get_finished outputPath) g = onGetFinished outputPath g"
| "on_signal (Error_signal message) g = onError message g"

end
