(* ===== verification/Window_Session.thy ===== *)
theory Window_Session
  imports Main_Window
begin

text \<open>
  Sessions of the graphical client: the constructor of the window, any sequence of events,
  and a later session on the settings the first one left. Shown are the well-formedness that
  every session keeps, that settings survive, and when the embedded peer takes the whole
  process down.
\<close>

section \<open>What Qt documents\<close>

text \<open>A text with no white space at its ends: its first and last characters are printable ASCII.\<close>

definition visible :: "char \<Rightarrow> bool" where
  "visible c \<longleftrightarrow> 33 \<le> (of_char c :: nat) \<and> (of_char c :: nat) \<le> 126"

definition visible_ends :: "string \<Rightarrow> bool" where
  "visible_ends s \<longleftrightarrow> s = [] \<or> visible (hd s) \<and> visible (last s)"

fun joined :: "string list \<Rightarrow> string" where
  "joined [] = []"
| "joined [x] = x"
| "joined (x # y # xs) = x @ CHR '','' # joined (y # xs)"

text \<open>
  \<^verbatim>\<open>trimmed\<close> removes white space at the ends; \<^verbatim>\<open>join\<close> puts commas between; \<^verbatim>\<open>split\<close> cuts at
  commas and skips empty parts; \<^verbatim>\<open>removeDuplicates\<close> leaves each text once; \<^verbatim>\<open>arg\<close> with one text
  replaces the lowest numbered place, also one that an earlier \<^verbatim>\<open>arg\<close> brought in.
\<close>

definition qt_documented :: "qt \<Rightarrow> bool" where
  "qt_documented q \<longleftrightarrow>
     (\<forall>s. visible_ends s \<longrightarrow> qt_trimmed q s = s)
   \<and> (\<forall>s. qt_trimmed q (qt_trimmed q s) = qt_trimmed q s)
   \<and> (\<forall>xs. qt_join q xs = joined xs)
   \<and> (\<forall>xs. (\<forall>x \<in> set xs. x \<noteq> [] \<and> CHR '','' \<notin> set x) \<longrightarrow> qt_split q (joined xs) = xs)
   \<and> (\<forall>xs. distinct (qt_unique q xs) \<and> set (qt_unique q xs) = set xs)
   \<and> (\<forall>h p. CHR ''%'' \<notin> set h \<longrightarrow> qt_arg q (qt_arg q ''%1:%2'' h) p = h @ CHR '':'' # p)
   \<and> (\<forall>h p. qt_arg2 q ''%1:%2'' h p = h @ CHR '':'' # p)"

lemma qt_laws:
  assumes "qt_documented q"
  shows "visible_ends s \<Longrightarrow> qt_trimmed q s = s" "qt_trimmed q (qt_trimmed q s) = qt_trimmed q s"
    "qt_join q xs = joined xs" "\<forall>x \<in> set xs. x \<noteq> [] \<and> CHR '','' \<notin> set x \<Longrightarrow> qt_split q (joined xs) = xs"
    "distinct (qt_unique q xs)" "set (qt_unique q xs) = set xs"
    "CHR ''%'' \<notin> set h \<Longrightarrow> qt_arg q (qt_arg q ''%1:%2'' h) p = h @ CHR '':'' # p"
    "qt_arg2 q ''%1:%2'' h p = h @ CHR '':'' # p"
  using assms by (simp_all add: qt_documented_def)

section \<open>Events\<close>

datatype gui_event =
    Apply reach bool form
  | Apply_network reach bool string string
  | Refresh reach
  | Put_click string string int string
  | Get_click string string string
  | Repair_click int int
  | Download_click string "string \<Rightarrow> string" string
  | Worker_signal signal
  | Peer_dies

text \<open>One event; \<open>None\<close>: the process is terminated. An exception that leaves a slot does that too.\<close>

fun gui_step :: "qt \<Rightarrow> (bytes \<Rightarrow> octet list) \<Rightarrow> gui_event \<Rightarrow> gui \<Rightarrow> gui option" where
  "gui_step q sha256 (Apply reach spawns f) g = onApplySettingsClicked q reach spawns f g"
| "gui_step q sha256 (Apply_network reach spawns adv seeds) g = onApplyNetworkSettingsClicked q reach spawns adv seeds g"
| "gui_step q sha256 (Refresh reach) g = (case refreshPeerMonitor q sha256 reach g of Inl _ \<Rightarrow> None | Inr g' \<Rightarrow> Some g')"
| "gui_step q sha256 (Put_click path chunk replicas rsa) g = Some (onPutClicked q path chunk replicas rsa g)"
| "gui_step q sha256 (Get_click manifest out rsa) g = Some (onGetClicked q manifest out rsa g)"
| "gui_step q sha256 (Repair_click replicas batch) g = Some (onRepairClicked q replicas batch g)"
| "gui_step q sha256 (Download_click shareId dialog rsa) g = Some (onDownloadButtonClicked q shareId dialog rsa g)"
| "gui_step q sha256 (Worker_signal sg) g = Some (on_signal sg g)"
| "gui_step q sha256 Peer_dies g = Some (g\<lparr>g_peer := map_option service_dies (g_peer g)\<rparr>)"

fun gui_run :: "qt \<Rightarrow> (bytes \<Rightarrow> octet list) \<Rightarrow> gui_event list \<Rightarrow> gui \<Rightarrow> gui option" where
  "gui_run q sha256 [] g = Some g"
| "gui_run q sha256 (e # es) g = (case gui_step q sha256 e g of None \<Rightarrow> None | Some g' \<Rightarrow> gui_run q sha256 es g')"

text \<open>The ranges of the number fields: ports 1024 to 65535, caps 1 to 1024 GiB.\<close>

definition port_ok :: "int \<Rightarrow> bool" where
  "port_ok p \<longleftrightarrow> 1024 \<le> p \<and> p \<le> 65535"

definition cap_ok :: "u64 \<Rightarrow> bool" where
  "cap_ok n \<longleftrightarrow> (\<exists>gib. 1 \<le> gib \<and> gib \<le> 1024 \<and> n = gib_bytes gib)"

fun fields_ok :: "gui_event \<Rightarrow> bool" where
  "fields_ok (Apply reach spawns f) \<longleftrightarrow> port_ok (fm_port f) \<and> 1 \<le> fm_gib f \<and> fm_gib f \<le> 1024"
| "fields_ok _ \<longleftrightarrow> True"

section \<open>Well-formed windows\<close>

text \<open>Settings as the program writes them.\<close>

definition app_settings :: "qt \<Rightarrow> settings \<Rightarrow> bool" where
  "app_settings q se \<longleftrightarrow> se_initialized se = Some True \<and> se_enabled se \<noteq> None
     \<and> (\<exists>n. se_maxBytes se = Some n \<and> cap_ok n) \<and> (\<exists>p. se_port se = Some p \<and> port_ok p)
     \<and> (\<exists>d. se_storageDir se = Some d \<and> d \<noteq> [])
     \<and> (\<exists>m. se_manifestDir se = Some m \<and> m \<noteq> [] \<and> qt_trimmed q m = m)"

definition stored_address :: "qt \<Rightarrow> settings \<Rightarrow> string" where
  "stored_address q se = (let adv = qt_trimmed q (setting (se_advertiseIp se) ''127.0.0.1'') in
     if adv = [] then ''127.0.0.1'' else adv)"

definition stored_seeds :: "qt \<Rightarrow> settings \<Rightarrow> string list" where
  "stored_seeds q se =
     (let nodes = filter (\<lambda>t. t \<noteq> []) (map (qt_trimmed q) (qt_split q (setting (se_seeds se) default_seeds))) in
      if nodes = [] then map (qt_trimmed q) (qt_split q default_seeds) else nodes)"

text \<open>The configuration in the members, and as it stands in the settings.\<close>

record config =
  co_enabled :: bool
  co_maxBytes :: u64
  co_port :: int
  co_storageDir :: string
  co_manifestDir :: string
  co_advertiseIp :: string
  co_bootstrap :: "string list"

definition config_of :: "gui \<Rightarrow> config" where
  "config_of g = \<lparr>co_enabled = g_enabled g, co_maxBytes = g_maxBytes g, co_port = g_port g, co_storageDir = g_storageDir g,
     co_manifestDir = g_manifestDir g, co_advertiseIp = g_advertiseIp g, co_bootstrap = g_bootstrap g\<rparr>"

definition stored_config :: "qt \<Rightarrow> settings \<Rightarrow> config" where
  "stored_config q se = \<lparr>co_enabled = the (se_enabled se), co_maxBytes = the (se_maxBytes se), co_port = the (se_port se),
     co_storageDir = the (se_storageDir se), co_manifestDir = the (se_manifestDir se),
     co_advertiseIp = stored_address q se, co_bootstrap = stored_seeds q se\<rparr>"

text \<open>An embedded peer has been started, on a port that fits, under a byte limit and in a directory.\<close>

definition peer_wf :: "embedded \<Rightarrow> bool" where
  "peer_wf e \<longleftrightarrow> em_phase e \<noteq> Fresh \<and> port_ok (em_peerPort e) \<and> cap_ok (em_maxBytes e) \<and> em_storageDir e \<noteq> []"

definition gui_wf :: "qt \<Rightarrow> gui \<Rightarrow> bool" where
  "gui_wf q g \<longleftrightarrow> app_settings q (g_settings g) \<and> config_of g = stored_config q (g_settings g)
     \<and> (\<forall>e. g_peer g = Some e \<longrightarrow> peer_wf e)"

lemmas config_defs = config_of_def stored_config_def

lemma gui_wfD:
  assumes "gui_wf q g"
  shows "port_ok (g_port g)" "cap_ok (g_maxBytes g)" "g_storageDir g \<noteq> []" "g_manifestDir g \<noteq> []"
    "g_enabled g = the (se_enabled (g_settings g))" "g_advertiseIp g = stored_address q (g_settings g)"
    "g_bootstrap g = stored_seeds q (g_settings g)" "app_settings q (g_settings g)"
  using assms by (auto simp: gui_wf_def app_settings_def config_defs)

text \<open>Whether a step leaves the configuration, the settings and the peer alone.\<close>

definition same_setup :: "gui \<Rightarrow> gui \<Rightarrow> bool" where
  "same_setup g g' \<longleftrightarrow> g_settings g' = g_settings g \<and> config_of g' = config_of g \<and> g_peer g' = g_peer g"

lemma same_setup_refl [simp]: "same_setup g g"
  by (simp add: same_setup_def)

lemma gui_wf_same: "same_setup g g' \<Longrightarrow> gui_wf q g' = gui_wf q g"
  by (simp add: same_setup_def gui_wf_def)

lemma same_setup_updates [simp]:
  "same_setup g (g\<lparr>g_csv := a\<rparr>)" "same_setup g (g\<lparr>g_peers := b\<rparr>)" "same_setup g (g\<lparr>g_disk := c\<rparr>)"
  "same_setup g (g\<lparr>g_busy := d, g_posted := e\<rparr>)" "same_setup g (g\<lparr>g_busy := d, g_files := f\<rparr>)"
  "same_setup g (g\<lparr>g_busy := d\<rparr>)" "same_setup g (warn w g)" "same_setup g (warn w (g\<lparr>g_busy := d\<rparr>))"
  "same_setup g (warn w (g\<lparr>g_disk := c\<rparr>))"
  by (simp_all add: same_setup_def config_of_def warn_def)

lemma same_setup_discover [simp]: "same_setup g (discoverPeersFromBootstrap q reach g)"
  by (simp add: discoverPeersFromBootstrap_def Let_def)

lemma same_setup_clicks [simp]:
  "same_setup g (onPutClicked q path chunk replicas rsa g)" "same_setup g (onGetClicked q m out rsa g)"
  "same_setup g (onRepairClicked q replicas batch g)" "same_setup g (onDownloadButtonClicked q shareId dialog rsa g)"
  "same_setup g (on_signal sg g)"
  by (auto simp: onPutClicked_def onGetClicked_def onRepairClicked_def onDownloadButtonClicked_def Let_def)
    (cases sg; simp add: onPutFinished_def onGetFinished_def onError_def)

section \<open>The embedded peer restarts, or ends the process\<close>

definition dead_peer :: "gui \<Rightarrow> bool" where
  "dead_peer g \<longleftrightarrow> (\<exists>e. g_peer g = Some e \<and> em_phase e = Dead)"

lemma drop_peer_None: "drop_peer g = None \<longleftrightarrow> (\<exists>e. g_peer g = Some e \<and> em_phase e \<noteq> Fresh)"
  by (cases "g_peer g") (auto simp: drop_peer_def destroyable_def)

lemma drop_peer_Some: "drop_peer g = Some g' \<Longrightarrow> g' = g\<lparr>g_peer := None\<rparr>"
  by (simp add: drop_peer_def split: if_splits)

lemma stop_peer_None: "stopEmbeddedPeer g = None \<longleftrightarrow> dead_peer g"
  using stop_destroyable
  by (auto simp: stopEmbeddedPeer_def dead_peer_def drop_peer_None destroyable_def split: option.splits)

lemma stop_peer_Some: "stopEmbeddedPeer g = Some g' \<Longrightarrow> g' = g\<lparr>g_peer := None\<rparr>"
  by (auto simp: stopEmbeddedPeer_def dest: drop_peer_Some split: option.splits)

definition started_peer :: "gui \<Rightarrow> embedded" where
  "started_peer g = (PeerService (g_advertiseIp g) (g_port g) (g_storageDir g) (g_maxBytes g))\<lparr>em_phase := Running\<rparr>"

lemma started_peer_start:
  "service_start spawns (PeerService (g_advertiseIp g) (g_port g) (g_storageDir g) (g_maxBytes g))
   = (if spawns then Returns (started_peer g) else Throws)"
  by (simp add: service_start_def isRunning_def PeerService_def started_peer_def)

lemma start_peer_None:
  "startEmbeddedPeerIfEnabled spawns g = None \<longleftrightarrow> g_enabled g \<and> g_storageDir g \<noteq> [] \<and> dead_peer g"
proof -
  have "hadRunning g \<or> drop_peer (g\<lparr>g_disk := d\<rparr>) = None \<longleftrightarrow> hadRunning g \<or> dead_peer g" for d
    by (cases "g_peer g"; cases "em_phase (the (g_peer g))")
      (auto simp: drop_peer_None dead_peer_def hadRunning_def isRunning_def)
  moreover have "dead_peer g \<Longrightarrow> \<not> hadRunning g" by (auto simp: dead_peer_def hadRunning_def isRunning_def)
  ultimately show ?thesis
    by (auto simp: startEmbeddedPeerIfEnabled_def started_peer_start Let_def split: option.splits)
qed

lemma start_peer_Some:
  "startEmbeddedPeerIfEnabled spawns g = Some g' \<Longrightarrow> g_settings g' = g_settings g \<and> config_of g' = config_of g
    \<and> (g_peer g' = g_peer g \<or> g_peer g' = None \<or> g_peer g' = Some (started_peer g))"
  by (auto simp: startEmbeddedPeerIfEnabled_def started_peer_start config_of_def Let_def dest!: drop_peer_Some
      split: if_splits option.splits)

lemma restart_peer_None:
  "restart_peer spawns g = None \<longleftrightarrow> g_enabled g \<and> g_storageDir g \<noteq> [] \<and> dead_peer g"
proof (cases "hadRunning g")
  case True
  then have alive: "\<not> dead_peer g" by (auto simp: hadRunning_def isRunning_def dead_peer_def split: option.splits)
  then obtain g1 where g1: "stopEmbeddedPeer g = Some g1" using stop_peer_None [of g] by (cases "stopEmbeddedPeer g") auto
  then have "\<not> dead_peer g1" using stop_peer_Some [OF g1] by (simp add: dead_peer_def)
  then show ?thesis using True g1 alive by (simp add: restart_peer_def start_peer_None)
qed (simp add: restart_peer_def start_peer_None)

lemma restart_peer_Some:
  assumes "restart_peer spawns g = Some g'"
  shows "g_settings g' = g_settings g \<and> config_of g' = config_of g
    \<and> (g_peer g' = g_peer g \<or> g_peer g' = None \<or> g_peer g' = Some (started_peer g))"
proof -
  obtain g1 where g1: "g1 = g \<or> g1 = g\<lparr>g_peer := None\<rparr>" "startEmbeddedPeerIfEnabled spawns g1 = Some g'"
    using assms stop_peer_Some [of g] by (auto simp: restart_peer_def split: option.splits if_splits)
  have "started_peer (g\<lparr>g_peer := None\<rparr>) = started_peer g" "config_of (g\<lparr>g_peer := None\<rparr>) = config_of g"
    by (simp_all add: started_peer_def config_of_def)
  with start_peer_Some [OF g1(2)] g1(1) show ?thesis by auto
qed

lemma ends_process:
  "(onApplySettingsClicked q reach spawns f g = None \<longleftrightarrow> dead_peer g \<and> fm_enabled f
      \<and> qt_trimmed q (fm_manifestDir f) \<noteq> [] \<and> fst (create_directories (g_disk g) (qt_trimmed q (fm_manifestDir f)))
      \<and> qt_trimmed q (fm_storageDir f) \<noteq> [])
   \<and> (onApplyNetworkSettingsClicked q reach spawns adv seeds g = None \<longleftrightarrow>
        dead_peer g \<and> g_enabled g \<and> g_storageDir g \<noteq> [] \<and> qt_trimmed q adv \<noteq> [])
   \<and> (close_window g = None \<longleftrightarrow> dead_peer g)"
proof (intro conjI)
  show "close_window g = None \<longleftrightarrow> dead_peer g"
    using stop_peer_None [of g] stop_peer_Some [of g]
    by (auto simp: close_window_def drop_peer_None split: option.splits)
qed (auto simp: onApplySettingsClicked_def onApplyNetworkSettingsClicked_def loadBootstrapSeedsFromSettings_def
    restart_peer_None dead_peer_def Let_def split: prod.splits)

text \<open>
  C9: When the embedded peer died of an exception (a port that is taken is enough), the
  window stays open but cannot recover: applying the settings with the peer enabled,
  applying the network settings and closing the window each end the process through
  \<^verbatim>\<open>std::terminate\<close>. Without a dead peer none of them does.
\<close>

theorem dead_peer_ends_process:
  "(onApplySettingsClicked q reach spawns f g = None \<longleftrightarrow> dead_peer g \<and> fm_enabled f
      \<and> qt_trimmed q (fm_manifestDir f) \<noteq> [] \<and> fst (create_directories (g_disk g) (qt_trimmed q (fm_manifestDir f)))
      \<and> qt_trimmed q (fm_storageDir f) \<noteq> [])
   \<and> (onApplyNetworkSettingsClicked q reach spawns adv seeds g = None \<longleftrightarrow>
        dead_peer g \<and> g_enabled g \<and> g_storageDir g \<noteq> [] \<and> qt_trimmed q adv \<noteq> [])
   \<and> (close_window g = None \<longleftrightarrow> dead_peer g)"
  by (rule ends_process)

section \<open>Every session is well formed\<close>

text \<open>The answers of the first run: within the ranges of the dialogs, and a tidy data directory.\<close>

definition first_run_ok :: "first_run \<Rightarrow> bool" where
  "first_run_ok a \<longleftrightarrow> port_ok (fr_port a) \<and> 1 \<le> fr_gib a \<and> fr_gib a \<le> 1024
     \<and> (fr_appData a \<noteq> [] \<longrightarrow> visible (hd (fr_appData a)))"

text \<open>Settings a session may find: none yet, or those of an earlier one.\<close>

definition startable :: "qt \<Rightarrow> settings \<Rightarrow> bool" where
  "startable q se \<longleftrightarrow> \<not> setting (se_initialized se) False \<or> app_settings q se"

lemma load_seeds: "loadBootstrapSeedsFromSettings q g = g\<lparr>g_bootstrap := stored_seeds q (g_settings g)\<rparr>"
  by (simp add: loadBootstrapSeedsFromSettings_def stored_seeds_def Let_def)

lemma manifests_dir_trimmed:
  assumes "qt_documented q" "first_run_ok a"
  shows "qt_trimmed q (app_data a @ ''/manifests'') = app_data a @ ''/manifests''"
proof (rule qt_laws(1) [OF assms(1)])
  show "visible_ends (app_data a @ ''/manifests'')"
    using assms(2) by (auto simp: visible_ends_def app_data_def first_run_ok_def visible_def)
qed

lemma load_stored:
  assumes "app_settings q se"
  shows "g_settings (loadOrPromptPeerSettings q a (blank_gui se d)) = se
    \<and> config_of (loadOrPromptPeerSettings q a (blank_gui se d)) = stored_config q se"
  using assms
  by (auto simp: app_settings_def loadOrPromptPeerSettings_def load_seeds read_settings_def blank_gui_def setting_def config_defs
      stored_address_def Let_def)

lemma prompt_stored:
  assumes "qt_documented q" "first_run_ok a" "\<not> setting (se_initialized se) False"
    "g = loadOrPromptPeerSettings q a (blank_gui se d)"
  shows "app_settings q (g_settings g) \<and> config_of g = stored_config q (g_settings g)"
  using assms(2,3) manifests_dir_trimmed [OF assms(1,2)]
  unfolding assms(4)
  by (auto simp: app_settings_def loadOrPromptPeerSettings_def load_seeds prompt_settings_def blank_gui_def setting_def config_defs
      stored_address_def stored_seeds_def first_run_ok_def cap_ok_def Let_def)

lemma load_wf:
  assumes "qt_documented q" "app_settings q se \<or> first_run_ok a \<and> startable q se"
  shows "gui_wf q (loadOrPromptPeerSettings q a (blank_gui se d))"
proof -
  have "g_peer (loadOrPromptPeerSettings q a (blank_gui se d)) = None"
    by (simp add: loadOrPromptPeerSettings_def load_seeds prompt_settings_def read_settings_def blank_gui_def Let_def)
  then show ?thesis
    using prompt_stored [OF assms(1) _ _ refl, of a se d] load_stored [of q se a d] assms(2)
    by (auto simp: gui_wf_def startable_def)
qed

text \<open>A new peer is started from the configuration, so it is well formed.\<close>

lemma started_wf: "gui_wf q g \<Longrightarrow> peer_wf (started_peer g)"
  using gui_wfD(1-3) by (simp add: peer_wf_def started_peer_def PeerService_def)

lemma after_start_wf:
  assumes "gui_wf q g" "g_settings g' = g_settings g \<and> config_of g' = config_of g
    \<and> (g_peer g' = g_peer g \<or> g_peer g' = None \<or> g_peer g' = Some (started_peer g))"
  shows "gui_wf q g'"
  using assms started_wf [OF assms(1)] by (auto simp: gui_wf_def)

text \<open>What the Apply handlers have stored before they restart the peer.\<close>

definition applied :: "form \<Rightarrow> disk \<Rightarrow> string \<Rightarrow> string \<Rightarrow> gui \<Rightarrow> gui" where
  "applied f d m dir g = g\<lparr>g_disk := d, g_manifestDir := m, g_enabled := fm_enabled f, g_port := fm_port f,
     g_maxBytes := gib_bytes (fm_gib f), g_storageDir := dir,
     g_settings := (g_settings g)\<lparr>se_manifestDir := Some m, se_enabled := Some (fm_enabled f),
       se_port := Some (fm_port f), se_maxBytes := Some (gib_bytes (fm_gib f)), se_storageDir := Some dir\<rparr>\<rparr>"

definition applied_network :: "qt \<Rightarrow> string \<Rightarrow> string \<Rightarrow> gui \<Rightarrow> gui" where
  "applied_network q adv seeds g = loadBootstrapSeedsFromSettings q
     (g\<lparr>g_settings := (g_settings g)\<lparr>se_seeds := Some seeds, se_advertiseIp := Some adv\<rparr>, g_advertiseIp := adv\<rparr>)"

lemma apply_cases:
  assumes "onApplySettingsClicked q reach spawns f g = Some g'"
  obtains (refused) "same_setup g g'"
    | (restarted) d m dir g2 where "qt_trimmed q m \<noteq> []" "dir \<noteq> []"
        "restart_peer spawns (applied f d (qt_trimmed q m) dir g) = Some g2" "g' = discoverPeersFromBootstrap q reach g2"
  using assms
  by (auto simp: onApplySettingsClicked_def applied_def Let_def split: if_splits prod.splits)

lemma apply_network_cases:
  assumes "onApplyNetworkSettingsClicked q reach spawns adv seeds g = Some g'"
  obtains (refused) "same_setup g g'"
    | (restarted) seeds' g2 where "qt_trimmed q adv \<noteq> []"
        "restart_peer spawns (applied_network q (qt_trimmed q adv) seeds' g) = Some g2"
        "g' = discoverPeersFromBootstrap q reach g2"
  using assms
  by (auto simp: onApplyNetworkSettingsClicked_def applied_network_def Let_def split: if_splits)

lemma applied_wf:
  assumes "gui_wf q g" "fields_ok (Apply reach spawns f)" "m \<noteq> []" "dir \<noteq> []" "qt_trimmed q m = m"
  shows "gui_wf q (applied f d m dir g)"
  using assms
  by (auto simp: applied_def gui_wf_def app_settings_def config_defs stored_address_def stored_seeds_def cap_ok_def)

lemma applied_network_wf:
  "gui_wf q g \<Longrightarrow> adv \<noteq> [] \<Longrightarrow> qt_trimmed q adv = adv \<Longrightarrow> gui_wf q (applied_network q adv seeds g)"
  by (auto simp: applied_network_def gui_wf_def app_settings_def config_defs load_seeds stored_address_def setting_def)

lemma restart_wf: "gui_wf q g \<Longrightarrow> restart_peer spawns g = Some g' \<Longrightarrow> gui_wf q (discoverPeersFromBootstrap q reach g')"
  using after_start_wf [OF _ restart_peer_Some] gui_wf_same [OF same_setup_discover] by blast

lemma apply_wf:
  assumes "qt_documented q" "gui_wf q g" "fields_ok (Apply reach spawns f)"
    "onApplySettingsClicked q reach spawns f g = Some g'"
  shows "gui_wf q g'"
  using assms(4)
proof (cases rule: apply_cases)
  case refused
  then show ?thesis using gui_wf_same assms(2) by blast
next
  case (restarted d m dir g2)
  with applied_wf [OF assms(2,3) _ _ qt_laws(2) [OF assms(1)]] restart_wf show ?thesis by blast
qed

lemma apply_network_wf:
  assumes "qt_documented q" "gui_wf q g" "onApplyNetworkSettingsClicked q reach spawns adv seeds g = Some g'"
  shows "gui_wf q g'"
  using assms(3)
proof (cases rule: apply_network_cases)
  case refused
  then show ?thesis using gui_wf_same assms(2) by blast
next
  case (restarted seeds' g2)
  with applied_network_wf [OF assms(2) _ qt_laws(2) [OF assms(1)]] restart_wf show ?thesis by blast
qed

lemma monitor_rows_Inr: "digest32 sha256 \<Longrightarrow> \<exists>rows. monitor_rows q sha256 reach parts = Inr rows"
  by (induction parts) (auto simp: makeNodeId_eq Let_def split: sum.splits)

lemma refresh_Inr:
  assumes "digest32 sha256"
  shows "\<exists>g'. refreshPeerMonitor q sha256 reach g = Inr g'"
proof -
  let ?g1 = "discoverPeersFromBootstrap q reach g"
  obtain rows where "monitor_rows q sha256 reach (qt_split q (trackerIp q ?g1)) = Inr rows"
    using monitor_rows_Inr [OF assms] by blast
  then show ?thesis by (simp add: refreshPeerMonitor_def Let_def)
qed

lemma refresh_same: "refreshPeerMonitor q sha256 reach g = Inr g' \<Longrightarrow> same_setup g g'"
  by (auto simp: refreshPeerMonitor_def result_iff Let_def discoverPeersFromBootstrap_def same_setup_def config_of_def)

lemma peer_wf_dies: "peer_wf e \<Longrightarrow> peer_wf (service_dies e)"
  by (simp add: peer_wf_def service_dies_def)

lemma gui_step_wf:
  assumes "qt_documented q" "gui_wf q g" "fields_ok e" "gui_step q sha256 e g = Some g'"
  shows "gui_wf q g'"
proof (cases e)
  case (Refresh reach)
  then have "same_setup g g'" using assms(4) refresh_same by (auto split: sum.splits)
  then show ?thesis using gui_wf_same assms(2) by blast
next
  case Peer_dies
  then show ?thesis
    using assms(2,4) peer_wf_dies by (auto simp: gui_wf_def config_of_def)
next
  case (Put_click path chunk replicas rsa)
  then show ?thesis using assms(2,4) gui_wf_same [OF same_setup_clicks(1)] by auto
next
  case (Get_click m out rsa)
  then show ?thesis using assms(2,4) gui_wf_same [OF same_setup_clicks(2)] by auto
next
  case (Repair_click replicas batch)
  then show ?thesis using assms(2,4) gui_wf_same [OF same_setup_clicks(3)] by auto
next
  case (Download_click shareId dialog rsa)
  then show ?thesis using assms(2,4) gui_wf_same [OF same_setup_clicks(4)] by auto
next
  case (Worker_signal sg)
  then show ?thesis using assms(2,4) gui_wf_same [OF same_setup_clicks(5)] by auto
next
  case (Apply reach spawns f)
  then show ?thesis using apply_wf [OF assms(1,2)] assms(3,4) by auto
next
  case (Apply_network reach spawns adv seeds)
  then show ?thesis using apply_network_wf [OF assms(1,2)] assms(4) by auto
qed

lemma gui_run_wf:
  assumes "qt_documented q"
  shows "gui_wf q g \<Longrightarrow> \<forall>e \<in> set es. fields_ok e \<Longrightarrow> gui_run q sha256 es g = Some g' \<Longrightarrow> gui_wf q g'"
proof (induction es arbitrary: g)
  case (Cons e es)
  then obtain g1 where g1: "gui_step q sha256 e g = Some g1" "gui_run q sha256 es g1 = Some g'"
    by (auto split: option.splits)
  have "gui_wf q g1" using gui_step_wf [OF assms Cons.prems(1) _ g1(1)] Cons.prems(2) by simp
  then show ?case using Cons.IH [OF _ _ g1(2)] Cons.prems(2) by simp
qed simp

text \<open>Without an exception in the peer no event ends the process.\<close>

lemma dead_peer_same: "same_setup g g' \<Longrightarrow> dead_peer g' = dead_peer g"
  by (simp add: same_setup_def dead_peer_def)

lemma restart_alive:
  assumes "restart_peer spawns g = Some g'" "\<not> dead_peer g"
  shows "\<not> dead_peer (discoverPeersFromBootstrap q reach g')"
proof -
  have "\<not> dead_peer g'" using restart_peer_Some [OF assms(1)] assms(2) by (auto simp: dead_peer_def started_peer_def)
  then show ?thesis using dead_peer_same [OF same_setup_discover] by blast
qed

lemma applied_peer: "dead_peer (applied f d m dir g) = dead_peer g" "dead_peer (applied_network q adv seeds g) = dead_peer g"
  by (simp_all add: dead_peer_def applied_def applied_network_def load_seeds)

lemma apply_alive:
  "onApplySettingsClicked q reach spawns f g = Some g' \<Longrightarrow> \<not> dead_peer g \<Longrightarrow> \<not> dead_peer g'"
  "onApplyNetworkSettingsClicked q reach spawns adv seeds g = Some g' \<Longrightarrow> \<not> dead_peer g \<Longrightarrow> \<not> dead_peer g'"
  by (erule apply_cases; metis dead_peer_same restart_alive applied_peer(1))
    (erule apply_network_cases; metis dead_peer_same restart_alive applied_peer(2))

lemma gui_step_alive:
  assumes "digest32 sha256" "\<not> dead_peer g" "e \<noteq> Peer_dies"
  shows "\<exists>g'. gui_step q sha256 e g = Some g' \<and> \<not> dead_peer g'"
proof -
  have "onApplySettingsClicked q r b f g \<noteq> None" "onApplyNetworkSettingsClicked q r b x y g \<noteq> None"
    "refreshPeerMonitor q sha256 r g \<noteq> Inl z" for r b f x y z
    using assms(2) ends_process [of q r b f g x y] refresh_Inr [OF assms(1), of q r g] by auto
  then have "gui_step q sha256 e g \<noteq> None" by (cases e) (auto split: sum.splits)
  then obtain g' where g': "gui_step q sha256 e g = Some g'" by blast
  have "same_setup g g' \<or> \<not> dead_peer g'"
  proof (cases e)
    case (Apply reach spawns f)
    then show ?thesis using g' assms(2) apply_alive(1) by simp
  next
    case (Apply_network reach spawns adv seeds)
    then show ?thesis using g' assms(2) apply_alive(2) by simp
  next
    case (Refresh reach)
    then show ?thesis using g' refresh_same by (auto split: sum.splits)
  qed (use g' assms(3) in auto)
  then show ?thesis using g' assms(2) dead_peer_same by blast
qed

lemma gui_run_alive:
  "digest32 sha256 \<Longrightarrow> \<not> dead_peer g \<Longrightarrow> Peer_dies \<notin> set es \<Longrightarrow> \<exists>g'. gui_run q sha256 es g = Some g' \<and> \<not> dead_peer g'"
proof (induction es arbitrary: g)
  case (Cons e es)
  then obtain g1 where "gui_step q sha256 e g = Some g1" "\<not> dead_peer g1" using gui_step_alive [of sha256 g e] by auto
  then show ?case using Cons.IH [of g1] Cons.prems by auto
qed simp

lemma uint_gib_bytes:
  assumes "1 \<le> gib" "gib \<le> 1024"
  shows "uint (gib_bytes gib) = gib * 1073741824"
proof -
  have "gib_bytes gib = word_of_int (gib * 1024 * 1024 * 1024)" by (simp only: gib_bytes_def of_int_mult of_int_numeral)
  then have "uint (gib_bytes gib) = gib * 1024 * 1024 * 1024 mod 2 ^ 64" by (simp only: uint_word_of_int) simp
  then show ?thesis using assms by simp
qed

lemma unat_gib_bytes:
  assumes "1 \<le> gib" "gib \<le> 1024"
  shows "1073741824 \<le> unat (gib_bytes gib) \<and> unat (gib_bytes gib) \<le> 1099511627776"
proof -
  have "int (unat (gib_bytes gib)) = gib * 1073741824" by (simp only: uint_gib_bytes [OF assms] uint_nat [symmetric])
  then show ?thesis using assms by linarith
qed

lemma shown_gib_bytes:
  assumes "1 \<le> gib" "gib \<le> 1024"
  shows "shown_gib (gib_bytes gib) = gib"
proof -
  let ?g = "gib_bytes gib div (1024 * 1024 * 1024)"
  have "uint ?g = gib" by (simp add: uint_div uint_gib_bytes [OF assms])
  moreover from this have "\<not> ?g < 1" "\<not> 1024 < ?g" using assms by (simp_all add: word_less_def)
  moreover have "sint (ucast w :: 32 word) = gib" if "uint w = gib" for w :: u64
    using that assms by (simp add: sint_uint ucast_eq uint_word_of_int signed_take_bit_int_eq_self)
  ultimately show ?thesis unfolding shown_gib_def Let_def by auto
qed

lemma opened:
  assumes "qt_documented q" "app_settings q se \<or> first_run_ok a \<and> startable q se"
  shows "\<exists>g. MainWindow q a reach spawns se d = Some g \<and> gui_wf q g \<and> \<not> dead_peer g
    \<and> config_of g = config_of (loadOrPromptPeerSettings q a (blank_gui se d))"
proof -
  let ?g0 = "loadOrPromptPeerSettings q a (blank_gui se d)"
  have none: "g_peer ?g0 = None"
    by (simp add: loadOrPromptPeerSettings_def load_seeds prompt_settings_def read_settings_def blank_gui_def Let_def)
  then have "\<not> dead_peer ?g0" by (simp add: dead_peer_def)
  then obtain g1 where g1: "startEmbeddedPeerIfEnabled spawns ?g0 = Some g1" using start_peer_None by fastforce
  note st = start_peer_Some [OF g1]
  have "gui_wf q g1" using after_start_wf [OF load_wf [OF assms] st] .
  moreover have "\<not> dead_peer g1" using st none by (auto simp: dead_peer_def started_peer_def)
  moreover have same: "same_setup g1 (discoverPeersFromBootstrap q reach g1)" by simp
  ultimately have "gui_wf q (discoverPeersFromBootstrap q reach g1)" "\<not> dead_peer (discoverPeersFromBootstrap q reach g1)"
    using gui_wf_same dead_peer_same by blast+
  moreover have "config_of (discoverPeersFromBootstrap q reach g1) = config_of ?g0" using same st by (simp add: same_setup_def)
  ultimately show ?thesis using g1 by (simp add: MainWindow_def)
qed

text \<open>
  C22: Whatever the user does, in the first session or a later one, the window opens, and
  unless an exception ends the embedded peer no event ends the process. The settings are
  then complete, the members hold what the settings say, and an embedded peer listens on a
  port between 1024 and 65535, so that the conversion to 16 bits loses nothing, stores in a
  directory that is named, and has a limit of 1 to 1024 GiB, never the 0 that means none.
\<close>

theorem sessions_well_formed:
  assumes "qt_documented q" "digest32 sha256" "first_run_ok a" "startable q se" "\<forall>e \<in> set es. fields_ok e"
  shows "\<exists>g. MainWindow q a reach spawns se d = Some g
    \<and> (Peer_dies \<notin> set es \<longrightarrow> gui_run q sha256 es g \<noteq> None)
    \<and> (\<forall>g'. gui_run q sha256 es g = Some g' \<longrightarrow> app_settings q (g_settings g')
         \<and> config_of g' = stored_config q (g_settings g')
         \<and> (\<forall>e. g_peer g' = Some e \<longrightarrow> uint (word_of_int (em_peerPort e) :: 16 word) = em_peerPort e
              \<and> 2 ^ 30 \<le> unat (em_maxBytes e) \<and> unat (em_maxBytes e) \<le> 2 ^ 40 \<and> em_storageDir e \<noteq> []))"
proof -
  obtain g where g: "MainWindow q a reach spawns se d = Some g" "gui_wf q g" "\<not> dead_peer g"
    using opened [OF assms(1)] assms(3,4) by blast
  have "uint (word_of_int p :: 16 word) = p" if "port_ok p" for p
    using that by (simp add: port_ok_def uint_word_of_int)
  moreover have "2 ^ 30 \<le> unat n \<and> unat n \<le> 2 ^ 40" if "cap_ok n" for n
    using that unat_gib_bytes by (auto simp: cap_ok_def)
  ultimately show ?thesis
    using g(1) gui_run_wf [OF assms(1) g(2) assms(5)] gui_run_alive [OF assms(2) g(3), of es q]
    by (auto simp: gui_wf_def peer_wf_def)
qed

text \<open>
  C23: Settings survive: after any session, the next one starts with the configuration the
  last one had, whatever its dialogs would answer, and the settings tab shows a storage cap
  that means the same number of bytes when it is applied again.
\<close>

theorem settings_survive:
  assumes "qt_documented q" "first_run_ok a" "startable q se" "\<forall>e \<in> set es. fields_ok e"
    "MainWindow q a reach spawns se d = Some g" "gui_run q sha256 es g = Some g1"
  shows "\<exists>g2. MainWindow q a' reach' spawns' (g_settings g1) d' = Some g2 \<and> config_of g2 = config_of g1
    \<and> gib_bytes (fm_gib (syncPeerSettingsToUi g2)) = g_maxBytes g1"
proof -
  have "gui_wf q g" using opened [OF assms(1), of se a reach spawns d] assms(2,3,5) by auto
  then have wf: "gui_wf q g1" using gui_run_wf [OF assms(1) _ assms(4,6)] by blast
  then have app: "app_settings q (g_settings g1)" by (simp add: gui_wf_def)
  obtain g2 where g2: "MainWindow q a' reach' spawns' (g_settings g1) d' = Some g2"
      "config_of g2 = config_of (loadOrPromptPeerSettings q a' (blank_gui (g_settings g1) d'))"
    using opened [OF assms(1), of "g_settings g1" a' reach' spawns' d'] app by blast
  have same: "config_of g2 = config_of g1"
    using g2(2) load_stored [OF app, of a' d'] wf by (simp add: gui_wf_def)
  then have "g_maxBytes g2 = g_maxBytes g1" by (simp add: config_of_def)
  moreover have "gib_bytes (shown_gib (g_maxBytes g1)) = g_maxBytes g1"
    using gui_wfD(2) [OF wf] shown_gib_bytes by (auto simp: cap_ok_def)
  ultimately show ?thesis using g2(1) same by (simp add: syncPeerSettingsToUi_def)
qed

end
