(* ===== verification/Window_Peers.thy ===== *)
theory Window_Peers
  imports Window_Session
begin

text \<open>
  From the window to the worker and back: the peers that discovery finds are the peers of
  the request a button posts, and a finished upload is shown as it is. The theory ends with an
  instance of the Qt functions for which the laws of \<open>Window_Session\<close> hold, and with the
  sessions it is used in.
\<close>

section \<open>Discovered peers reach the worker\<close>

text \<open>
  A host name or address of visible characters without comma, slash and percent sign. An
  IPv6 address with a zone, \<^verbatim>\<open>fe80::1%1\<close>, is not one: \<^verbatim>\<open>QString::arg\<close> takes its percent sign
  for a place marker.
\<close>

definition host_text :: "string \<Rightarrow> bool" where
  "host_text h \<longleftrightarrow> h \<noteq> [] \<and> (\<forall>c \<in> set h. visible c \<and> c \<noteq> CHR '','' \<and> c \<noteq> CHR ''/'' \<and> c \<noteq> CHR ''%'')"

definition reachable_seeds :: "qt \<Rightarrow> reach \<Rightarrow> string list \<Rightarrow> peer_endpoint set" where
  "reachable_seeds q reach raws = {ep. \<exists>raw \<in> set raws. qt_trimmed q raw \<noteq> [] \<and> parse_peer_entry (qt_trimmed q raw) = Inr ep
     \<and> 0 < port ep \<and> reach (ip ep) (word_of_int (port ep))}"

definition reachable_peers :: "qt \<Rightarrow> reach \<Rightarrow> gui \<Rightarrow> peer_endpoint set" where
  "reachable_peers q reach g = reachable_seeds q reach (g_bootstrap g) \<union>
     (if g_enabled g \<and> hadRunning g then {\<lparr>ip = g_advertiseIp g, port = g_port g\<rparr>} else {})"

definition address :: "peer_endpoint \<Rightarrow> string" where
  "address ep = ip ep @ CHR '':'' # show_int (port ep)"

definition plain_peer :: "peer_endpoint \<Rightarrow> bool" where
  "plain_peer ep \<longleftrightarrow> host_text (ip ep) \<and> in_int_range (port ep)"

lemma visible_not_ws: "visible c \<Longrightarrow> \<not> is_ws c"
  by (auto simp: visible_def is_ws_def)

lemma show_int_chars: "c \<in> set (show_int p) \<Longrightarrow> visible c \<and> c \<noteq> CHR '','' \<and> c \<noteq> CHR ''/''"
proof -
  assume "c \<in> set (show_int p)"
  then have "c = CHR ''-'' \<or> isdigit c" using show_nat_digits by (auto simp: show_int_def split: if_splits)
  then show ?thesis by (auto simp: isdigit_def visible_def)
qed

lemma address_chars:
  assumes "plain_peer ep"
  shows "address ep \<noteq> []" "\<forall>c \<in> set (address ep). visible c \<and> c \<noteq> CHR '','' \<and> c \<noteq> CHR ''/''"
  using assms show_int_chars by (auto simp: address_def plain_peer_def host_text_def visible_def)

lemma parse_address:
  assumes "plain_peer ep"
  shows "parse_peer_entry (address ep) = Inr ep"
proof -
  have host: "trimmed (ip ep)" "ip ep \<noteq> []"
    using assms visible_not_ws by (auto simp: plain_peer_def host_text_def trimmed_def)
  have "trim_ws (address ep) = address ep"
    using trim_ws_trimmed [OF trimmed_pair [OF host]] by (simp add: address_def)
  moreover have "\<not> has_tcp_prefix (address ep)"
    using address_chars(2) [OF assms] nth_mem [of 4 "address ep"] by (auto simp: has_tcp_prefix_def)
  ultimately have "parse_peer_entry (address ep) = Inr \<lparr>ip = ip ep, port = port ep\<rparr>"
    using assms by (intro parse_trimmed_item [OF host]) (simp_all add: plain_peer_def address_def)
  then show ?thesis by simp
qed

lemma probe_addresses:
  assumes "qt_documented q" "\<forall>ep \<in> reachable_seeds q reach raws. host_text (ip ep)"
  shows "set (probe q reach raws) = address ` reachable_seeds q reach raws
    \<and> (\<forall>ep \<in> reachable_seeds q reach raws. plain_peer ep)"
  using assms(2)
proof (induction raws)
  case (Cons raw raws)
  have one: "ep \<in> reachable_seeds q reach [raw] \<Longrightarrow> host_text (ip ep)" for ep
    using Cons.prems by (auto simp: reachable_seeds_def)
  have "qt_trimmed q raw \<noteq> [] \<Longrightarrow> 0 < port ep \<Longrightarrow> parse_peer_entry (qt_trimmed q raw) = Inr ep \<Longrightarrow> reach (ip ep) (word_of_int (port ep)) \<Longrightarrow>
      qt_arg q (qt_arg q ''%1:%2'' (ip ep)) (show_int (port ep)) = address ep \<and> plain_peer ep" for ep
    using one [of ep] qt_laws(7) [OF assms(1), of "ip ep" "show_int (port ep)"] parse_peer_entry_sound [of "qt_trimmed q raw" ep]
    by (auto simp: address_def plain_peer_def host_text_def reachable_seeds_def)
  moreover have "reachable_seeds q reach (raw # raws) = reachable_seeds q reach raws \<union> reachable_seeds q reach [raw]"
    by (auto simp: reachable_seeds_def)
  ultimately show ?case
    using Cons.IH Cons.prems by (auto simp: Let_def reachable_seeds_def split: sum.splits)
qed (simp add: reachable_seeds_def)

lemma getlines_joined:
  "\<forall>x \<in> set xs. x \<noteq> [] \<and> CHR '','' \<notin> set x \<Longrightarrow> getlines (CHR '','') (joined xs) = xs"
proof (induction xs rule: joined.induct)
  case (2 x)
  then have "takeWhile (\<lambda>c. c \<noteq> CHR '','') x = x" by (auto simp: takeWhile_eq_all_conv)
  then show ?case using 2 by (cases x) (auto simp: getlines.simps)
qed (simp_all add: getlines_line getlines.simps(1))

lemma joined_chars: "c \<in> set (joined xs) \<Longrightarrow> c = CHR '','' \<or> (\<exists>x \<in> set xs. c \<in> set x)"
  by (induction xs rule: joined.induct) auto

lemma joined_Nil: "\<forall>x \<in> set xs. x \<noteq> [] \<Longrightarrow> joined xs = [] \<longleftrightarrow> xs = []"
  by (cases xs rule: joined.cases) auto

text \<open>A list of different addresses, written as one text, is read back by both clients.\<close>

lemma addresses_read_back:
  assumes "distinct xs" "set xs = address ` eps" "\<forall>ep \<in> eps. plain_peer ep"
  shows "\<exists>ps. distinct ps \<and> set ps = eps \<and> parse_peers (peer_items (joined xs)) = Inr ps \<and> visible_ends (joined xs)
    \<and> (joined xs = [] \<longleftrightarrow> eps = {})"
proof -
  have chars: "\<forall>x \<in> set xs. x \<noteq> [] \<and> (\<forall>c \<in> set x. visible c \<and> c \<noteq> CHR '','')"
  proof -
    have "address ep \<noteq> [] \<and> (\<forall>c \<in> set (address ep). visible c \<and> c \<noteq> CHR '','')" if "ep \<in> eps" for ep
      using address_chars [of ep] assms(3) that by simp
    then show ?thesis by (simp add: assms(2))
  qed
  let ?read = "\<lambda>x. projr (parse_peer_entry x)"
  have read: "parse_peer_entry x = Inr (?read x) \<and> address (?read x) = x \<and> ?read x \<in> eps" if "x \<in> set xs" for x
    using that assms(2,3) parse_address by auto
  have "parse_peers ys = Inr (map ?read ys)" if "set ys \<subseteq> set xs" for ys
    using that
  proof (induction ys)
    case (Cons y ys)
    then have "y \<in> set xs" by simp
    then obtain ep where "parse_peer_entry y = Inr ep" "y \<noteq> []" using read [of y] chars by blast
    then show ?case using Cons by simp
  qed simp
  moreover have "getlines (CHR '','') (joined xs) = xs" by (rule getlines_joined) (use chars in blast)
  ultimately have "parse_peers (peer_items (joined xs)) = Inr (map ?read xs)" by (simp add: peer_items_def)
  moreover have "inj_on ?read (set xs)" by (rule inj_on_inverseI [of _ address]) (use read in blast)
  then have "distinct (map ?read xs)" by (simp add: distinct_map assms(1))
  moreover have "set (map ?read xs) = eps"
    using assms(2,3) parse_address by (auto simp: image_image)
  moreover have "\<forall>c \<in> set (joined xs). visible c" using chars joined_chars by (fastforce simp: visible_def)
  then have "visible_ends (joined xs)" by (cases "joined xs = []") (simp_all add: visible_ends_def)
  ultimately show ?thesis using joined_Nil [of xs] chars assms(2) by blast
qed

lemma discover_reads_back:
  assumes "qt_documented q" "\<forall>ep \<in> reachable_seeds q reach (g_bootstrap g). host_text (ip ep)" "host_text (g_advertiseIp g)" "port_ok (g_port g)"
  shows "\<exists>ps. distinct ps \<and> set ps = reachable_peers q reach g
    \<and> parse_peers (peer_items (trackerIp q (discoverPeersFromBootstrap q reach g))) = Inr ps
    \<and> (trackerIp q (discoverPeersFromBootstrap q reach g) = [] \<longleftrightarrow> reachable_peers q reach g = {})"
proof -
  let ?local = "\<lparr>ip = g_advertiseIp g, port = g_port g\<rparr>"
  define merged where "merged = (if g_enabled g \<and> hadRunning g \<and> address ?local \<notin> set (probe q reach (g_bootstrap g))
    then probe q reach (g_bootstrap g) @ [address ?local] else probe q reach (g_bootstrap g))"
  have csv: "g_csv (discoverPeersFromBootstrap q reach g) = joined (qt_unique q merged)"
    using qt_laws(3,8) [OF assms(1)] by (simp add: discoverPeersFromBootstrap_def merged_def address_def Let_def)
  note pr = probe_addresses [OF assms(1,2)]
  have "plain_peer ?local" using assms(3,4) by (simp add: plain_peer_def port_ok_def in_int_range_def)
  then have plain: "\<forall>ep \<in> reachable_peers q reach g. plain_peer ep" using pr by (auto simp: reachable_peers_def)
  have "set (qt_unique q merged) = address ` reachable_peers q reach g"
    using pr qt_laws(6) [OF assms(1)] by (auto simp: merged_def reachable_peers_def)
  from addresses_read_back [OF qt_laws(5) [OF assms(1)] this plain]
  show ?thesis using qt_laws(1) [OF assms(1)] by (auto simp: trackerIp_def csv)
qed

text \<open>
  C24: What discovery finds is what the worker uses: after it, the text in the window is a
  list that both clients read back completely, as the bootstrap peers that could be
  connected to and, while it runs, the embedded peer under its advertised address, to which
  no connection is tried, each once; the put button refuses when there is none and
  otherwise posts a request whose configuration has exactly these peers and a positive chunk
  size. The condition is that the names of the bootstrap peers that answer and the
  advertised address are visible characters without percent sign, comma and slash.
\<close>

theorem discovered_peers_reach_worker:
  assumes "qt_documented q" "\<forall>ep \<in> reachable_seeds q reach (g_bootstrap g). host_text (ip ep)" "host_text (g_advertiseIp g)" "port_ok (g_port g)"
    "qt_trimmed q path \<noteq> []" "g1 = discoverPeersFromBootstrap q reach g" "g2 = onPutClicked q path chunk replicas rsa g1"
  shows "\<exists>ps. distinct ps \<and> set ps = reachable_peers q reach g \<and> parse_peers (peer_items (trackerIp q g1)) = Inr ps
    \<and> (if ps = [] then g2 = warn no_peers_text g1
       else \<exists>n cfg. n > 0 \<and> g_posted g2 = g_posted g @ [Put_request (trackerIp q g1) (qt_trimmed q path) (g_manifestDir g) n replicas (qt_trimmed q rsa)]
         \<and> worker_put_config (qt_trimmed q) (trackerIp q g1) (g_manifestDir g) n replicas (qt_trimmed q rsa) = Inr cfg
         \<and> cc_peers cfg = ps \<and> cc_chunkSize cfg = n)"
proof -
  obtain ps where ps: "distinct ps" "set ps = reachable_peers q reach g" "parse_peers (peer_items (trackerIp q g1)) = Inr ps"
      "trackerIp q g1 = [] \<longleftrightarrow> ps = []"
    using discover_reads_back [OF assms(1-4)] unfolding assms(6) by (metis set_empty)
  show ?thesis
  proof (cases "ps = []")
    case True
    then show ?thesis using ps by (auto simp: assms(7) onPutClicked_def)
  next
    case False
    define n where "n = (if qt_trimmed q chunk = [] then 1024 * 1024 else case qt_ulonglong q (qt_trimmed q chunk) of
        None \<Rightarrow> 1024 * 1024 | Some n \<Rightarrow> if n = 0 then 1024 * 1024 else n)"
    have n: "n > 0" by (simp add: n_def word_gt_0 split: option.split)
    have "g_posted g2 = g_posted g1 @ [Put_request (trackerIp q g1) (qt_trimmed q path) (g_manifestDir g1) n replicas (qt_trimmed q rsa)]"
      using False ps(4) assms(5) by (simp add: assms(7) onPutClicked_def n_def Let_def)
    moreover have "g_posted g1 = g_posted g" "g_manifestDir g1 = g_manifestDir g"
      by (simp_all add: assms(6) discoverPeersFromBootstrap_def Let_def)
    moreover have "\<exists>cfg. worker_put_config (qt_trimmed q) (trackerIp q g1) d n replicas (qt_trimmed q rsa) = Inr cfg
        \<and> cc_peers cfg = ps \<and> cc_chunkSize cfg = n" for d
      using False n parse_peers_collect [OF ps(3)] by (simp add: worker_put_config_def default_config_def Let_def)
    ultimately show ?thesis using False ps n by auto
  qed
qed

section \<open>A Qt that keeps its documentation\<close>

text \<open>\<^verbatim>\<open>arg\<close>: the first percent sign before a digit is replaced, with the digit.\<close>

fun plain_arg :: "string \<Rightarrow> string \<Rightarrow> string" where
  "plain_arg (c # d # t) x = (if c = CHR ''%'' \<and> isdigit d then x @ t else c # plain_arg (d # t) x)"
| "plain_arg t x = t"

lemma plain_arg_at: "CHR ''%'' \<notin> set u \<Longrightarrow> isdigit d \<Longrightarrow> plain_arg (u @ CHR ''%'' # d # t) x = u @ x @ t"
proof (induction u)
  case (Cons c u)
  then show ?case by (cases "u @ CHR ''%'' # d # t") auto
qed simp

definition plain_qt :: qt where
  "plain_qt = \<lparr>qt_trimmed = trim_ws, qt_split = (\<lambda>s. filter (\<lambda>x. x \<noteq> []) (getlines (CHR '','') s)), qt_join = joined,
     qt_unique = remdups, qt_arg = plain_arg, qt_arg2 = (\<lambda>t h p. h @ drop 2 (take 3 t) @ p),
     qt_ulonglong = (\<lambda>s. case stoull s of Inl _ \<Rightarrow> None | Inr n \<Rightarrow> Some n)\<rparr>"

lemma plain_qt_documented: "qt_documented plain_qt"
proof -
  have "visible_ends s \<Longrightarrow> trim_ws s = s" for s
    using visible_not_ws by (intro trim_ws_trimmed) (auto simp: visible_ends_def trimmed_def)
  moreover have "trim_ws (trim_ws s) = trim_ws s" for s by (rule trim_ws_trimmed [OF trimmed_trim])
  moreover have "filter (\<lambda>x. x \<noteq> []) (getlines (CHR '','') (joined xs)) = xs" if "\<forall>x \<in> set xs. x \<noteq> [] \<and> CHR '','' \<notin> set x" for xs
    using that getlines_joined [OF that] by (simp add: filter_id_conv)
  moreover have "plain_arg (plain_arg ''%1:%2'' h) p = h @ CHR '':'' # p" if "CHR ''%'' \<notin> set h" for h p
    using plain_arg_at [of "[]" "CHR ''1''" "'':%2''" h] plain_arg_at [of "h @ '':''" "CHR ''2''" "[]" p] that
    by (simp add: isdigit_def)
  ultimately show ?thesis by (simp add: qt_documented_def plain_qt_def)
qed

lemma local_host: "host_text ''127.0.0.1''"
  by (simp add: host_text_def visible_def)

definition no_settings :: settings where
  "no_settings = \<lparr>se_initialized = None, se_enabled = None, se_maxBytes = None, se_port = None, se_storageDir = None,
     se_manifestDir = None, se_seeds = None, se_advertiseIp = None\<rparr>"

definition usual_answers :: first_run where
  "usual_answers = \<lparr>fr_yes = True, fr_gib = 5, fr_port = 9101, fr_appData = ''/d''\<rparr>"

lemma usual_first_run: "first_run_ok usual_answers" "startable q no_settings"
  by (simp_all add: first_run_ok_def usual_answers_def port_ok_def visible_def startable_def no_settings_def setting_def)

definition settings_form :: form where
  "settings_form = \<lparr>fm_manifestDir = ''m'', fm_enabled = True, fm_port = 9200, fm_gib = 7, fm_storageDir = ''s''\<rparr>"

lemma settings_form_ok: "fields_ok (Apply reach spawns settings_form)"
  by (simp add: settings_form_def port_ok_def)

theorem sessions_well_formed_witness:
  "\<exists>g g'. MainWindow plain_qt usual_answers (\<lambda>_ _. False) True no_settings (open_disk []) = Some g
    \<and> gui_run plain_qt (\<lambda>_. replicate 32 0) [Apply (\<lambda>_ _. True) True settings_form, Refresh (\<lambda>_ _. False)] g = Some g'
    \<and> config_of g' = stored_config plain_qt (g_settings g')"
proof -
  have "digest32 (\<lambda>_. replicate 32 0)" by (simp add: digest32_def)
  then obtain g where g: "MainWindow plain_qt usual_answers (\<lambda>_ _. False) True no_settings (open_disk []) = Some g"
      "gui_run plain_qt (\<lambda>_. replicate 32 0) [Apply (\<lambda>_ _. True) True settings_form, Refresh (\<lambda>_ _. False)] g \<noteq> None"
      "\<And>g'. gui_run plain_qt (\<lambda>_. replicate 32 0) [Apply (\<lambda>_ _. True) True settings_form, Refresh (\<lambda>_ _. False)] g = Some g'
        \<Longrightarrow> config_of g' = stored_config plain_qt (g_settings g')"
    using sessions_well_formed [OF plain_qt_documented _ usual_first_run, of "\<lambda>_. replicate 32 0"
      "[Apply (\<lambda>_ _. True) True settings_form, Refresh (\<lambda>_ _. False)]" "\<lambda>_ _. False" True "open_disk []"] settings_form_ok by auto
  then show ?thesis by blast
qed

theorem settings_survive_witness:
  "\<exists>g1 g2. MainWindow plain_qt usual_answers (\<lambda>_ _. False) True no_settings (open_disk []) = Some g1
    \<and> MainWindow plain_qt (usual_answers\<lparr>fr_gib := 9\<rparr>) (\<lambda>_ _. True) False (g_settings g1) (open_disk []) = Some g2
    \<and> g_maxBytes g2 = gib_bytes 5 \<and> g_storageDir g2 = ''/d/peer-storage''"
proof -
  obtain g where g: "MainWindow plain_qt usual_answers (\<lambda>_ _. False) True no_settings (open_disk []) = Some g"
      "config_of g = config_of (loadOrPromptPeerSettings plain_qt usual_answers (blank_gui no_settings (open_disk [])))"
    using opened [OF plain_qt_documented] usual_first_run by blast
  then have first: "g_maxBytes g = gib_bytes 5 \<and> g_storageDir g = ''/d/peer-storage''"
    by (simp add: config_of_def loadOrPromptPeerSettings_def load_seeds prompt_settings_def usual_answers_def no_settings_def
        setting_def blank_gui_def app_data_def Let_def)
  obtain g2 where "MainWindow plain_qt (usual_answers\<lparr>fr_gib := 9\<rparr>) (\<lambda>_ _. True) False (g_settings g) (open_disk []) = Some g2"
      "config_of g2 = config_of g"
    using settings_survive [OF plain_qt_documented usual_first_run _ g(1), of "[]" "\<lambda>_. []" g "usual_answers\<lparr>fr_gib := 9\<rparr>"
      "\<lambda>_ _. True" False "open_disk []"] by auto
  then show ?thesis using g(1) first by (auto simp: config_of_def)
qed

definition window_on :: "string list \<Rightarrow> gui" where
  "window_on seeds = (blank_gui no_settings (open_disk []))\<lparr>g_bootstrap := seeds, g_enabled := False\<rparr>"

theorem discovered_peers_reach_worker_witness:
  "parse_peers (peer_items (trackerIp plain_qt (discoverPeersFromBootstrap plain_qt (\<lambda>h p. h = ''a'') (window_on [''a:1'', ''x'', ''b:1'']))))
     = Inr [\<lparr>ip = ''a'', port = 1\<rparr>]"
proof -
  let ?g = "window_on [''a:1'', ''x'', ''b:1'']" and ?r = "\<lambda>h p. h = ''a''"
  have trims: "trim_ws ''a:1'' = ''a:1''" "trim_ws ''x'' = ''x''" "trim_ws ''b:1'' = ''b:1''" "trim_ws ''f'' = ''f''"
    by (simp_all add: trim_ws_def is_ws_def)
  have parses: "parse_peer_entry ''a:1'' = Inr \<lparr>ip = ''a'', port = 1\<rparr>" "parse_peer_entry ''b:1'' = Inr \<lparr>ip = ''b'', port = 1\<rparr>"
    using sample_entry [of "CHR ''a''"] sample_entry [of "CHR ''b''"] by (simp_all add: trimmed_def is_ws_def to_lower_def)
  obtain e where bad: "parse_peer_entry ''x'' = Inl e" using sample_entries(3) by blast
  have peers: "reachable_peers plain_qt ?r ?g = {\<lparr>ip = ''a'', port = 1\<rparr>}"
    using parses bad trims
    by (auto simp: reachable_peers_def reachable_seeds_def window_on_def blank_gui_def plain_qt_def hadRunning_def)
  have h: "\<forall>ep \<in> reachable_seeds plain_qt ?r (g_bootstrap ?g). host_text (ip ep)"
    by (auto simp: reachable_seeds_def host_text_def visible_def)
  have w: "host_text (g_advertiseIp ?g)" "port_ok (g_port ?g)" "qt_trimmed plain_qt ''f'' \<noteq> []"
    using local_host trims by (simp_all add: window_on_def blank_gui_def port_ok_def plain_qt_def)
  obtain ps where ps: "distinct ps" "set ps = {\<lparr>ip = ''a'', port = 1\<rparr>}"
      "parse_peers (peer_items (trackerIp plain_qt (discoverPeersFromBootstrap plain_qt ?r ?g))) = Inr ps"
    using discovered_peers_reach_worker [OF plain_qt_documented h w refl refl, unfolded peers] by blast
  have "ps = [\<lparr>ip = ''a'', port = 1\<rparr>]" using ps(1,2) by (cases ps; cases "tl ps") auto
  then show ?thesis using ps(3) by simp
qed

section \<open>A finished upload in the table\<close>

lemma publish_manifest_local:
  assumes "publish_manifest env cfg dht replicas m s = (Inr res, s1)"
  shows "fs_read (ds_disk s1) (pr_localManifestPath res) = Some (serializeManifest m)"
  using assms
  by (auto simp: publish_manifest_def write_local_manifest_def writeManifest_def Let_def
      dest!: fs_read_write split: if_splits sum.splits prod.splits option.splits)

lemma plain_put_local:
  assumes "putFile env cfg rk ri path s = (Inr res, s1)" "cc_rsaPublicKeyPath cfg = []" "digest32 (en_sha256 env)"
    "fs_read (ds_disk s) path = Some content" "is_token (path_filename path)" "length content \<le> entries_max"
  shows "\<exists>m. readManifest (ds_disk s1) (pr_localManifestPath res) = Inr m \<and> mf_originalName m = path_filename path
    \<and> mf_originalSize m = of_nat (length content) \<and> fs_exists (ds_disk s1) (pr_localManifestPath res)"
proof -
  obtain dht key chunks cids s' where run: "make_file_key env cfg rk ri (ds_disk s) = Inr key"
      "chunkFile (ds_disk s) path (cc_chunkSize cfg) = Inr chunks"
      "put_chunks env dht (clamp_replicas cfg) (map_option fst key) (int_of_size (length chunks)) 0 0 (map ck_bytes chunks) s = (Inr cids, s')"
      "publish_manifest env cfg dht (clamp_replicas cfg)
         ((manifest_head cfg path (length content) (map_option snd key))\<lparr>mf_chunks := cids\<rparr>) s' = (Inr res, s1)"
    using assms(1,4) by (auto simp: putFile_def Let_def split: if_splits sum.splits prod.splits option.splits)
  let ?m = "(manifest_head cfg path (length content) (map_option snd key))\<lparr>mf_chunks := cids\<rparr>"
  have key: "key = None" using run(1) assms(2) by (auto simp: make_file_key_def)
  have cids: "cids = map (sha256_hex (en_sha256 env)) (map ck_bytes chunks)" using put_chunks_cids [OF run(3)] by simp
  have "length chunks \<le> length content" using chunkFile_parts [OF run(2) assms(4)] by simp
  then have "wf_manifest ?m"
    using assms(5,6) sha_hex_is_token [OF assms(3)]
    by (auto simp: wf_manifest_def cids key manifest_head_def empty_manifest_def Let_def)
  moreover have file_text: "fs_read (ds_disk s1) (pr_localManifestPath res) = Some (serializeManifest ?m)"
    by (rule publish_manifest_local [OF run(4)])
  ultimately have "readManifest (ds_disk s1) (pr_localManifestPath res) = Inr ?m"
    using parse_serialize by (simp add: readManifest_def)
  then show ?thesis using file_text by (intro exI [of _ ?m]) (simp add: fs_exists_def fs_read_def)
qed

text \<open>An upload through the worker on the example cluster.\<close>

lemma toy_worker_config:
  "worker_put_config (qt_trimmed plain_qt) ''a:1,b:1'' [] 4 2 [] = Inr toy_config"
  by (simp add: worker_put_config_def parse_peers_collect [OF toy_list] plain_qt_def trim_ws_def default_config_def)
    (simp add: toy_config_def default_config_def trim_ws_def)

lemma toy_upload:
  "\<exists>signals s1 shareId localPath. worker_putFile toy_env None None (qt_trimmed plain_qt) ''a:1,b:1'' ''f'' [] 4 2 []
      (toy_state toy_cluster [(''f'', ''data'')]) = (signals, s1) \<and> last signals = Put_finished shareId localPath"
proof -
  let ?s = "toy_state toy_cluster [(''f'', ''data'')]"
  obtain res s1 where put: "putFile toy_env toy_config None None ''f'' ?s = (Inr res, s1)"
    using toy_run [of toy_config] by blast
  have "?s\<lparr>ds_progress := []\<rparr> = ?s" by (simp add: toy_state_def)
  then show ?thesis by (simp add: worker_putFile_def toy_worker_config put)
qed

text \<open>
  C25: The table of stored files tells the truth about files whose name is one word: when the
  worker reports a finished upload of such a file without encryption, the row added for it has
  the share id, the name of the file and its size, read back from the local manifest, the
  window is no longer busy, and the download button of the row asks the worker for this share
  id. The file has at most \<open>entries_max\<close> bytes, and the window has peers and the dialog an
  answer when the button is pressed. A name of two words gives another row, see below.
\<close>

theorem finished_upload_row:
  assumes "qt_documented q" "worker_putFile env rk ri (qt_trimmed q) peers path dir n replicas [] s = (signals, s1)"
    "last signals = Put_finished shareId localPath" "digest32 (en_sha256 env)" "fs_read (ds_disk s) path = Some content"
    "is_token (path_filename path)" "length content \<le> entries_max" "g_disk g = ds_disk s1" "trackerIp q g \<noteq> []" "dialog \<noteq> []"
  shows "g_files (on_signal (last signals) g) = g_files g @ [(shareId, path_filename path, show_u64 (of_nat (length content)))]
    \<and> \<not> g_busy (on_signal (last signals) g)
    \<and> g_posted (onDownloadButtonClicked q shareId (\<lambda>_. dialog) [] (on_signal (last signals) g))
        = g_posted g @ [Get_request (trackerIp q g) shareId dialog []]"
proof -
  have trim: "qt_trimmed q [] = []" using qt_laws(1) [OF assms(1), of "[]"] by (simp add: visible_ends_def)
  obtain cfg where cfg: "worker_put_config (qt_trimmed q) peers dir n replicas [] = Inr cfg" "cc_rsaPublicKeyPath cfg = []"
    using assms(2,3) trim
    by (cases "worker_put_config (qt_trimmed q) peers dir n replicas []")
      (auto simp: worker_putFile_def worker_put_config_def default_config_def Let_def split: if_splits)
  obtain res where res: "putFile env cfg rk ri path (s\<lparr>ds_progress := []\<rparr>) = (Inr res, s1)"
      "shareId = pr_shareUri res" "localPath = pr_localManifestPath res"
    using assms(2,3) cfg by (auto simp: worker_putFile_def split: prod.splits sum.splits)
  obtain m where m: "readManifest (ds_disk s1) localPath = Inr m" "mf_originalName m = path_filename path"
      "mf_originalSize m = of_nat (length content)" "fs_exists (ds_disk s1) localPath"
    using plain_put_local [OF res(1) cfg(2) assms(4) _ assms(6,7)] assms(5) res(3) by auto
  have "shareId \<noteq> []" using putFile_published [OF res(1)] res(2) by (auto simp: share_prefix_def)
  then show ?thesis
    using m assms(3,8-10) trim by (simp add: onPutFinished_def file_row_def trackerIp_def onDownloadButtonClicked_def Let_def)
qed

text \<open>
  When the name has a space in it the upload finishes all the same, but its manifest cannot
  be parsed, and the row says \<^verbatim>\<open>(unknown)\<close> and \<^verbatim>\<open>-\<close> for name and size.
\<close>

lemma spaced_upload_row:
  assumes "worker_putFile env rk ri trim peers path dir n replicas rsa s = (signals, s1)" "last signals = Put_finished shareId localPath"
    "path_filename path = a @ SP # b @ t" "is_token a" "is_token b" "b \<noteq> ''size''" "at_break t" "g_disk g = ds_disk s1"
  shows "g_files (on_signal (last signals) g) = g_files g @ [(shareId, ''(unknown)'', ''-'')]"
proof -
  obtain cfg res where res: "putFile env cfg rk ri path (s\<lparr>ds_progress := []\<rparr>) = (Inr res, s1)"
      "shareId = pr_shareUri res" "localPath = pr_localManifestPath res"
    using assms(1,2) by (auto simp: worker_putFile_def split: prod.splits sum.splits)
  obtain dht r m s' where m: "publish_manifest env cfg dht r m s' = (Inr res, s1)" "mf_originalName m = path_filename path"
    using res(1) by (auto simp: putFile_def Let_def split: if_splits sum.splits prod.splits option.splits)
  have "parseManifestText (serializeManifest m) = Inl (Runtime_error ''Malformed manifest (size)'')"
    using m(2) assms(3) spaced_name_not_parsed [OF _ assms(4-7)] by simp
  then obtain e where "readManifest (ds_disk s1) localPath = Inl e"
    using publish_manifest_local [OF m(1)] res(3) by (simp add: readManifest_def)
  then show ?thesis using assms(2,8) by (simp add: onPutFinished_def file_row_def Let_def)
qed

theorem finished_upload_row_witness:
  "\<exists>signals s1 shareId localPath. worker_putFile toy_env None None (qt_trimmed plain_qt) ''a:1,b:1'' ''f'' [] 4 2 []
      (toy_state toy_cluster [(''f'', ''data'')]) = (signals, s1) \<and> last signals = Put_finished shareId localPath
    \<and> g_files (on_signal (last signals) ((blank_gui no_settings (ds_disk s1))\<lparr>g_csv := ''a:1,b:1''\<rparr>)) = [(shareId, ''f'', ''4'')]"
proof -
  obtain signals s1 shareId localPath where
    w: "worker_putFile toy_env None None (qt_trimmed plain_qt) ''a:1,b:1'' ''f'' [] 4 2 [] (toy_state toy_cluster [(''f'', ''data'')])
        = (signals, s1)" "last signals = Put_finished shareId localPath" using toy_upload by blast
  let ?g = "(blank_gui no_settings (ds_disk s1))\<lparr>g_csv := ''a:1,b:1''\<rparr>"
  have "trackerIp plain_qt ?g = ''a:1,b:1''" by (simp add: trackerIp_def plain_qt_def trim_ws_def is_ws_def)
  moreover have "show_u64 (of_nat (length ''data'')) = ''4''" by code_simp
  ultimately have "g_files (on_signal (last signals) ?g) = [(shareId, ''f'', ''4'')]"
    using finished_upload_row [OF plain_qt_documented w, where content = "''data''" and g = ?g and dialog = "''o''"] toy_preconditions toy_setting
    by (simp add: blank_gui_def entries_max_def vector_char_max_def path_filename_def)
  then show ?thesis using w by blast
qed

end
