(* ===== verification/Window_Worker.thy ===== *)
theory Window_Worker
  imports Window_Peers
begin

text \<open>
  The two threads of the graphical client: the window posts calls to the worker object, which
  lives in a thread of its own, and the worker's signals come back as events, both through
  queues that keep their order (\<^verbatim>\<open>Qt::QueuedConnection\<close>). Shown are that every request is
  answered exactly once and in order, that the window never stays busy for nothing, and that
  without further input everything is answered after finitely many steps.
\<close>

section \<open>Requests and their answers\<close>

text \<open>The worker's slot for a request; \<open>rk\<close> and \<open>ri\<close> are the random bytes of the n-th call.\<close>

fun run_request ::
    "('w, 'c, 'k, 'x) dss_env \<Rightarrow> (nat \<Rightarrow> octet list option) \<Rightarrow> (nat \<Rightarrow> octet list option) \<Rightarrow> qt \<Rightarrow> nat
       \<Rightarrow> request \<Rightarrow> 'w dss_state \<Rightarrow> signal list \<times> 'w dss_state" where
  "run_request env rk ri q n (Put_request peers path dir chunkSize replicas pub) s =
     worker_putFile env (rk n) (ri n) (qt_trimmed q) peers path dir chunkSize replicas pub s"
| "run_request env rk ri q n (Get_request peers manifest out prv) s =
     worker_getFile env (qt_trimmed q) peers manifest out prv s"
| "run_request env rk ri q n (Repair_request peers replicas batch) s = (worker_repair, s)"

fun final :: "signal \<Rightarrow> bool" where
  "final (Progress_signal done tot message) \<longleftrightarrow> False"
| "final _ \<longleftrightarrow> True"

text \<open>Which final signals may answer a request.\<close>

fun answers :: "request \<Rightarrow> signal \<Rightarrow> bool" where
  "answers (Put_request peers path dir chunkSize replicas pub) (Put_finished shareId localPath) \<longleftrightarrow> True"
| "answers (Get_request peers manifest out prv) (Get_finished out') \<longleftrightarrow> out' = out"
| "answers r (Error_signal message) \<longleftrightarrow> True"
| "answers _ _ \<longleftrightarrow> False"

section \<open>The threads and their queues\<close>

text \<open>
  The calls posted so far are \<open>g_posted\<close> of the window, of which the worker has taken the
  first \<open>ap_taken\<close>; of the signals emitted so far the window has seen the first \<open>ap_seen\<close>.
  Both threads work on one disk, that of \<open>ap_state\<close>.
\<close>

record 'w app =
  ap_gui :: gui
  ap_taken :: nat
  ap_emitted :: "signal list"
  ap_seen :: nat
  ap_state :: "'w dss_state"

type_synonym 'w slots = "nat \<Rightarrow> request \<Rightarrow> 'w dss_state \<Rightarrow> signal list \<times> 'w dss_state"

definition window_of :: "'w app \<Rightarrow> gui" where
  "window_of a = (ap_gui a)\<lparr>g_disk := ds_disk (ap_state a)\<rparr>"

definition worker_takes :: "'w slots \<Rightarrow> 'w app \<Rightarrow> 'w app" where
  "worker_takes run a =
     (case run (ap_taken a) (g_posted (ap_gui a) ! ap_taken a) (ap_state a) of
        (signals, s) \<Rightarrow> a\<lparr>ap_taken := Suc (ap_taken a), ap_emitted := ap_emitted a @ signals, ap_state := s\<rparr>)"

definition window_sees :: "'w app \<Rightarrow> 'w app" where
  "window_sees a = a\<lparr>ap_gui := on_signal (ap_emitted a ! ap_seen a) (window_of a), ap_seen := Suc (ap_seen a)\<rparr>"

text \<open>What happens without the user: the worker takes the next call, the window the next signal.\<close>

inductive internal_step :: "'w slots \<Rightarrow> 'w app \<Rightarrow> 'w app \<Rightarrow> bool" for run where
  worker: "ap_taken a < length (g_posted (ap_gui a)) \<Longrightarrow> internal_step run a (worker_takes run a)"
| signal: "ap_seen a < length (ap_emitted a) \<Longrightarrow> internal_step run a (window_sees a)"

fun is_signal :: "gui_event \<Rightarrow> bool" where
  "is_signal (Worker_signal sg) \<longleftrightarrow> True"
| "is_signal _ \<longleftrightarrow> False"

inductive app_step :: "qt \<Rightarrow> (bytes \<Rightarrow> octet list) \<Rightarrow> 'w slots \<Rightarrow> 'w app \<Rightarrow> 'w app \<Rightarrow> bool" for q sha256 run where
  user: "\<not> is_signal e \<Longrightarrow> gui_step q sha256 e (window_of a) = Some g \<Longrightarrow>
    app_step q sha256 run a (a\<lparr>ap_gui := g, ap_state := (ap_state a)\<lparr>ds_disk := g_disk g\<rparr>\<rparr>)"
| internal: "internal_step run a a' \<Longrightarrow> app_step q sha256 run a a'"

definition new_app :: "gui \<Rightarrow> 'w dss_state \<Rightarrow> 'w app" where
  "new_app g s = \<lparr>ap_gui = g, ap_taken = 0, ap_emitted = [], ap_seen = 0, ap_state = s\<rparr>"

inductive_cases internal_stepE: "internal_step run a a'"
inductive_cases app_stepE: "app_step q sha256 run a a'"

section \<open>What the window does to its queue\<close>

text \<open>A step posts nothing and keeps the busy mark, or posts one request and sets it.\<close>

definition posts :: "gui \<Rightarrow> gui \<Rightarrow> bool" where
  "posts g g' \<longleftrightarrow> g_posted g' = g_posted g \<and> g_busy g' = g_busy g \<or> (\<exists>r. g_posted g' = g_posted g @ [r]) \<and> g_busy g'"

lemma posts_discover: "posts g (discoverPeersFromBootstrap q reach g') = posts g g'"
  by (simp add: posts_def discoverPeersFromBootstrap_def Let_def)

lemma drop_peer_posts: "drop_peer g = Some g' \<Longrightarrow> g_posted g' = g_posted g \<and> g_busy g' = g_busy g"
  by (auto dest: drop_peer_Some)

lemma start_posts:
  "startEmbeddedPeerIfEnabled spawns g = Some g' \<Longrightarrow> g_posted g' = g_posted g \<and> g_busy g' = g_busy g"
  by (auto simp: startEmbeddedPeerIfEnabled_def started_peer_start Let_def dest!: drop_peer_posts
      split: if_splits option.splits)

lemma restart_posts:
  assumes "restart_peer spawns g = Some g'"
  shows "g_posted g' = g_posted g \<and> g_busy g' = g_busy g"
proof -
  obtain g1 where "g1 = g \<or> g1 = g\<lparr>g_peer := None\<rparr>" "startEmbeddedPeerIfEnabled spawns g1 = Some g'"
    using assms stop_peer_Some [of g] by (auto simp: restart_peer_def split: option.splits if_splits)
  then show ?thesis using start_posts by fastforce
qed

lemma clicks_post:
  "posts g (onPutClicked q path chunk replicas rsa g)" "posts g (onGetClicked q m out rsa g)"
  "posts g (onRepairClicked q replicas batch g)" "posts g (onDownloadButtonClicked q shareId dialog rsa g)"
  by (simp_all add: posts_def warn_def onPutClicked_def onGetClicked_def onRepairClicked_def onDownloadButtonClicked_def Let_def)

lemma posts_simps: "posts g (g\<lparr>g_peer := e\<rparr>)"
  by (simp add: posts_def)

lemma user_posts:
  assumes "\<not> is_signal e" "gui_step q sha256 e g = Some g'"
  shows "posts g g'"
proof (cases e)
  case (Apply reach spawns f)
  then have "onApplySettingsClicked q reach spawns f g = Some g'" using assms(2) by simp
  then show ?thesis
    by (auto simp: onApplySettingsClicked_def Let_def posts_discover posts_def warn_def split: if_splits prod.splits
        dest!: restart_posts) (auto simp: discoverPeersFromBootstrap_def Let_def)
next
  case (Apply_network reach spawns adv seeds)
  then have "onApplyNetworkSettingsClicked q reach spawns adv seeds g = Some g'" using assms(2) by simp
  then show ?thesis
    by (auto simp: onApplyNetworkSettingsClicked_def load_seeds Let_def posts_def warn_def split: if_splits
        dest!: restart_posts) (auto simp: discoverPeersFromBootstrap_def Let_def)
next
  case (Refresh reach)
  then show ?thesis
    using assms(2) by (auto simp: refreshPeerMonitor_def Let_def result_iff posts_def discoverPeersFromBootstrap_def split: sum.splits)
qed (use assms clicks_post posts_simps in auto)

lemma posts_window_of: "posts (window_of a) g = posts (ap_gui a) g"
  by (simp add: posts_def window_of_def)

lemma on_signal_queue [simp]:
  "g_posted (on_signal sg g) = g_posted g" "g_busy (on_signal sg g) = (g_busy g \<and> \<not> final sg)"
  by (cases sg; simp add: onPutFinished_def onGetFinished_def onError_def warn_def)+

section \<open>The invariant of the queues\<close>

text \<open>A call that was not taken, or a final signal that was not seen.\<close>

definition outstanding :: "'w app \<Rightarrow> bool" where
  "outstanding a \<longleftrightarrow> ap_taken a < length (g_posted (ap_gui a)) \<or> (\<exists>x \<in> set (drop (ap_seen a) (ap_emitted a)). final x)"

definition app_inv :: "'w app \<Rightarrow> bool" where
  "app_inv a \<longleftrightarrow> ap_taken a \<le> length (g_posted (ap_gui a)) \<and> ap_seen a \<le> length (ap_emitted a)
     \<and> list_all2 answers (take (ap_taken a) (g_posted (ap_gui a))) (filter final (ap_emitted a))
     \<and> (g_busy (ap_gui a) \<longrightarrow> outstanding a)"

text \<open>Calls still to be taken, then signals still to be seen.\<close>

definition work :: "'w app \<Rightarrow> nat \<times> nat" where
  "work a = (length (g_posted (ap_gui a)) - ap_taken a, length (ap_emitted a) - ap_seen a)"

section \<open>The contract of the worker\<close>

text \<open>A slot emits progress, and then one final signal that fits the request.\<close>

locale worker =
  fixes run :: "'w slots"
  assumes one_answer: "run n r s = (signals, s') \<Longrightarrow>
    \<exists>steps last. signals = steps @ [last] \<and> (\<forall>x \<in> set steps. \<not> final x) \<and> final last \<and> answers r last"
begin

lemma app_inv_new: "g_posted g = [] \<Longrightarrow> \<not> g_busy g \<Longrightarrow> app_inv (new_app g s)"
  by (simp add: app_inv_def new_app_def)

lemma app_inv_user:
  assumes "app_inv a" "posts (ap_gui a) g"
  shows "app_inv (a\<lparr>ap_gui := g, ap_state := s\<rparr>)"
  using assms by (auto simp: app_inv_def posts_def outstanding_def)

lemma app_inv_worker:
  assumes "app_inv a" "ap_taken a < length (g_posted (ap_gui a))"
  shows "app_inv (worker_takes run a)"
proof -
  let ?r = "g_posted (ap_gui a) ! ap_taken a"
  obtain signals s where run: "run (ap_taken a) ?r (ap_state a) = (signals, s)" by fastforce
  obtain steps last where sg: "signals = steps @ [last]" "\<forall>x \<in> set steps. \<not> final x" "final last" "answers ?r last"
    using one_answer [OF run] by blast
  have "filter final signals = [last]" using sg(1-3) by (simp add: filter_empty_conv)
  then show ?thesis
    using assms sg
    by (auto simp: app_inv_def worker_takes_def run outstanding_def take_Suc_conv_app_nth intro!: list_all2_appendI)
qed

lemma app_inv_signal:
  assumes "app_inv a" "ap_seen a < length (ap_emitted a)"
  shows "app_inv (window_sees a)"
proof -
  have "drop (ap_seen a) (ap_emitted a) = ap_emitted a ! ap_seen a # drop (Suc (ap_seen a)) (ap_emitted a)"
    using assms(2) by (simp add: Cons_nth_drop_Suc)
  then show ?thesis using assms by (auto simp: app_inv_def window_sees_def window_of_def outstanding_def)
qed

lemma app_inv_internal: "internal_step run a a' \<Longrightarrow> app_inv a \<Longrightarrow> app_inv a'"
  by (auto elim!: internal_stepE intro: app_inv_worker app_inv_signal)

lemma app_inv_internals: "(internal_step run)\<^sup>*\<^sup>* a a' \<Longrightarrow> app_inv a \<Longrightarrow> app_inv a'"
  by (induction rule: rtranclp_induct) (auto intro: app_inv_internal)

lemma app_inv_step: "app_step q sha256 run a a' \<Longrightarrow> app_inv a \<Longrightarrow> app_inv a'"
proof (induction rule: app_step.induct)
  case (user e a g)
  then have "posts (ap_gui a) g" using user_posts posts_window_of by blast
  then show ?case using app_inv_user user.prems by blast
qed (rule app_inv_internal)

lemma app_inv_reach: "(app_step q sha256 run)\<^sup>*\<^sup>* a a' \<Longrightarrow> app_inv a \<Longrightarrow> app_inv a'"
  by (induction rule: rtranclp_induct) (auto intro: app_inv_step)

lemma internal_less: "internal_step run a a' \<Longrightarrow> (work a', work a) \<in> less_than <*lex*> less_than"
  by (auto simp: work_def worker_takes_def window_sees_def window_of_def split: prod.splits elim!: internal_stepE)

lemma internal_ends: "\<exists>n. \<not> internal_step run (f n) (f (Suc n))"
proof (rule ccontr)
  assume "\<not> ?thesis"
  then have "(work (f (Suc n)), work (f n)) \<in> less_than <*lex*> less_than" for n using internal_less by blast
  then have "\<exists>g. \<forall>n. (g (Suc n), g n) \<in> (less_than <*lex*> less_than :: ((nat \<times> nat) \<times> nat \<times> nat) set)"
    by (intro exI [of _ "\<lambda>n. work (f n)"]) blast
  moreover have "wf (less_than <*lex*> less_than :: ((nat \<times> nat) \<times> nat \<times> nat) set)" by (intro wf_lex_prod wf_less_than)
  ultimately show False unfolding wf_iff_no_infinite_down_chain by blast
qed

lemma quiet_answered:
  assumes "app_inv a" "\<nexists>a'. internal_step run a a'"
  shows "list_all2 answers (g_posted (ap_gui a)) (filter final (take (ap_seen a) (ap_emitted a))) \<and> \<not> g_busy (ap_gui a)"
proof -
  have "\<not> ap_taken a < length (g_posted (ap_gui a))" "\<not> ap_seen a < length (ap_emitted a)"
    using assms(2) internal_step.intros [of a run] by blast+
  then show ?thesis using assms(1) by (simp add: app_inv_def outstanding_def)
qed

end

lemma signals_of_run:
  "\<exists>steps last. map runProgress ps @ [x] = steps @ [last] \<and> (\<forall>x \<in> set steps. \<not> final x) \<and> last = x"
  by (auto simp: runProgress_def)

lemma run_request_answers:
  assumes "run_request env rk ri q n r s = (signals, s')"
  shows "\<exists>steps last. signals = steps @ [last] \<and> (\<forall>x \<in> set steps. \<not> final x) \<and> final last \<and> answers r last"
proof (cases r)
  case (Put_request peers path dir chunkSize replicas pub)
  then show ?thesis
    using assms by (auto simp: worker_putFile_def runProgress_def split: sum.splits prod.splits)
next
  case (Get_request peers manifest out prv)
  then show ?thesis
    using assms by (auto simp: worker_getFile_def runProgress_def split: sum.splits prod.splits)
next
  case (Repair_request peers replicas batch)
  then show ?thesis using assms by (auto simp: worker_repair_def)
qed

interpretation dss_worker: worker "run_request env rk ri q" for env rk ri q
  by unfold_locales (rule run_request_answers)

section \<open>Every request is answered\<close>

lemma opened_idle:
  assumes "MainWindow q a reach spawns se d = Some g"
  shows "g_posted g = [] \<and> \<not> g_busy g"
proof -
  obtain g1 where g1: "startEmbeddedPeerIfEnabled spawns (loadOrPromptPeerSettings q a (blank_gui se d)) = Some g1"
      "g = discoverPeersFromBootstrap q reach g1"
    using assms by (auto simp: MainWindow_def)
  have "g_posted (loadOrPromptPeerSettings q a h) = g_posted h \<and> g_busy (loadOrPromptPeerSettings q a h) = g_busy h" for h
    by (simp add: loadOrPromptPeerSettings_def load_seeds prompt_settings_def read_settings_def Let_def)
  then have "g_posted g1 = [] \<and> \<not> g_busy g1" using start_posts [OF g1(1)] by (simp add: blank_gui_def)
  then show ?thesis by (simp add: g1(2) discoverPeersFromBootstrap_def Let_def)
qed

text \<open>
  C10: From the opening of the window on, however the user, the worker's thread and the
  window's event loop interleave, the final signals of the worker answer the requests it has
  taken one by one and in the order of the clicks, each with a signal of its kind, and the
  window shows that it is busy only while a call or a final signal is under way.
\<close>

theorem answered_in_order:
  assumes "MainWindow q fr reach spawns se d = Some g" "run = run_request env rk ri q"
    "(app_step q sha256 run)\<^sup>*\<^sup>* (new_app g s) a"
  shows "list_all2 answers (take (ap_taken a) (g_posted (ap_gui a))) (filter final (ap_emitted a))
    \<and> (g_busy (ap_gui a) \<longrightarrow> outstanding a)"
proof -
  have "app_inv (new_app g s)" using opened_idle [OF assms(1)] by (intro dss_worker.app_inv_new) auto
  then have "app_inv a" using dss_worker.app_inv_reach assms(3) unfolding assms(2) by blast
  then show ?thesis by (simp add: app_inv_def)
qed

text \<open>
  C11: Left alone, the client comes to rest: from every reachable state the two threads can
  make only finitely many steps without the user, and when neither can move, every request
  has been answered, in order, the window has seen all answers, and it is not busy.
\<close>

theorem requests_come_to_rest:
  assumes "MainWindow q fr reach spawns se d = Some g" "run = run_request env rk ri q"
    "(app_step q sha256 run)\<^sup>*\<^sup>* (new_app g s) a"
  shows "(\<nexists>f. f 0 = a \<and> (\<forall>n. internal_step run (f n) (f (Suc n))))
    \<and> (\<forall>a'. (internal_step run)\<^sup>*\<^sup>* a a' \<and> (\<nexists>a''. internal_step run a' a'') \<longrightarrow>
         list_all2 answers (g_posted (ap_gui a')) (filter final (take (ap_seen a') (ap_emitted a'))) \<and> \<not> g_busy (ap_gui a'))"
proof -
  have "app_inv (new_app g s)" using opened_idle [OF assms(1)] by (intro dss_worker.app_inv_new) auto
  then have "app_inv a" using dss_worker.app_inv_reach assms(3) unfolding assms(2) by blast
  then have "app_inv a'" if "(internal_step run)\<^sup>*\<^sup>* a a'" for a'
    using that dss_worker.app_inv_internals unfolding assms(2) by blast
  then show ?thesis
    using dss_worker.internal_ends [of env rk ri q] dss_worker.quiet_answered [of _ env rk ri q] unfolding assms(2) by blast
qed

section \<open>A session with one download\<close>

lemma start_running:
  "g_enabled g \<Longrightarrow> g_storageDir g \<noteq> [] \<Longrightarrow> g_peer g = None \<Longrightarrow> \<exists>g'. startEmbeddedPeerIfEnabled True g = Some g' \<and> hadRunning g'"
  by (simp add: startEmbeddedPeerIfEnabled_def started_peer_start drop_peer_def hadRunning_def isRunning_def started_peer_def Let_def)

text \<open>The first run of the program, with the embedded peer enabled and its own address reachable.\<close>

lemma first_window:
  "\<exists>g. MainWindow plain_qt usual_answers (\<lambda>h p. h = ''127.0.0.1'') True no_settings (open_disk []) = Some g
    \<and> trackerIp plain_qt g \<noteq> []"
proof -
  let ?r = "\<lambda>h p. h = ''127.0.0.1''" and ?g0 = "loadOrPromptPeerSettings plain_qt usual_answers (blank_gui no_settings (open_disk []))"
  have g0: "g_enabled ?g0" "g_peer ?g0 = None" "g_advertiseIp ?g0 = ''127.0.0.1''" "g_port ?g0 = 9101" "g_storageDir ?g0 \<noteq> []"
    by (simp_all add: loadOrPromptPeerSettings_def load_seeds prompt_settings_def usual_answers_def no_settings_def setting_def
        blank_gui_def app_data_def plain_qt_def trim_ws_def is_ws_def Let_def)
  then obtain g1 where g1: "startEmbeddedPeerIfEnabled True ?g0 = Some g1" "hadRunning g1"
    using start_running by blast
  have c: "g_enabled g1" "g_advertiseIp g1 = ''127.0.0.1''" "g_port g1 = 9101"
    using start_peer_Some [OF g1(1)] g0 by (simp_all add: config_of_def)
  have "\<forall>ep \<in> reachable_seeds plain_qt ?r (g_bootstrap g1). host_text (ip ep)"
    using local_host by (auto simp: reachable_seeds_def)
  then have "trackerIp plain_qt (discoverPeersFromBootstrap plain_qt ?r g1) = [] \<longleftrightarrow> reachable_peers plain_qt ?r g1 = {}"
    using discover_reads_back [OF plain_qt_documented, of ?r g1] local_host by (auto simp: c port_ok_def)
  moreover have "reachable_peers plain_qt ?r g1 \<noteq> {}" using g1(2) c(1) by (simp add: reachable_peers_def)
  ultimately show ?thesis using g1(1) by (simp add: MainWindow_def)
qed

lemma one_click:
  "\<exists>g a r. MainWindow plain_qt usual_answers (\<lambda>h p. h = ''127.0.0.1'') True no_settings (open_disk []) = Some g
    \<and> (app_step plain_qt sha256 run)\<^sup>*\<^sup>* (new_app g s) a \<and> g_posted (ap_gui a) = [r] \<and> ap_taken a = 0 \<and> ap_emitted a = []"
proof -
  obtain g where g: "MainWindow plain_qt usual_answers (\<lambda>h p. h = ''127.0.0.1'') True no_settings (open_disk []) = Some g"
      "trackerIp plain_qt g \<noteq> []" using first_window by blast
  let ?a = "new_app g s"
  have "trackerIp plain_qt (window_of ?a) \<noteq> []" "g_posted (window_of ?a) = []"
    using g(2) opened_idle [OF g(1)] by (simp_all add: trackerIp_def window_of_def new_app_def)
  then obtain g1 r where g1: "gui_step plain_qt sha256 (Get_click ''m'' ''o'' []) (window_of ?a) = Some g1" "g_posted g1 = [r]"
    by (simp add: onGetClicked_def plain_qt_def trim_ws_def is_ws_def Let_def)
  then have "app_step plain_qt sha256 run ?a (?a\<lparr>ap_gui := g1, ap_state := (ap_state ?a)\<lparr>ds_disk := g_disk g1\<rparr>\<rparr>)"
    by (intro app_step.user [of "Get_click ''m'' ''o'' []"]) simp_all
  then show ?thesis using g(1) g1(2)
    by (intro exI [of _ g] exI [of _ "?a\<lparr>ap_gui := g1, ap_state := (ap_state ?a)\<lparr>ds_disk := g_disk g1\<rparr>\<rparr>"] exI [of _ r])
      (auto simp: new_app_def)
qed

theorem answered_in_order_witness:
  "\<exists>g a. MainWindow plain_qt usual_answers (\<lambda>h p. h = ''127.0.0.1'') True no_settings (open_disk []) = Some g
    \<and> (app_step plain_qt toy_sha (run_request toy_env (\<lambda>_. None) (\<lambda>_. None) plain_qt))\<^sup>*\<^sup>* (new_app g (toy_state toy_cluster [])) a
    \<and> ap_taken a = 1 \<and> length (filter final (ap_emitted a)) = 1"
proof -
  let ?run = "run_request toy_env (\<lambda>_. None) (\<lambda>_. None) plain_qt"
  obtain g a r where a: "MainWindow plain_qt usual_answers (\<lambda>h p. h = ''127.0.0.1'') True no_settings (open_disk []) = Some g"
      "(app_step plain_qt toy_sha ?run)\<^sup>*\<^sup>* (new_app g (toy_state toy_cluster [])) a" "g_posted (ap_gui a) = [r]" "ap_taken a = 0"
    using one_click [of toy_sha ?run] by blast
  then have "app_step plain_qt toy_sha ?run a (worker_takes ?run a)"
    by (intro app_step.internal internal_step.worker) simp
  with a(2) have reach: "(app_step plain_qt toy_sha ?run)\<^sup>*\<^sup>* (new_app g (toy_state toy_cluster [])) (worker_takes ?run a)" by simp
  have taken: "ap_taken (worker_takes ?run a) = 1" "g_posted (ap_gui (worker_takes ?run a)) = [r]"
    using a(3,4) by (simp_all add: worker_takes_def split: prod.split)
  have "list_all2 answers (take 1 [r]) (filter final (ap_emitted (worker_takes ?run a)))"
    using answered_in_order [OF a(1) refl reach] by (simp only: taken)
  then have "length (filter final (ap_emitted (worker_takes ?run a))) = 1" using list_all2_lengthD by fastforce
  then show ?thesis using a(1) reach taken(1) by blast
qed

theorem requests_come_to_rest_witness:
  "\<exists>g a r. MainWindow plain_qt usual_answers (\<lambda>h p. h = ''127.0.0.1'') True no_settings (open_disk []) = Some g
    \<and> (app_step plain_qt toy_sha (run_request toy_env (\<lambda>_. None) (\<lambda>_. None) plain_qt))\<^sup>*\<^sup>* (new_app g (toy_state toy_cluster [])) a
    \<and> g_posted (ap_gui a) = [r] \<and> ap_taken a = 0
    \<and> \<not> (\<exists>f. f 0 = a \<and> (\<forall>n. internal_step (run_request toy_env (\<lambda>_. None) (\<lambda>_. None) plain_qt) (f n) (f (Suc n))))"
proof -
  let ?run = "run_request toy_env (\<lambda>_. None) (\<lambda>_. None) plain_qt"
  obtain g a r where a: "MainWindow plain_qt usual_answers (\<lambda>h p. h = ''127.0.0.1'') True no_settings (open_disk []) = Some g"
      "(app_step plain_qt toy_sha ?run)\<^sup>*\<^sup>* (new_app g (toy_state toy_cluster [])) a" "g_posted (ap_gui a) = [r]" "ap_taken a = 0"
    using one_click [of toy_sha ?run] by blast
  then show ?thesis using requests_come_to_rest [OF a(1) refl a(2)] by blast
qed

end
