(* ===== verification/Window_Display.thy ===== *)
theory Window_Display
  imports Window_Worker
begin

text \<open>
  What the user sees of the work: the progress reports of an upload or download, and the
  calls the window makes on its progress bar, log, labels and message boxes. Shown are that
  the reports count the chunks one by one, that the bar is only visible while there is work,
  and that it is never told a value outside its range by transfers of fewer than \<open>2 ^ 32\<close>
  chunks, although the counters are \<^verbatim>\<open>int\<close>s.
\<close>

section \<open>Progress reports\<close>

definition reports :: "string \<Rightarrow> nat \<Rightarrow> nat \<Rightarrow> progress list" where
  "reports message n m =
     map (\<lambda>k. \<lparr>pg_done = int_of_size k, pg_total = int_of_size n, pg_message = message\<rparr>) [1..<Suc m]"

text \<open>The reports of a loop that starts at \<open>k\<close>: one for each chunk that went through.\<close>

definition reports_from :: "string \<Rightarrow> int \<Rightarrow> nat \<Rightarrow> nat \<Rightarrow> progress list" where
  "reports_from message tot k m =
     map (\<lambda>j. \<lparr>pg_done = int_of_size j, pg_total = tot, pg_message = message\<rparr>) [Suc k..<Suc (k + m)]"

lemma int_succ_of_size: "int_succ (int_of_size k) = int_of_size (Suc k)"
proof -
  have "(word_of_int (sint (of_nat k :: 32 word) + 1) :: 32 word) = of_nat (Suc k)" by simp
  then show ?thesis by (simp only: int_succ_def int_of_size_def)
qed

lemma int_of_size_0: "int_of_size 0 = 0"
  by (simp add: int_of_size_def)

lemma reports_from_Cons:
  "reports_from message tot k (Suc m)
   = \<lparr>pg_done = int_of_size (Suc k), pg_total = tot, pg_message = message\<rparr> # reports_from message tot (Suc k) m"
  by (simp add: reports_from_def upt_conv_Cons del: upt_Suc)

lemma reports_from_simps [simp]:
  "reports_from message tot k 0 = []" "reports_from message (int_of_size n) 0 m = reports message n m"
  by (simp_all add: reports_from_def reports_def)

lemma put_chunks_reports:
  assumes "put_chunks env dht replicas keys tot (int_of_size k) idx cs s = (r, s')"
  shows "\<exists>m \<le> length cs. ds_progress s' = ds_progress s @ reports_from ''Uploading chunks'' tot k m
    \<and> (\<forall>cids. r = Inr cids \<longrightarrow> m = length cs)"
  using assms
proof (induction cs arbitrary: k idx s r)
  case (Cons c cs)
  show ?case
  proof (cases "put_one_chunk env dht replicas keys idx c (ds_world s)")
    case (Pair r1 w)
    let ?s1 = "s\<lparr>ds_world := w, ds_progress := ds_progress s
      @ [\<lparr>pg_done = int_of_size (Suc k), pg_total = tot, pg_message = ''Uploading chunks''\<rparr>]\<rparr>"
    show ?thesis
    proof (cases r1)
      case (Inl e)
      then show ?thesis using Pair Cons.prems by (intro exI [of _ 0]) auto
    next
      case (Inr cid)
      obtain r2 where rest: "put_chunks env dht replicas keys tot (int_of_size (Suc k)) (idx + 1) cs ?s1 = (r2, s')"
          "(\<exists>cids. r = Inr cids) \<longrightarrow> (\<exists>cids. r2 = Inr cids)"
        using Inr Pair Cons.prems by (auto simp: Let_def int_succ_of_size split: prod.splits sum.splits)
      obtain m where "m \<le> length cs" "ds_progress s' = ds_progress ?s1 @ reports_from ''Uploading chunks'' tot (Suc k) m"
          "\<forall>cids. r2 = Inr cids \<longrightarrow> m = length cs"
        using Cons.IH [OF rest(1)] by blast
      with rest(2) show ?thesis by (intro exI [of _ "Suc m"]) (auto simp: reports_from_Cons)
    qed
  qed
qed auto

lemma fetch_chunks_reports:
  assumes "fetch_chunks env cfg dht keys tot (int_of_size k) idx cids s = (r, content, s')"
  shows "\<exists>m \<le> length cids. ds_progress s' = ds_progress s @ reports_from ''Downloading chunks'' tot k m
    \<and> (r = Inr () \<longrightarrow> m = length cids)"
  using assms
proof (induction cids arbitrary: k idx s content)
  case (Cons cid cids)
  show ?case
  proof (cases "\<exists>cs plain df w. candidates env cfg dht cid = Inr cs \<and> fetch_chunk env keys idx cid cs (ds_world s) = (Some plain, df, w)")
    case False
    then have "ds_progress s' = ds_progress s \<and> r \<noteq> Inr ()"
      using Cons.prems by (auto simp: Let_def split: sum.splits prod.splits option.splits)
    then show ?thesis by (intro exI [of _ 0]) auto
  next
    case True
    then obtain cs plain df w where f: "candidates env cfg dht cid = Inr cs"
      "fetch_chunk env keys idx cid cs (ds_world s) = (Some plain, df, w)" by blast
    let ?s2 = "s\<lparr>ds_world := w, ds_double_free := ds_double_free s \<or> df, ds_progress := ds_progress s
      @ [\<lparr>pg_done = int_of_size (Suc k), pg_total = tot, pg_message = ''Downloading chunks''\<rparr>]\<rparr>"
    obtain content' where rest: "fetch_chunks env cfg dht keys tot (int_of_size (Suc k)) (idx + 1) cids ?s2 = (r, content', s')"
      using f Cons.prems by (auto simp: Let_def int_succ_of_size split: prod.splits)
    obtain m where "m \<le> length cids" "ds_progress s' = ds_progress ?s2 @ reports_from ''Downloading chunks'' tot (Suc k) m"
        "r = Inr () \<longrightarrow> m = length cids"
      using Cons.IH [OF rest] by blast
    then show ?thesis by (intro exI [of _ "Suc m"]) (auto simp: reports_from_Cons)
  qed
qed auto

text \<open>How many chunks an upload or a download has to move.\<close>

definition put_total :: "client_config \<Rightarrow> string \<Rightarrow> disk \<Rightarrow> nat" where
  "put_total cfg path d = (case chunkFile d path (cc_chunkSize cfg) of Inl _ \<Rightarrow> 0 | Inr chunks \<Rightarrow> length chunks)"

definition get_total :: "('w, 'c, 'k, 'x) dss_env \<Rightarrow> client_config \<Rightarrow> string \<Rightarrow> 'w dss_state \<Rightarrow> nat" where
  "get_total env cfg ref s =
     (case DhtNode (en_sha256 env) (cc_peers cfg) of
        Inl _ \<Rightarrow> 0
      | Inr dht \<Rightarrow> (case resolve_manifest env cfg dht ref s of (Inl _, _) \<Rightarrow> 0 | (Inr m, _) \<Rightarrow> length (mf_chunks m)))"

fun chunk_total :: "('w, 'c, 'k, 'x) dss_env \<Rightarrow> qt \<Rightarrow> request \<Rightarrow> 'w dss_state \<Rightarrow> nat" where
  "chunk_total env q (Put_request peers path dir chunkSize replicas pub) s =
     (case worker_put_config (qt_trimmed q) peers dir chunkSize replicas pub of
        Inl _ \<Rightarrow> 0 | Inr cfg \<Rightarrow> put_total cfg path (ds_disk s))"
| "chunk_total env q (Get_request peers manifest out prv) s =
     (case worker_get_config (qt_trimmed q) peers prv of
        Inl _ \<Rightarrow> 0 | Inr cfg \<Rightarrow> get_total env cfg manifest (s\<lparr>ds_progress := []\<rparr>))"
| "chunk_total env q (Repair_request peers replicas batch) s = 0"

lemma putFile_reports:
  assumes "putFile env cfg rk ri path s = (r, s')"
  shows "\<exists>m \<le> put_total cfg path (ds_disk s). ds_progress s' = ds_progress s @ reports ''Uploading chunks'' (put_total cfg path (ds_disk s)) m
    \<and> (\<forall>res. r = Inr res \<longrightarrow> m = put_total cfg path (ds_disk s) \<and> (\<exists>chunks. chunkFile (ds_disk s) path (cc_chunkSize cfg) = Inr chunks))"
proof (cases "\<exists>dht key chunks. DhtNode (en_sha256 env) (cc_peers cfg) = Inr dht \<and> make_file_key env cfg rk ri (ds_disk s) = Inr key
    \<and> chunkFile (ds_disk s) path (cc_chunkSize cfg) = Inr chunks \<and> cc_peers cfg \<noteq> [] \<and> fs_read (ds_disk s) path \<noteq> None")
  case False
  then have "s' = s \<and> (\<exists>e. r = Inl e)"
    using assms by (auto simp: putFile_def Let_def split: if_splits sum.splits option.splits)
  then show ?thesis by (intro exI [of _ 0]) (auto simp: reports_def)
next
  case True
  then obtain dht key chunks content where pre: "DhtNode (en_sha256 env) (cc_peers cfg) = Inr dht"
      "make_file_key env cfg rk ri (ds_disk s) = Inr key" "chunkFile (ds_disk s) path (cc_chunkSize cfg) = Inr chunks"
      "cc_peers cfg \<noteq> []" "fs_read (ds_disk s) path = Some content" by blast
  obtain r1 s1 where c: "put_chunks env dht (clamp_replicas cfg) (map_option fst key) (int_of_size (length chunks)) 0 0
      (map ck_bytes chunks) s = (r1, s1)" by fastforce
  obtain m where m: "m \<le> length chunks" "ds_progress s1 = ds_progress s @ reports ''Uploading chunks'' (length chunks) m"
      "\<forall>cids. r1 = Inr cids \<longrightarrow> m = length chunks"
    using put_chunks_reports [of _ _ _ _ _ 0, unfolded int_of_size_0, OF c] by auto
  have "ds_progress s' = ds_progress s1 \<and> (\<forall>res. r = Inr res \<longrightarrow> (\<exists>cids. r1 = Inr cids))"
    using assms pre c
    by (auto simp: putFile_def publish_manifest_def Let_def split: sum.splits prod.splits)
  moreover have "put_total cfg path (ds_disk s) = length chunks" using pre(3) by (simp add: put_total_def)
  ultimately show ?thesis using m pre(3) by (intro exI [of _ m]) auto
qed

lemma getFile_reports:
  assumes "getFile env cfg ref out s = (r, s')"
  shows "\<exists>m \<le> get_total env cfg ref s. ds_progress s' = ds_progress s @ reports ''Downloading chunks'' (get_total env cfg ref s) m
    \<and> (r = Inr () \<longrightarrow> m = get_total env cfg ref s)"
proof -
  have res: "ds_progress s1 = ds_progress s" if "resolve_manifest env cfg dht ref s = (x, s1)" for dht x s1
    using that by (auto simp: resolve_manifest_def Let_def split: if_splits sum.splits prod.splits option.splits)
  have written: "\<exists>m \<le> length (mf_chunks mf). ds_progress s2 = ds_progress s1 @ reports ''Downloading chunks'' (length (mf_chunks mf)) m
      \<and> (x = Inr () \<longrightarrow> m = length (mf_chunks mf))"
    if "write_output env cfg dht keys mf out s1 = (x, s2)" for dht keys mf x s1 s2
  proof (cases "fs_write (ds_disk s1) out []")
    case None
    then show ?thesis using that by (intro exI [of _ 0]) (auto simp: write_output_def reports_def)
  next
    case (Some d)
    obtain y content s3 where f: "fetch_chunks env cfg dht keys (int_of_size (length (mf_chunks mf))) 0 0 (mf_chunks mf)
        (s1\<lparr>ds_disk := d\<rparr>) = (y, content, s3)" by (metis surj_pair)
    then have "x = y" "ds_progress s2 = ds_progress s3" using that Some by (auto simp: write_output_def)
    then show ?thesis using fetch_chunks_reports [of _ _ _ _ _ 0, unfolded int_of_size_0, OF f] by auto
  qed
  have "ds_progress s' = ds_progress s \<and> r \<noteq> Inr ()
      \<or> (\<exists>dht keys mf s1 b. DhtNode (en_sha256 env) (cc_peers cfg) = Inr dht \<and> resolve_manifest env cfg dht ref s = (Inr mf, s1)
          \<and> write_output env cfg dht keys mf out (s1\<lparr>ds_double_free := b\<rparr>) = (r, s') \<and> ds_progress s1 = ds_progress s)"
    using assms by (auto simp: getFile_def Let_def dest: res split: if_splits sum.splits prod.splits)
  then show ?thesis
  proof (elim disjE exE conjE)
    assume "ds_progress s' = ds_progress s" "r \<noteq> Inr ()"
    then show ?thesis by (intro exI [of _ 0]) (simp add: reports_def)
  next
    fix dht keys mf s1 b
    assume w: "DhtNode (en_sha256 env) (cc_peers cfg) = Inr dht" "resolve_manifest env cfg dht ref s = (Inr mf, s1)"
      "write_output env cfg dht keys mf out (s1\<lparr>ds_double_free := b\<rparr>) = (r, s')" "ds_progress s1 = ds_progress s"
    have "get_total env cfg ref s = length (mf_chunks mf)" using w(1,2) by (simp add: get_total_def)
    then show ?thesis using written [OF w(3)] w(4) by simp
  qed
qed

text \<open>Progress that lies between nothing and the whole, as it does for fewer than \<open>2 ^ 31\<close> chunks.\<close>

definition counted :: "signal \<Rightarrow> bool" where
  "counted sg \<longleftrightarrow> (\<forall>done tot message. sg = Progress_signal done tot message \<longrightarrow> 0 \<le> done \<and> done \<le> tot)"

lemma reports_counted: "m \<le> n \<Longrightarrow> n < 2 ^ 31 \<Longrightarrow> \<forall>sg \<in> set (map runProgress (reports message n m)). counted sg"
  by (auto simp: reports_def runProgress_def counted_def int_of_size_small)

text \<open>What \<^verbatim>\<open>onProgress\<close> needs: progress that lies in its range when the total is positive.\<close>

definition in_range :: "signal \<Rightarrow> bool" where
  "in_range sg \<longleftrightarrow> (\<forall>done tot message. sg = Progress_signal done tot message \<and> tot > 0 \<longrightarrow> 0 \<le> done \<and> done \<le> tot)"

text \<open>From \<open>2 ^ 31\<close> chunks on the total is negative, and \<^verbatim>\<open>onProgress\<close> leaves the bar alone.\<close>

lemma int_of_size_pos:
  assumes "0 < int_of_size n" "n < 2 ^ 32"
  shows "n < 2 ^ 31"
proof (rule ccontr)
  assume "\<not> n < 2 ^ 31"
  then have "0 \<le> int n - 2 ^ 31" "int n - 2 ^ 31 < 2 ^ 32" using assms(2) by simp_all
  then have "(int n - 2 ^ 31 + 2 ^ 32) mod 2 ^ 32 = int n - 2 ^ 31" unfolding mod_add_self2 by (rule mod_pos_pos_trivial)
  then have "(int n + 2 ^ 31) mod 2 ^ 32 = int n - 2 ^ 31" by (simp add: add.commute)
  then have "int_of_size n = int n - 2 ^ 32"
    by (simp add: int_of_size_def signed_of_nat signed_take_bit_eq_take_bit_shift take_bit_eq_mod)
  then show False using assms by simp
qed

lemma reports_in_range: "m \<le> n \<Longrightarrow> n < 2 ^ 32 \<Longrightarrow> \<forall>sg \<in> set (map runProgress (reports message n m)). in_range sg"
  using int_of_size_pos [of n] by (auto simp: reports_def runProgress_def in_range_def int_of_size_small)

lemma final_in_range: "final sg \<Longrightarrow> in_range sg"
  by (cases sg) (simp_all add: in_range_def)

lemma final_counted: "final sg \<Longrightarrow> counted sg"
  by (cases sg) (simp_all add: counted_def)

text \<open>The signals of a slot: the reports in order, then the answer.\<close>

definition is_error :: "signal \<Rightarrow> bool" where
  "is_error sg \<longleftrightarrow> (\<exists>message. sg = Error_signal message)"

lemma slot_reports:
  assumes "run_request env rk ri q i r s = (signals, s')"
  shows "\<exists>message m answer. signals = map runProgress (reports message (chunk_total env q r s) m) @ [answer] \<and> final answer
    \<and> m \<le> chunk_total env q r s
    \<and> (\<not> is_error answer \<longrightarrow> m = chunk_total env q r s \<and> (\<forall>peers path dir chunkSize replicas pub cfg.
         r = Put_request peers path dir chunkSize replicas pub \<and> worker_put_config (qt_trimmed q) peers dir chunkSize replicas pub = Inr cfg
         \<longrightarrow> (\<exists>chunks. chunkFile (ds_disk s) path (cc_chunkSize cfg) = Inr chunks)))"
proof (cases r)
  case (Put_request peers path dir chunkSize replicas pub)
  show ?thesis
  proof (cases "worker_put_config (qt_trimmed q) peers dir chunkSize replicas pub")
    case (Inl e)
    then show ?thesis using assms Put_request by (intro exI [of _ "[]"] exI [of _ 0] exI) (auto simp: worker_putFile_def reports_def is_error_def)
  next
    case (Inr cfg)
    obtain x s1 where x: "putFile env cfg (rk i) (ri i) path (s\<lparr>ds_progress := []\<rparr>) = (x, s1)" by fastforce
    let ?n = "put_total cfg path (ds_disk s)"
    have fresh: "ds_disk (s\<lparr>ds_progress := []\<rparr>) = ds_disk s" "ds_progress (s\<lparr>ds_progress := []\<rparr>) = []" by simp_all
    obtain m where m: "m \<le> ?n" "ds_progress s1 = reports ''Uploading chunks'' ?n m"
        "\<forall>res. x = Inr res \<longrightarrow> m = ?n \<and> (\<exists>chunks. chunkFile (ds_disk s) path (cc_chunkSize cfg) = Inr chunks)"
      using putFile_reports [OF x, unfolded fresh append_Nil] by (elim exE conjE) (rule that)
    show ?thesis using assms Put_request Inr x m
      by (intro exI [of _ "''Uploading chunks''"] exI [of _ m]) (cases x; auto simp: worker_putFile_def is_error_def)
  qed
next
  case (Get_request peers mani out prv)
  show ?thesis
  proof (cases "worker_get_config (qt_trimmed q) peers prv")
    case (Inl e)
    then show ?thesis using assms Get_request by (intro exI [of _ "[]"] exI [of _ 0] exI) (auto simp: worker_getFile_def reports_def is_error_def)
  next
    case (Inr cfg)
    obtain x s1 where x: "getFile env cfg mani out (s\<lparr>ds_progress := []\<rparr>) = (x, s1)" by fastforce
    let ?n = "get_total env cfg mani (s\<lparr>ds_progress := []\<rparr>)"
    obtain m where "m \<le> ?n" "ds_progress s1 = reports ''Downloading chunks'' ?n m" "x = Inr () \<longrightarrow> m = ?n"
      using getFile_reports [OF x] by auto
    then show ?thesis using assms Get_request Inr x
      by (intro exI [of _ "''Downloading chunks''"] exI [of _ m]) (cases x; auto simp: worker_getFile_def is_error_def)
  qed
next
  case (Repair_request peers replicas batch)
  then show ?thesis using assms by (intro exI [of _ "[]"] exI [of _ 0] exI) (auto simp: worker_repair_def reports_def is_error_def)
qed

lemma slot_in_range:
  assumes "run_request env rk ri q i r s = (signals, s')" "chunk_total env q r s < 2 ^ 32"
  shows "\<forall>sg \<in> set signals. in_range sg"
proof -
  obtain message m answer where sg: "signals = map runProgress (reports message (chunk_total env q r s) m) @ [answer]" "final answer"
      "m \<le> chunk_total env q r s"
    using slot_reports [OF assms(1)] by (elim exE conjE) (rule that)
  then show ?thesis using reports_in_range [OF sg(3) assms(2), of message] final_in_range [OF sg(2)] by auto
qed

text \<open>
  C13: A slot of the worker reports the chunks one by one: its signals are progress 1, 2, ...,
  m of n and then one answer, m is at most n, and m is n when the answer is not an error; for
  an upload n is then the number of chunks the file was cut into. The numbers are sent as
  \<^verbatim>\<open>int\<close>s: with fewer than \<open>2 ^ 31\<close> chunks no signal lies outside the range it announces.
\<close>

theorem progress_counts_chunks:
  assumes "run_request env rk ri q i r s = (signals, s')"
  shows "\<exists>message m n answer. signals = map runProgress (reports message n m) @ [answer] \<and> final answer \<and> m \<le> n
    \<and> (n < 2 ^ 31 \<longrightarrow> (\<forall>sg \<in> set signals. counted sg))
    \<and> (\<not> is_error answer \<longrightarrow> m = n \<and> (\<forall>peers path dir chunkSize replicas pub cfg.
         r = Put_request peers path dir chunkSize replicas pub \<and> worker_put_config (qt_trimmed q) peers dir chunkSize replicas pub = Inr cfg
         \<longrightarrow> (\<exists>chunks. chunkFile (ds_disk s) path (cc_chunkSize cfg) = Inr chunks \<and> n = length chunks)))"
proof -
  define n where "n = chunk_total env q r s"
  obtain message m answer where sg: "signals = map runProgress (reports message n m) @ [answer]" "final answer" "m \<le> n"
      and ok: "\<not> is_error answer \<longrightarrow> m = n \<and> (\<forall>peers path dir chunkSize replicas pub cfg.
         r = Put_request peers path dir chunkSize replicas pub \<and> worker_put_config (qt_trimmed q) peers dir chunkSize replicas pub = Inr cfg
         \<longrightarrow> (\<exists>chunks. chunkFile (ds_disk s) path (cc_chunkSize cfg) = Inr chunks))"
    using slot_reports [OF assms, folded n_def] by (elim exE conjE) (rule that)
  have counts: "\<not> is_error answer \<longrightarrow> m = n \<and> (\<forall>peers path dir chunkSize replicas pub cfg.
         r = Put_request peers path dir chunkSize replicas pub \<and> worker_put_config (qt_trimmed q) peers dir chunkSize replicas pub = Inr cfg
         \<longrightarrow> (\<exists>chunks. chunkFile (ds_disk s) path (cc_chunkSize cfg) = Inr chunks \<and> n = length chunks))"
  proof (intro impI conjI allI)
    fix peers path dir chunkSize replicas pub cfg
    assume e: "\<not> is_error answer" and put: "r = Put_request peers path dir chunkSize replicas pub
      \<and> worker_put_config (qt_trimmed q) peers dir chunkSize replicas pub = Inr cfg"
    then obtain chunks where "chunkFile (ds_disk s) path (cc_chunkSize cfg) = Inr chunks" using ok by blast
    then show "\<exists>chunks. chunkFile (ds_disk s) path (cc_chunkSize cfg) = Inr chunks \<and> n = length chunks"
      using put by (simp add: n_def put_total_def)
  qed (use ok in blast)
  have "n < 2 ^ 31 \<longrightarrow> (\<forall>sg \<in> set signals. counted sg)"
    using reports_counted [OF sg(3), of message] final_counted [OF sg(2)] by (auto simp: sg(1))
  then show ?thesis by (intro exI [of _ message] exI [of _ m] exI [of _ n] exI [of _ answer] conjI sg counts)
qed

theorem progress_counts_chunks_witness:
  "\<exists>signals s1. run_request toy_env (\<lambda>_. None) (\<lambda>_. None) plain_qt 0 (Put_request ''a:1,b:1'' ''f'' [] 4 2 [])
      (toy_state toy_cluster [(''f'', ''data'')]) = (signals, s1) \<and> length signals = 2"
proof -
  let ?r = "Put_request ''a:1,b:1'' ''f'' [] 4 2 []" and ?s = "toy_state toy_cluster [(''f'', ''data'')]"
  obtain signals s1 where w: "run_request toy_env (\<lambda>_. None) (\<lambda>_. None) plain_qt 0 ?r ?s = (signals, s1)"
      "\<not> is_error (last signals)" using toy_upload by (auto simp: is_error_def)
  obtain message m n answer where mn: "signals = map runProgress (reports message n m) @ [answer]" "m = n"
      "\<exists>chunks. chunkFile (ds_disk ?s) ''f'' 4 = Inr chunks \<and> n = length chunks"
    using progress_counts_chunks [OF w(1)] w(2) toy_worker_config by (auto simp: toy_config_def)
  have "n = 1" using mn(3) toy_chunks by (simp add: toy_state_def)
  then show ?thesis using w(1) mn(1,2) by (intro exI [of _ signals] exI [of _ s1]) (simp add: reports_def)
qed

section \<open>What the window shows\<close>

text \<open>
  A text is the template given to \<^verbatim>\<open>tr\<close> with the arguments of \<^verbatim>\<open>QString::arg\<close>; substituting them is
  Qt's part, and the wording of an operating system error is the system's. The calls on the widgets that show the state of the window, in the order they are made.
\<close>

datatype field = Str string | Num int | Size u64 | System_message

datatype shown = Text string "field list"

datatype ui_call =
    Bar_visible bool
  | Bar_range int int
  | Bar_value int
  | Bar_format shown
  | Log_line shown
  | Message_box string shown
  | Discovered string
  | Status shown
  | Network_map "shown list"
  | Seeds_field string

text \<open>Three characters outside ASCII, in UTF-8.\<close>

definition em_dash :: string where "em_dash = [CHR 0xE2, CHR 0x80, CHR 0x94]"

definition right_arrow :: string where "right_arrow = [CHR 0xE2, CHR 0x86, CHR 0x92]"

definition bullet :: string where "bullet = [CHR 0xE2, CHR 0x80, CHR 0xA2]"

definition setBusy :: "bool \<Rightarrow> ui_call list" where
  "setBusy busy = Bar_visible busy # (if busy then [Bar_range 0 0] else [Bar_range 0 100, Bar_value 100])"

definition onProgress :: "int \<Rightarrow> int \<Rightarrow> string \<Rightarrow> ui_call list" where
  "onProgress done tot message =
     (if tot > 0
      then [Bar_range 0 tot, Bar_value done,
            Bar_format (Text (''%1 / %2 '' @ em_dash @ '' %3'') [Num done, Num tot, Str message])]
      else [])"

definition put_finished_shows :: "disk \<Rightarrow> string \<Rightarrow> string \<Rightarrow> ui_call list" where
  "put_finished_shows d shareId localManifestPath =
     setBusy False @ [Log_line (Text ''[Put] Done. Share ID: %1'' [Str shareId])]
     @ (if localManifestPath = [] then [] else [Log_line (Text ''[Put] Local manifest: %1'' [Str localManifestPath])])
     @ [Message_box ''Put'' (Text (''Share ID (use for Get):'' @ CHR 0x0A # ''%1'' @ CHR 0x0A # CHR 0x0A # ''Local manifest copy:''
          @ CHR 0x0A # ''%2'') [Str shareId, Str localManifestPath])]
     @ (if fs_exists d localManifestPath
        then (case readManifest d localManifestPath of
                Inl e \<Rightarrow> [Log_line (Text ''Failed to read local manifest for table: %1'' [Str (exn_what e)])]
              | Inr _ \<Rightarrow> [])
        else [])"

definition get_finished_shows :: "string \<Rightarrow> ui_call list" where
  "get_finished_shows outputPath =
     setBusy False @ [Log_line (Text ''[Get] Done: %1'' [Str outputPath]),
       Message_box ''Get'' (Text (''Download complete:'' @ CHR 0x0A # ''%1'') [Str outputPath])]"

definition onRepairFinished :: "ui_call list" where
  "onRepairFinished = setBusy False @ [Log_line (Text ''[Repair] Done.'' []), Message_box ''Repair'' (Text ''Repair finished.'' [])]"

definition error_shows :: "string \<Rightarrow> ui_call list" where
  "error_shows message = setBusy False @ [Log_line (Text ''Error: %1'' [Str message]), Message_box ''Error'' (Text message [])]"

fun signal_shows :: "signal \<Rightarrow> disk \<Rightarrow> ui_call list" where
  "signal_shows (Progress_signal done tot message) d = onProgress done tot message"
| "signal_shows (Put_finished shareId localManifestPath) d = put_finished_shows d shareId localManifestPath"
| "signal_shows (Get_finished outputPath) d = get_finished_shows outputPath"
| "signal_shows (Error_signal message) d = error_shows message"

section \<open>Clicks\<close>

definition put_click_shows :: "qt \<Rightarrow> string \<Rightarrow> string \<Rightarrow> gui \<Rightarrow> ui_call list" where
  "put_click_shows q fileEdit rsaEdit g =
     (if trackerIp q g = [] then [Message_box ''Put'' (Text no_peers_text [])]
      else let path = qt_trimmed q fileEdit in
        if path = [] then [Message_box ''Put'' (Text ''Enter file path.'' [])]
        else setBusy True @ [Log_line (Text ''[Put] Started: %1'' [Str path])]
          @ (if qt_trimmed q rsaEdit = [] then []
             else [Log_line (Text ''[Put] Hybrid encryption enabled (RSA public key).'' [])]))"

definition started_text :: "string \<Rightarrow> string \<Rightarrow> shown" where
  "started_text from out = Text (''[Get] Started: %1 '' @ right_arrow @ '' %2'') [Str from, Str out]"

definition get_click_shows :: "qt \<Rightarrow> string \<Rightarrow> string \<Rightarrow> gui \<Rightarrow> ui_call list" where
  "get_click_shows q manifestEdit outputEdit g =
     (if trackerIp q g = [] then [Message_box ''Get'' (Text no_peers_text [])]
      else let manifest = qt_trimmed q manifestEdit; output = qt_trimmed q outputEdit in
        if manifest = [] \<or> output = []
        then [Message_box ''Get'' (Text ''Enter share ID (or manifest path) and output path.'' [])]
        else setBusy True @ [Log_line (started_text manifest output)])"

definition repair_click_shows :: "qt \<Rightarrow> gui \<Rightarrow> ui_call list" where
  "repair_click_shows q g =
     (if trackerIp q g = [] then [Message_box ''Repair'' (Text no_peers_text [])]
      else setBusy True @ [Log_line (Text ''[Repair] Started.'' [])])"

definition download_click_shows :: "qt \<Rightarrow> string \<Rightarrow> (string \<Rightarrow> string) \<Rightarrow> gui \<Rightarrow> ui_call list" where
  "download_click_shows q shareId saveDialog g =
     (if shareId = [] then []
      else if trackerIp q g = [] then [Message_box ''Get'' (Text no_peers_text [])]
      else let output = saveDialog (suggested_name shareId) in
        if output = [] then [] else setBusy True @ [Log_line (started_text shareId output)])"

section \<open>Discovery, settings and opening\<close>

definition merged_peers :: "qt \<Rightarrow> reach \<Rightarrow> gui \<Rightarrow> string list" where
  "merged_peers q reach g =
     (let merged = probe q reach (g_bootstrap g);
          local = qt_arg2 q ''%1:%2'' (g_advertiseIp g) (show_int (g_port g)) in
      qt_unique q (if g_enabled g \<and> hadRunning g \<and> local \<notin> set merged then merged @ [local] else merged))"

definition status_text :: "string list \<Rightarrow> gui \<Rightarrow> shown" where
  "status_text merged g =
     (let n = Num (int (length merged)); mib = Size (g_maxBytes g div (1024 * 1024)) in
      if \<not> g_enabled g then
        (if merged = [] then Text (''Client-only: no bootstrap peers reachable. Edit network/bootstrap_seeds in settings ''
           @ ''or start remote peers.'') []
         else Text ''Client-only: routing via %1 bootstrap peer(s).'' [n])
      else if merged = [] then
        Text (''No reachable peers. Embedded peer on port %1 (max storage %2 MiB) '' @ em_dash @ '' add bootstrap ''
          @ ''seeds if you need remote routing.'') [Num (g_port g), mib]
      else Text ''Routing: %1 peer(s) from bootstrap%2. Local contribution: port %3, max %4 MiB.''
        [n, Str (if hadRunning g then '' + local'' else []), Num (g_port g), mib])"

definition discover_shows :: "qt \<Rightarrow> reach \<Rightarrow> gui \<Rightarrow> ui_call list" where
  "discover_shows q reach g =
     (let merged = merged_peers q reach g in [Discovered (qt_join q merged), Status (status_text merged g)])"

definition map_line :: "string \<times> string \<times> string \<Rightarrow> shown" where
  "map_line = (\<lambda>(peer, status, node).
     Text (bullet @ '' %1 '' @ em_dash @ '' ID %2 (%3)'') [Str peer, Str node, Str status])"

text \<open>The map is one line for each row of the monitor.\<close>

definition refresh_shows :: "qt \<Rightarrow> (bytes \<Rightarrow> octet list) \<Rightarrow> reach \<Rightarrow> gui \<Rightarrow> ui_call list" where
  "refresh_shows q sha256 reach g =
     (case refreshPeerMonitor q sha256 reach g of
        Inl _ \<Rightarrow> discover_shows q reach g
      | Inr g1 \<Rightarrow> discover_shows q reach g
          @ [Network_map (if g_peers g1 = [] then [Text ''No peers configured.'' []] else map map_line (g_peers g1))])"

text \<open>The log of a peer that could not be started.\<close>

definition start_shows :: "bool \<Rightarrow> gui \<Rightarrow> ui_call list" where
  "start_shows spawns g =
     (if \<not> g_enabled g \<or> hadRunning g \<or> g_storageDir g = [] then []
      else case service_start spawns (PeerService (g_advertiseIp g) (g_port g) (g_storageDir g) (g_maxBytes g)) of
        Throws \<Rightarrow> [Log_line (Text ''Failed to start embedded peer: %1'' [System_message])]
      | _ \<Rightarrow> [])"

text \<open>The end of both Apply handlers: the peer, discovery, and what follows when the process goes on.\<close>

definition restart_shows :: "qt \<Rightarrow> reach \<Rightarrow> bool \<Rightarrow> ui_call list \<Rightarrow> gui \<Rightarrow> ui_call list" where
  "restart_shows q reach spawns after g =
     (case (if hadRunning g then stopEmbeddedPeer g else Some g) of
        None \<Rightarrow> []
      | Some g1 \<Rightarrow>
         (case startEmbeddedPeerIfEnabled spawns g1 of
            None \<Rightarrow> []
          | Some g2 \<Rightarrow> start_shows spawns g1 @ discover_shows q reach g2 @ after))"

definition apply_shows :: "qt \<Rightarrow> reach \<Rightarrow> bool \<Rightarrow> form \<Rightarrow> gui \<Rightarrow> ui_call list" where
  "apply_shows q reach spawns f g =
     (let manifestDir = qt_trimmed q (fm_manifestDir f) in
      if manifestDir = [] then [Message_box ''Settings'' (Text ''Manifest directory cannot be empty.'' [])]
      else case create_directories (g_disk g) manifestDir of (made, d1) \<Rightarrow>
        if \<not> made then [Message_box ''Settings'' (Text ''Cannot create manifest directory: %1'' [System_message])]
        else let dir = qt_trimmed q (fm_storageDir f) in
          if dir = [] then [Message_box ''Settings'' (Text ''Storage directory cannot be empty.'' [])]
          else restart_shows q reach spawns
            [Log_line (Text ''Settings saved (manifest dir %1; peer port %2, max %3 GiB).''
               [Str manifestDir, Num (fm_port f), Num (fm_gib f)]),
             Message_box ''Settings'' (Text (''Settings saved. The embedded peer was restarted if it was running or ''
               @ ''is enabled.'') [])]
            (applied f d1 manifestDir dir g))"

definition apply_network_shows :: "qt \<Rightarrow> reach \<Rightarrow> bool \<Rightarrow> string \<Rightarrow> string \<Rightarrow> gui \<Rightarrow> ui_call list" where
  "apply_network_shows q reach spawns advertiseIpEdit bootstrapSeedsEdit g =
     (let adv = qt_trimmed q advertiseIpEdit in
      if adv = [] then [Message_box ''Advertise address'' (Text ''Advertise address cannot be empty.'' [])]
      else let seeds0 = qt_trimmed q bootstrapSeedsEdit;
               seeds = (if seeds0 = [] then default_seeds else seeds0) in
        (if seeds0 = [] then [Seeds_field seeds] else [])
        @ restart_shows q reach spawns
            [Log_line (Text ''Network settings saved; bootstrap list and advertise address updated.'' [])]
            (applied_network q adv seeds g))"

text \<open>The constructor: the widgets of \<^verbatim>\<open>setupUi\<close>, the peer, and discovery.\<close>

definition opening_shows :: "qt \<Rightarrow> first_run \<Rightarrow> reach \<Rightarrow> bool \<Rightarrow> settings \<Rightarrow> disk \<Rightarrow> ui_call list" where
  "opening_shows q a reach spawns se d =
     (let g0 = loadOrPromptPeerSettings q a (blank_gui se d) in
      [Status (Text ''Joining network via bootstrap nodes...'' []), Bar_range 0 0, Bar_visible False,
       Seeds_field (qt_join q (g_bootstrap g0))]
      @ (case startEmbeddedPeerIfEnabled spawns g0 of
           None \<Rightarrow> []
         | Some g1 \<Rightarrow> start_shows spawns g0 @ discover_shows q reach g1))"

fun event_shows :: "qt \<Rightarrow> (bytes \<Rightarrow> octet list) \<Rightarrow> gui_event \<Rightarrow> gui \<Rightarrow> ui_call list" where
  "event_shows q sha256 (Apply reach spawns f) g = apply_shows q reach spawns f g"
| "event_shows q sha256 (Apply_network reach spawns adv seeds) g = apply_network_shows q reach spawns adv seeds g"
| "event_shows q sha256 (Refresh reach) g = refresh_shows q sha256 reach g"
| "event_shows q sha256 (Put_click path chunk replicas rsa) g = put_click_shows q path rsa g"
| "event_shows q sha256 (Get_click manifest out rsa) g = get_click_shows q manifest out g"
| "event_shows q sha256 (Repair_click replicas batch) g = repair_click_shows q g"
| "event_shows q sha256 (Download_click shareId dialog rsa) g = download_click_shows q shareId dialog g"
| "event_shows q sha256 (Worker_signal sg) g = signal_shows sg (g_disk g)"
| "event_shows q sha256 Peer_dies g = []"

section \<open>The bar follows the work\<close>

text \<open>Whether the bar is visible after some calls, and whether every value lies in the range set last.\<close>

fun bar_shown :: "ui_call list \<Rightarrow> bool \<Rightarrow> bool" where
  "bar_shown [] v = v"
| "bar_shown (Bar_visible b # cs) v = bar_shown cs b"
| "bar_shown (_ # cs) v = bar_shown cs v"

fun values_ok :: "ui_call list \<Rightarrow> int \<times> int \<Rightarrow> bool" where
  "values_ok [] rng = True"
| "values_ok (Bar_range a b # cs) rng = values_ok cs (a, b)"
| "values_ok (Bar_value v # cs) rng \<longleftrightarrow> fst rng \<le> v \<and> v \<le> snd rng \<and> values_ok cs rng"
| "values_ok (_ # cs) rng = values_ok cs rng"

lemma bar_shown_append [simp]: "bar_shown (xs @ ys) v = bar_shown ys (bar_shown xs v)"
  by (induction xs v rule: bar_shown.induct) simp_all

lemma values_ok_append: "values_ok xs rng \<Longrightarrow> (\<And>r. values_ok ys r) \<Longrightarrow> values_ok (xs @ ys) rng"
  by (induction xs rng rule: values_ok.induct) simp_all

text \<open>Calls that leave the bar alone.\<close>

fun on_bar :: "ui_call \<Rightarrow> bool" where
  "on_bar (Bar_visible b) \<longleftrightarrow> True"
| "on_bar (Bar_range a b) \<longleftrightarrow> True"
| "on_bar (Bar_value v) \<longleftrightarrow> True"
| "on_bar _ \<longleftrightarrow> False"

lemma off_bar:
  assumes "\<forall>c \<in> set cs. \<not> on_bar c"
  shows "bar_shown cs v = v" "values_ok cs rng"
proof -
  show "bar_shown cs v = v" using assms by (induction cs v rule: bar_shown.induct) simp_all
  show "values_ok cs rng" using assms by (induction cs rng rule: values_ok.induct) simp_all
qed

lemma quiet_calls:
  "\<forall>c \<in> set (discover_shows q reach g). \<not> on_bar c" "\<forall>c \<in> set (start_shows spawns g). \<not> on_bar c"
  "\<forall>c \<in> set (apply_shows q reach spawns f g). \<not> on_bar c"
  "\<forall>c \<in> set (apply_network_shows q reach spawns adv seeds g). \<not> on_bar c"
  "\<forall>c \<in> set (refresh_shows q sha256 reach g). \<not> on_bar c"
proof -
  show d: "\<forall>c \<in> set (discover_shows q reach g). \<not> on_bar c" for g by (simp add: discover_shows_def Let_def)
  show s: "\<forall>c \<in> set (start_shows spawns g). \<not> on_bar c" for g by (simp add: start_shows_def split: started.split)
  have r: "c \<in> set (restart_shows q reach spawns after g) \<Longrightarrow> on_bar c \<Longrightarrow> c \<in> set after" for c after g
    using d s by (auto simp: restart_shows_def split: option.splits)
  show "\<forall>c \<in> set (apply_shows q reach spawns f g). \<not> on_bar c"
    by (auto simp: apply_shows_def Let_def split: prod.splits dest!: r)
  show "\<forall>c \<in> set (apply_network_shows q reach spawns adv seeds g). \<not> on_bar c"
    by (auto simp: apply_network_shows_def Let_def dest!: r)
  show "\<forall>c \<in> set (refresh_shows q sha256 reach g). \<not> on_bar c"
    using d by (auto simp: refresh_shows_def split: sum.splits)
qed

lemma clicks_bar:
  "bar_shown (put_click_shows q path rsa g) (g_busy g) = g_busy (onPutClicked q path chunk replicas rsa g)"
  "bar_shown (get_click_shows q m out g) (g_busy g) = g_busy (onGetClicked q m out rsa g)"
  "bar_shown (repair_click_shows q g) (g_busy g) = g_busy (onRepairClicked q replicas batch g)"
  "bar_shown (download_click_shows q shareId dialog g) (g_busy g) = g_busy (onDownloadButtonClicked q shareId dialog rsa g)"
  "values_ok (put_click_shows q path rsa g) rng" "values_ok (get_click_shows q m out g) rng"
  "values_ok (repair_click_shows q g) rng" "values_ok (download_click_shows q shareId dialog g) rng"
  by (simp_all add: put_click_shows_def get_click_shows_def repair_click_shows_def download_click_shows_def setBusy_def warn_def
      onPutClicked_def onGetClicked_def onRepairClicked_def onDownloadButtonClicked_def Let_def)

lemma signal_bar: "bar_shown (signal_shows sg d) v = (v \<and> \<not> final sg)"
  by (cases sg) (simp_all add: onProgress_def put_finished_shows_def get_finished_shows_def error_shows_def setBusy_def split: sum.split)

lemma signal_values: "in_range sg \<Longrightarrow> values_ok (signal_shows sg d) rng"
  by (cases sg) (auto simp: in_range_def onProgress_def put_finished_shows_def get_finished_shows_def error_shows_def setBusy_def
      split: sum.split)

lemma apply_keeps_busy:
  "onApplySettingsClicked q reach spawns f g = Some g' \<Longrightarrow> g_busy g' = g_busy g"
  "onApplyNetworkSettingsClicked q reach spawns adv seeds g = Some g' \<Longrightarrow> g_busy g' = g_busy g"
  "refreshPeerMonitor q sha256 reach g = Inr g' \<Longrightarrow> g_busy g' = g_busy g"
proof -
  have d [simp]: "g_busy (discoverPeersFromBootstrap q reach h) = g_busy h" for h
    by (simp add: discoverPeersFromBootstrap_def Let_def)
  show "onApplySettingsClicked q reach spawns f g = Some g' \<Longrightarrow> g_busy g' = g_busy g"
    by (auto simp: onApplySettingsClicked_def Let_def warn_def split: if_splits prod.splits dest!: restart_posts)
  show "onApplyNetworkSettingsClicked q reach spawns adv seeds g = Some g' \<Longrightarrow> g_busy g' = g_busy g"
    by (auto simp: onApplyNetworkSettingsClicked_def load_seeds Let_def warn_def split: if_splits dest!: restart_posts)
  show "refreshPeerMonitor q sha256 reach g = Inr g' \<Longrightarrow> g_busy g' = g_busy g"
    by (auto simp: refreshPeerMonitor_def Let_def result_iff)
qed

lemma event_bar:
  assumes "gui_step q sha256 e g = Some g'"
  shows "bar_shown (event_shows q sha256 e g) (g_busy g) = g_busy g'"
    "(\<And>sg. e = Worker_signal sg \<Longrightarrow> in_range sg) \<Longrightarrow> values_ok (event_shows q sha256 e g) rng"
proof -
  show "bar_shown (event_shows q sha256 e g) (g_busy g) = g_busy g'"
    using assms clicks_bar apply_keeps_busy
    by (cases e) (auto simp: off_bar quiet_calls signal_bar split: sum.splits)
  show "values_ok (event_shows q sha256 e g) rng" if "\<And>sg. e = Worker_signal sg \<Longrightarrow> in_range sg"
    using that clicks_bar by (cases e) (auto simp: off_bar quiet_calls signal_values)
qed

text \<open>
  The calls made since the program was started, along the steps of both threads, and the
  numbers of chunks of the requests that the worker took.
\<close>

inductive displayed :: "qt \<Rightarrow> (bytes \<Rightarrow> octet list) \<Rightarrow> 'w slots \<Rightarrow> (request \<Rightarrow> 'w dss_state \<Rightarrow> nat) \<Rightarrow> 'w app \<Rightarrow> ui_call list
       \<Rightarrow> 'w app \<Rightarrow> ui_call list \<Rightarrow> nat list \<Rightarrow> bool"
    for q sha256 run chunks_of a0 cs0 where
  opened: "displayed q sha256 run chunks_of a0 cs0 a0 cs0 []"
| user: "displayed q sha256 run chunks_of a0 cs0 a cs ns \<Longrightarrow> \<not> is_signal e \<Longrightarrow> gui_step q sha256 e (window_of a) = Some g \<Longrightarrow>
    displayed q sha256 run chunks_of a0 cs0 (a\<lparr>ap_gui := g, ap_state := (ap_state a)\<lparr>ds_disk := g_disk g\<rparr>\<rparr>)
      (cs @ event_shows q sha256 e (window_of a)) ns"
| worker: "displayed q sha256 run chunks_of a0 cs0 a cs ns \<Longrightarrow> ap_taken a < length (g_posted (ap_gui a)) \<Longrightarrow>
    displayed q sha256 run chunks_of a0 cs0 (worker_takes run a) cs (chunks_of (g_posted (ap_gui a) ! ap_taken a) (ap_state a) # ns)"
| signal: "displayed q sha256 run chunks_of a0 cs0 a cs ns \<Longrightarrow> ap_seen a < length (ap_emitted a) \<Longrightarrow>
    displayed q sha256 run chunks_of a0 cs0 (window_sees a)
      (cs @ event_shows q sha256 (Worker_signal (ap_emitted a ! ap_seen a)) (window_of a)) ns"

lemma displayed_reach: "displayed q sha256 run chunks_of a0 cs0 a cs ns \<Longrightarrow> (app_step q sha256 run)\<^sup>*\<^sup>* a0 a"
proof (induction rule: displayed.induct)
  case (user a cs ns e g)
  then show ?case by (intro rtranclp.rtrancl_into_rtrancl [OF user.IH] app_step.user)
next
  case (worker a cs ns)
  then show ?case by (intro rtranclp.rtrancl_into_rtrancl [OF worker.IH] app_step.internal internal_step.worker)
next
  case (signal a cs ns)
  then show ?case by (intro rtranclp.rtrancl_into_rtrancl [OF signal.IH] app_step.internal internal_step.signal)
qed simp

lemma displayed_bar:
  assumes "displayed q sha256 run chunks_of a0 cs0 a cs ns" "bar_shown cs0 False = g_busy (ap_gui a0)"
  shows "bar_shown cs False = g_busy (ap_gui a)"
  using assms
proof (induction rule: displayed.induct)
  case (user a cs ns e g)
  then show ?case using event_bar(1) [OF user.hyps(3)] by (simp add: window_of_def)
next
  case (worker a cs ns)
  then show ?case by (simp add: worker_takes_def split: prod.split)
next
  case (signal a cs ns)
  then show ?case using event_bar(1) [of q sha256 "Worker_signal (ap_emitted a ! ap_seen a)" "window_of a"]
    by (simp add: window_sees_def window_of_def)
qed simp

lemma displayed_emitted:
  assumes "displayed q sha256 (run_request env rk ri q) (chunk_total env q) a0 cs0 a cs ns" "ap_emitted a0 = []" "\<forall>n \<in> set ns. n < 2 ^ 32"
  shows "\<forall>sg \<in> set (ap_emitted a). in_range sg"
  using assms
proof (induction rule: displayed.induct)
  case (worker a cs ns)
  let ?r = "g_posted (ap_gui a) ! ap_taken a"
  obtain signals s' where run: "run_request env rk ri q (ap_taken a) ?r (ap_state a) = (signals, s')" by fastforce
  have "\<forall>sg \<in> set signals. in_range sg" using worker.prems by (intro slot_in_range [OF run]) simp
  then show ?case using worker run by (auto simp: worker_takes_def)
qed (simp_all add: window_sees_def)

lemma displayed_values:
  assumes "displayed q sha256 (run_request env rk ri q) (chunk_total env q) a0 cs0 a cs ns" "values_ok cs0 rng" "ap_emitted a0 = []"
    "\<forall>n \<in> set ns. n < 2 ^ 32"
  shows "values_ok cs rng"
  using assms
proof (induction rule: displayed.induct)
  case (user a cs ns e g)
  then have "values_ok (event_shows q sha256 e (window_of a)) r" for r
    using event_bar(2) [OF user.hyps(3)] by fastforce
  then show ?case using user by (simp add: values_ok_append)
next
  case (signal a cs ns)
  then have "in_range (ap_emitted a ! ap_seen a)" using displayed_emitted [OF signal.hyps(1)] by simp
  then show ?case using signal by (simp add: values_ok_append signal_values)
qed simp_all

text \<open>
  C12: Whatever the user does and however the two threads interleave, the progress bar is
  only visible while a call or a final signal is under way, and it is never given a value
  outside the range set before, for all uploads and downloads of fewer than \<open>2 ^ 32\<close>
  chunks: the counts are \<^verbatim>\<open>int\<close>s, and from \<open>2 ^ 31\<close> chunks on the total is negative and the
  bar is left alone.
\<close>

theorem bar_shows_work:
  assumes "MainWindow q fr reach spawns se d = Some g"
    "displayed q sha256 (run_request env rk ri q) (chunk_total env q) (new_app g s) (opening_shows q fr reach spawns se d) a cs ns"
  shows "(bar_shown cs False \<longrightarrow> outstanding a) \<and> ((\<forall>n \<in> set ns. n < 2 ^ 32) \<longrightarrow> values_ok cs (0, 100))"
proof -
  have idle: "g_posted g = []" "\<not> g_busy g" using opened_idle [OF assms(1)] by simp_all
  have start: "bar_shown (opening_shows q fr reach spawns se d) False = g_busy (ap_gui (new_app g s))"
      "values_ok (opening_shows q fr reach spawns se d) (0, 100)" "ap_emitted (new_app g s) = []"
    using idle(2) by (simp_all add: opening_shows_def new_app_def off_bar quiet_calls Let_def values_ok_append split: option.split)
  have "app_inv a"
    using dss_worker.app_inv_reach [of q sha256 env rk ri q "new_app g s" a] displayed_reach [OF assms(2)]
      dss_worker.app_inv_new [OF idle] by blast
  then show ?thesis
    using displayed_bar [OF assms(2) start(1)] displayed_values [OF assms(2) start(2,3)] by (auto simp: app_inv_def)
qed

theorem bar_shows_work_witness:
  "\<exists>g a cs. MainWindow plain_qt usual_answers (\<lambda>h p. h = ''127.0.0.1'') True no_settings (open_disk []) = Some g
    \<and> displayed plain_qt toy_sha (run_request toy_env (\<lambda>_. None) (\<lambda>_. None) plain_qt) (chunk_total toy_env plain_qt)
        (new_app g (toy_state toy_cluster []))
        (opening_shows plain_qt usual_answers (\<lambda>h p. h = ''127.0.0.1'') True no_settings (open_disk [])) a cs []
    \<and> bar_shown cs False \<and> outstanding a \<and> values_ok cs (0, 100)"
proof -
  let ?run = "run_request toy_env (\<lambda>_. None) (\<lambda>_. None) plain_qt" and ?e = "Get_click ''m'' ''o'' []"
    and ?cs = "opening_shows plain_qt usual_answers (\<lambda>h p. h = ''127.0.0.1'') True no_settings (open_disk [])"
  obtain g where g: "MainWindow plain_qt usual_answers (\<lambda>h p. h = ''127.0.0.1'') True no_settings (open_disk []) = Some g"
      "trackerIp plain_qt g \<noteq> []" using first_window by blast
  let ?a = "new_app g (toy_state toy_cluster [])"
  let ?g1 = "onGetClicked plain_qt ''m'' ''o'' [] (window_of ?a)"
  let ?a1 = "?a\<lparr>ap_gui := ?g1, ap_state := (ap_state ?a)\<lparr>ds_disk := g_disk ?g1\<rparr>\<rparr>"
  have "trackerIp plain_qt (window_of ?a) \<noteq> []" using g(2) by (simp add: trackerIp_def window_of_def new_app_def)
  then have busy: "g_busy (ap_gui ?a1)" by (simp add: onGetClicked_def plain_qt_def trim_ws_def is_ws_def Let_def)
  have d: "displayed plain_qt toy_sha ?run (chunk_total toy_env plain_qt) ?a ?cs ?a1 (?cs @ event_shows plain_qt toy_sha ?e (window_of ?a)) []"
    by (rule displayed.user [OF displayed.opened, of ?e]) simp_all
  have "bar_shown ?cs False = g_busy (ap_gui ?a)"
    using opened_idle [OF g(1)] by (simp add: opening_shows_def new_app_def off_bar quiet_calls Let_def split: option.split)
  then have "bar_shown (?cs @ event_shows plain_qt toy_sha ?e (window_of ?a)) False" using displayed_bar [OF d] busy by blast
  moreover have "\<forall>n \<in> set []. n < (2 :: nat) ^ 32" by simp
  ultimately show ?thesis using bar_shows_work [OF g(1) d] g(1) d by blast
qed

end
