(* ===== verification/Encrypted_Files.thy ===== *)
theory Encrypted_Files
  imports End_To_End
begin

text \<open>
  Uploads with a file key. A chunk is stored under the hash of its plaintext, but its
  ciphertext depends on its index in the file, and every upload overwrites the copies that
  are there. So of two equal chunks only the ciphertext of the later one survives, and it
  does not open at the index of the earlier one: an encrypted file can be fetched exactly
  when no two of its chunks are equal.
\<close>

section \<open>A ciphertext opens at its own index only\<close>

text \<open>
  AES-GCM authenticates the nonce: what was sealed under one does not open under another.
  That is a matter of chance for texts of one's choice, so it is asked of one key and of the
  nonces and plaintexts at hand.
\<close>

definition nonce_bound :: "'c evp_cipher \<Rightarrow> octet list \<Rightarrow> octet list set \<Rightarrow> octet list set \<Rightarrow> bool" where
  "nonce_bound api key ivs pts \<longleftrightarrow> (\<forall>iv \<in> ivs. \<forall>iv' \<in> ivs. \<forall>pt \<in> pts. \<forall>ct tag pt'.
     sealed api key iv pt ct tag \<and> opened api key iv' ct tag pt' \<longrightarrow> iv' = iv)"

text \<open>The nonces of the first \<open>n\<close> chunks of a file.\<close>

definition nonces :: "octet list \<Rightarrow> nat \<Rightarrow> octet list set" where
  "nonces baseIv n = (\<lambda>i. projr (derive_chunk_iv baseIv (of_nat i))) ` {..<n}"

lemma noncesI: "i < n \<Longrightarrow> derive_chunk_iv baseIv (of_nat i) = Inr v \<Longrightarrow> v \<in> nonces baseIv n"
  by (force simp: nonces_def)

lemma gcm_decrypt_opened:
  "ev_new api = Some c0 \<Longrightarrow> gcm_decrypt_body api c0 key iv ct (int (length ct)) tag = Inr (out, Some (fin, c)) \<Longrightarrow> opened api key iv ct tag (out @ fin)"
  unfolding opened_def gcm_decrypt_body_def bindR_Inr_iff ensure_ok_iff
  by (cases "ct = []") (auto simp: result_iff)

lemma aes_gcm_decrypt_InrD:
  assumes "aes_gcm_decrypt api ct key baseIv i = (n, Inr pt)" "length ct < 2 ^ 31"
  shows "\<exists>iv pt'. derive_chunk_iv baseIv i = Inr iv
    \<and> opened api key iv (octets_of (take (length ct - 16) ct)) (octets_of (drop (length ct - 16) ct)) pt'"
proof -
  let ?ct = "octets_of (take (length ct - 16) ct)"
  have len: "int_of_size (length ct - 16) = int (length ?ct)" using assms(2) by (simp add: int_of_size_small)
  obtain iv c0 out fin c where r: "derive_chunk_iv baseIv i = Inr iv" "ev_new api = Some c0"
      "gcm_decrypt_body api c0 key iv ?ct (int (length ?ct)) (octets_of (drop (length ct - 16) ct)) = Inr (out, Some (fin, c))"
    using assms(1) unfolding len [symmetric]
    by (auto simp: aes_gcm_decrypt_def Let_def split: if_splits sum.splits option.splits prod.splits)
  then show ?thesis using gcm_decrypt_opened [OF r(2,3)] r(1) by blast
qed

lemma opens_at_own_index:
  assumes "gcm_documented api" "nonce_bound api key (nonces baseIv n) pts" "length baseIv = 12" "length pt + 16 < 2 ^ 31"
    "octets_of pt \<in> pts" "aes_gcm_encrypt api pt key baseIv (of_nat i) = (r, Inr ct)"
    "aes_gcm_decrypt api ct key baseIv (of_nat j) = (k, Inr pt')" "i < n" "j < n" "n \<le> 2 ^ 32"
  shows "i = j"
proof -
  have short: "length pt < 2 ^ 31" using assms(4) by simp
  obtain iv out tag where e: "derive_chunk_iv baseIv (of_nat i) = Inr iv" "sealed api key iv (octets_of pt) out tag" "ct = chars_of (out @ tag)"
    using aes_gcm_encrypt_InrD [OF assms(6) short] by blast
  have "length (octets_of pt) + 16 < 2 ^ 31" using assms(4) by simp
  then have doc: "length tag = 16" "length out = length (octets_of pt)"
    using assms(1) e(2) unfolding gcm_documented_def by blast+
  have "length ct < 2 ^ 31" using assms(4) doc by (simp add: e(3))
  then obtain iv' x where d: "derive_chunk_iv baseIv (of_nat j) = Inr iv'"
      "opened api key iv' (octets_of (take (length ct - 16) ct)) (octets_of (drop (length ct - 16) ct)) x"
    using aes_gcm_decrypt_InrD [OF assms(7)] by blast
  have "opened api key iv' out tag x" using d(2) doc by (simp add: e(3) octets_take_drop)
  then have "iv' = iv"
    using assms(2,5) e(2) noncesI [OF assms(8) e(1)] noncesI [OF assms(9) d(1)] unfolding nonce_bound_def by blast
  then have "unat (of_nat i :: u64) mod 2 ^ 32 = unat (of_nat j :: u64) mod 2 ^ 32"
    using chunk_iv_eq [OF assms(3), of "of_nat i" "of_nat j"] e(1) d(1) by auto
  moreover have "unat (of_nat l :: u64) mod 2 ^ 32 = l" if "l < 2 ^ 32" for l
    using that unat_of_nat_u64 [of l] by simp
  ultimately show ?thesis using assms(8-10) by simp
qed

section \<open>What survives an upload\<close>

text \<open>The ciphertexts held after the chunks went out in order: later copies overwrite earlier ones.\<close>

fun latest :: "(u64 \<Rightarrow> bytes \<Rightarrow> bytes) \<Rightarrow> (bytes \<Rightarrow> string) \<Rightarrow> u64 \<Rightarrow> bytes list \<Rightarrow> string \<Rightarrow> bytes option" where
  "latest enc cid idx [] = Map.empty"
| "latest enc cid idx (c # cs) = [cid c \<mapsto> enc idx c] ++ latest enc cid (idx + 1) cs"

lemma latest_None: "k \<notin> cid ` set cs \<Longrightarrow> latest enc cid idx cs k = None"
  by (induction cs arbitrary: idx) (auto simp: map_add_def)

lemma latest_held: "c \<in> set cs \<Longrightarrow> \<exists>v. latest enc cid idx cs (cid c) = Some v"
  by (induction cs arbitrary: idx) (auto simp: map_add_def split: option.split)

lemma distinct_last_iff: "distinct xs \<longleftrightarrow> (\<forall>i < length xs. \<forall>j < length xs. xs ! j = xs ! i \<longrightarrow> j \<le> i)"
  unfolding distinct_conv_nth by (metis le_antisym nle_le order_refl)

lemma latest_last:
  assumes "i < length cs"
  shows "\<exists>j. i \<le> j \<and> j < length cs \<and> cid (cs ! j) = cid (cs ! i)
    \<and> latest enc cid idx cs (cid (cs ! i)) = Some (enc (idx + of_nat j) (cs ! j))
    \<and> (\<forall>l < length cs. cid (cs ! l) = cid (cs ! i) \<longrightarrow> l \<le> j)"
  using assms
proof (induction cs arbitrary: idx i)
  case (Cons c cs)
  let ?k = "cid ((c # cs) ! i)"
  show ?case
  proof (cases "?k \<in> cid ` set cs")
    case True
    then obtain l where l: "l < length cs" "cid (cs ! l) = ?k" by (auto simp: in_set_conv_nth)
    obtain j where j: "l \<le> j" "j < length cs" "cid (cs ! j) = ?k"
        "latest enc cid (idx + 1) cs ?k = Some (enc (idx + 1 + of_nat j) (cs ! j))"
        "\<forall>m < length cs. cid (cs ! m) = ?k \<longrightarrow> m \<le> j"
      using Cons.IH [OF l(1), of "idx + 1"] unfolding l(2) by blast
    have "latest enc cid idx (c # cs) ?k = Some (enc (idx + of_nat (Suc j)) ((c # cs) ! Suc j))"
      using j(4) by (simp add: map_add_def add.assoc)
    moreover have "m \<le> Suc j" if "m < length (c # cs)" "cid ((c # cs) ! m) = ?k" for m
      using that j(5) by (cases m) auto
    moreover have "i \<le> Suc j" using Cons.prems j(5) by (cases i) auto
    ultimately show ?thesis using j(2,3) by (intro exI [of _ "Suc j"]) auto
  next
    case False
    have "i = 0"
    proof (rule ccontr)
      assume "i \<noteq> 0"
      then have "?k \<in> cid ` set cs" using Cons.prems by (cases i) auto
      then show False using False by blast
    qed
    moreover have "latest enc cid (idx + 1) cs (cid c) = None" using False \<open>i = 0\<close> by (intro latest_None) simp
    moreover have "m = 0" if "m < length (c # cs)" "cid ((c # cs) ! m) = cid c" for m
    proof (cases m)
      case (Suc l)
      then have "cs ! l \<in> set cs" "cid (cs ! l) = cid c" using that by simp_all
      then have "cid c \<in> cid ` set cs" by (metis imageI)
      then show ?thesis using False \<open>i = 0\<close> by simp
    qed
    ultimately show ?thesis by (intro exI [of _ 0]) (auto simp: map_add_def)
  qed
qed simp

text \<open>The ciphertext of a chunk at an index.\<close>

definition seal :: "('w, 'c, 'k, 'x) dss_env \<Rightarrow> file_encryption_params \<Rightarrow> u64 \<Rightarrow> bytes \<Rightarrow> bytes" where
  "seal env fp idx c = projr (snd (aes_gcm_encrypt (en_cipher env) c (fp_key fp) (fp_iv fp) idx))"

text \<open>Encryption succeeds.\<close>

definition seals :: "('w, 'c, 'k, 'x) dss_env \<Rightarrow> file_encryption_params \<Rightarrow> bytes \<Rightarrow> bool" where
  "seals env fp c \<longleftrightarrow> (\<forall>idx. snd (aes_gcm_encrypt (en_cipher env) c (fp_key fp) (fp_iv fp) idx) = Inr (seal env fp idx c))"

lemma seal_length:
  assumes "gcm_documented (en_cipher env)" "seals env fp c" "length c + 16 < 2 ^ 31"
  shows "length (seal env fp idx c) = length c + 16"
proof -
  obtain n r where e: "aes_gcm_encrypt (en_cipher env) c (fp_key fp) (fp_iv fp) idx = (n, r)" by fastforce
  then have "r = Inr (seal env fp idx c)" using assms(2) unfolding seals_def by (metis snd_conv)
  then show ?thesis using aes_gcm_reopens [OF assms(1) _ assms(3)] e by blast
qed

text \<open>Every peer of the list is a target of every key, as when there are as many replicas as peers.\<close>

lemma all_targets:
  assumes "table_of sha P dht" "endpoint ` set (rt_nodes dht) = P" "length (rt_nodes dht) \<le> nat r"
  shows "set (targets_of sha dht r k) = P" "length (targets_of sha dht r k) = length (rt_nodes dht)"
proof -
  show len: "length (targets_of sha dht r k) = length (rt_nodes dht)"
    using targets_of_props(2) [of sha dht r k] assms(3) by simp
  have "card (set (targets_of sha dht r k)) = length (rt_nodes dht)"
    using distinct_targets [OF assms(1)] len by (simp add: distinct_card)
  moreover have "card P \<le> length (rt_nodes dht)"
    unfolding assms(2) [symmetric] using card_image_le [of "set (rt_nodes dht)" endpoint] card_length [of "rt_nodes dht"] by simp
  moreover have "finite P" unfolding assms(2) [symmetric] by simp
  ultimately show "set (targets_of sha dht r k) = P"
    using targets_of_props(1) [of sha dht r k] unfolding assms(2) by (metis card_seteq)
qed

context peer_rpc
begin

lemma put_chunks_sealed:
  assumes env: "en_net env = net" "digest32 (en_sha256 env)" "\<And>d. name_ok (sha256_hex (en_sha256 env) d)"
      "gcm_documented (en_cipher env)"
    and ts: "\<And>k. set (targets_of (en_sha256 env) dht r k) = P" "\<And>k. length (targets_of (en_sha256 env) dht r k) = T"
    and cs: "\<forall>c \<in> set cs. seals env fp c \<and> length c + 16 < 2 ^ 31"
    and up: "\<forall>p \<in> P. up (ds_world s) p (n + T * length cs) (T * sum_list (map (\<lambda>c. length c + 16) cs) + b)"
  shows "\<exists>s'. put_chunks env dht r (Some fp) tot don idx cs s = (Inr (map (sha256_hex (en_sha256 env)) cs), s')
    \<and> ds_disk s' = ds_disk s
    \<and> (\<forall>p \<in> P. held (ds_world s') p = held (ds_world s) p ++ latest (seal env fp) (sha256_hex (en_sha256 env)) idx cs)
    \<and> (\<forall>p \<in> P. up (ds_world s') p n b)"
  using cs up
proof (induction cs arbitrary: s don idx)
  case (Cons c cs)
  let ?sha = "en_sha256 env" and ?cid = "sha256_hex (en_sha256 env) c" and ?v = "seal env fp idx c"
  let ?ts = "targets_of ?sha dht r ?cid"
  have v: "length ?v = length c + 16" "length ?v < vector_char_max" using seal_length [OF env(4)] Cons.prems(1) by (simp_all add: vector_char_max_def)
  have "\<forall>p \<in> P. up (ds_world s) p ((n + T * length cs) + length ?ts)
      (length ?ts * length ?v + (T * sum_list (map (\<lambda>c. length c + 16) cs) + b))"
    using Cons.prems(2) by (simp add: ts(2) v(1) algebra_simps)
  from put_to_all_up [OF this _ env(3) [of c] v(2)] ts(1) [of ?cid] obtain w' where w':
      "put_to_all net ?cid ?v ?ts (ds_world s) = (Inr (), w')"
      "\<forall>q. held w' q = (if \<exists>p \<in> P. same p q then (held (ds_world s) q)(?cid \<mapsto> ?v) else held (ds_world s) q)"
      "\<forall>p \<in> P. up w' p (n + T * length cs) (T * sum_list (map (\<lambda>c. length c + 16) cs) + b)" by auto
  let ?s1 = "s\<lparr>ds_world := w', ds_progress := ds_progress s
      @ [\<lparr>pg_done = int_succ don, pg_total = tot, pg_message = ''Uploading chunks''\<rparr>]\<rparr>"
  obtain s' where s': "put_chunks env dht r (Some fp) tot (int_succ don) (idx + 1) cs ?s1 = (Inr (map (sha256_hex ?sha) cs), s')"
      "ds_disk s' = ds_disk s"
      "\<forall>p \<in> P. held (ds_world s') p = held w' p ++ latest (seal env fp) (sha256_hex ?sha) (idx + 1) cs"
      "\<forall>p \<in> P. up (ds_world s') p n b"
    using Cons.IH [of ?s1 "int_succ don" "idx + 1"] Cons.prems(1) w'(3) by auto
  have "snd (aes_gcm_encrypt (en_cipher env) c (fp_key fp) (fp_iv fp) idx) = Inr ?v"
    using Cons.prems(1) by (simp add: seals_def)
  then have "put_one_chunk env dht r (Some fp) idx c (ds_world s) = (Inr ?cid, w')"
    using w'(1) by (simp add: put_one_chunk_def dht_store_targets [OF env(2)] env(1))
  then have "put_chunks env dht r (Some fp) tot don idx (c # cs) s = (Inr (map (sha256_hex ?sha) (c # cs)), s')"
    using s'(1) by simp
  moreover have "held (ds_world s') p = held (ds_world s) p ++ latest (seal env fp) (sha256_hex ?sha) idx (c # cs)" if "p \<in> P" for p
  proof -
    have "held w' p = (held (ds_world s) p)(?cid \<mapsto> ?v)" using w'(2) that same_refl [of p] by auto
    then show ?thesis using s'(3) that by simp
  qed
  ultimately show ?case using s'(2,4) by blast
qed simp

end

section \<open>Which downloads fail\<close>

context crashing_peers
begin

lemma fetch_chunk_bad:
  assumes "en_net env = net" "name_ok cid" "\<forall>p \<in> set ps. up w p (n + length ps) b \<and> held w p cid = Some v"
    "\<not> opens env keys idx cid v"
  shows "\<exists>df w'. fetch_chunk env keys idx cid ps w = (None, df, w')"
  using assms(3)
proof (induction ps arbitrary: w)
  case (Cons p ps)
  let ?n = "n + length ps"
  have "up w p (Suc ?n) b" "held w p cid = Some v" using Cons.prems by simp_all
  with get_chunk_any [of w p ?n b cid] assms(2) obtain c w1 where
      g: "getChunk net w p cid = (Inr v, c, w1)" "served 1 w w1" by blast
  have "\<forall>q \<in> set ps. up w1 q ?n b \<and> held w1 q cid = Some v"
    using Cons.prems g(2) by (auto simp: served_def)
  from Cons.IH [OF this] obtain df w2 where IH: "fetch_chunk env keys idx cid ps w1 = (None, df, w2)" by blast
  then show ?case using fetch_chunk_next [OF g(1) [folded assms(1)] _ IH] assms(4) by blast
qed auto

lemma fetch_chunks_bad:
  assumes env: "en_net env = net" "digest32 (en_sha256 env)" "\<forall>cid \<in> set cids. name_ok cid"
    and tab: "table_of (en_sha256 env) (set (cc_peers cfg)) dht"
    and ps: "\<forall>p \<in> set (cc_peers cfg). up (ds_world s) p (n + length (cc_peers cfg) * length cids) b"
    and held: "\<forall>cid \<in> set cids. \<forall>p \<in> set (cc_peers cfg). held (ds_world s) p cid = Some (V cid)" "cc_peers cfg \<noteq> []"
    and bad: "i < length cids" "\<not> opens env keys (idx + of_nat i) (cids ! i) (V (cids ! i))"
  shows "\<exists>e content s'. fetch_chunks env cfg dht keys tot don idx cids s = (Inl e, content, s')"
  using env(3) ps held(1) bad
proof (induction cids arbitrary: s don idx i)
  case (Cons cid cids)
  let ?L = "length (cc_peers cfg)" and ?w = "ds_world s"
  obtain cs where cs: "candidates env cfg dht cid = Inr cs" "set cs = set (cc_peers cfg)" "length cs \<le> ?L"
    using candidates_all [OF env(2) tab] by blast
  have weak: "up ?w p (n + ?L * length cids + length cs) b" if "p \<in> set (cc_peers cfg)" for p
  proof -
    have "up ?w p (n + ?L * length (cid # cids)) b" using Cons.prems(2) that by blast
    then show ?thesis by (rule up_mono) (use cs(3) in simp_all)
  qed
  have h: "held ?w p cid = Some (V cid)" if "p \<in> set (cc_peers cfg)" for p using Cons.prems(3) that by simp
  show ?case
  proof (cases "opens env keys idx cid (V cid)")
    case False
    have "\<exists>df w'. fetch_chunk env keys idx cid cs ?w = (None, df, w')"
      using weak h cs(2) Cons.prems(1) by (intro fetch_chunk_bad [OF env(1) _ _ False, where n = "n + ?L * length cids" and b = b]) auto
    then show ?thesis using cs(1) by (auto simp: Let_def)
  next
    case True
    have "\<exists>p \<in> set cs. up ?w p (n + ?L * length cids + length cs) b \<and> (\<exists>v. held ?w p cid = Some v \<and> opens env keys idx cid v)"
      using weak h cs(2) held(2) True by (cases "cc_peers cfg") auto
    moreover have "\<forall>p \<in> set cs. up ?w p (n + ?L * length cids + length cs) b \<or> down ?w p" using weak cs(2) by blast
    ultimately obtain plain df w1 where f: "fetch_chunk env keys idx cid cs ?w = (Some plain, df, w1)" "served (length cs) ?w w1"
      using fetch_chunk_up [OF env(1), of cid cs ?w "n + ?L * length cids" b keys idx] Cons.prems(1) by auto
    let ?s2 = "s\<lparr>ds_world := w1, ds_double_free := ds_double_free s \<or> df, ds_progress := ds_progress s
        @ [\<lparr>pg_done = int_succ don, pg_total = tot, pg_message = ''Downloading chunks''\<rparr>]\<rparr>"
    obtain m where m: "i = Suc m" using True Cons.prems(5) by (cases i) auto
    have eq: "idx + of_nat i = idx + 1 + of_nat m" by (simp add: m)
    have "up (ds_world ?s2) p (n + ?L * length cids) b" if "p \<in> set (cc_peers cfg)" for p
      using weak [OF that] f(2) by (simp add: served_def)
    moreover have "\<forall>j \<in> set cids. \<forall>p \<in> set (cc_peers cfg). held (ds_world ?s2) p j = Some (V j)"
      using Cons.prems(3) f(2) by (simp add: served_def)
    moreover have "m < length cids" "\<not> opens env keys (idx + 1 + of_nat m) (cids ! m) (V (cids ! m))"
      using Cons.prems(4,5) m unfolding eq by simp_all
    moreover have "\<forall>j \<in> set cids. name_ok j" using Cons.prems(1) by simp
    ultimately obtain e content s' where "fetch_chunks env cfg dht keys tot (int_succ don) (idx + 1) cids ?s2 = (Inl e, content, s')"
      using Cons.IH [of ?s2 m "idx + 1" "int_succ don"] by blast
    then show ?thesis using cs(1) f(1) by (auto simp: Let_def)
  qed
qed simp

lemma getFile_bad:
  assumes env: "en_net env = net" "digest32 (en_sha256 env)" "\<And>d. name_ok (sha256_hex (en_sha256 env) d)"
    and peers: "cc_peers cfg \<noteq> []" "\<forall>p \<in> set (cc_peers cfg). up (ds_world s) p (length (cc_peers cfg) * length (mf_chunks m)) b"
    and mani: "\<exists>p \<in> set (cc_peers cfg). published (ds_world s) p mid = Some tx"
      "mid = sha256_hex (en_sha256 env) tx" "parseManifestText tx = Inr m"
      "\<forall>p \<in> set (cc_peers cfg). \<forall>v. published (ds_world s) p mid = Some v \<and> sha256_hex (en_sha256 env) v = mid \<longrightarrow> v = tx"
      "normalize_manifest_id ref = mid" "\<not> fs_exists (ds_disk s) ref"
    and key: "unwrap_key env cfg (ds_disk s) m = (Inr keys, df)" and ids: "\<forall>cid \<in> set (mf_chunks m). name_ok cid"
    and held: "\<forall>cid \<in> set (mf_chunks m). \<forall>p \<in> set (cc_peers cfg). held (ds_world s) p cid = Some (V cid)"
    and bad: "i < length (mf_chunks m)" "\<not> opens env keys (of_nat i) (mf_chunks m ! i) (V (mf_chunks m ! i))"
  shows "\<exists>e s'. getFile env cfg ref out s = (Inl e, s')"
proof -
  let ?N = "length (cc_peers cfg) * length (mf_chunks m)"
  obtain dht where dht: "DhtNode (en_sha256 env) (cc_peers cfg) = Inr dht" "table_of (en_sha256 env) (set (cc_peers cfg)) dht"
      and res: "resolve_manifest env cfg dht ref s = (Inr m, s)"
    using resolve_up [where n = ?N and b = b, OF env _ _ mani(2-6)] peers(2) mani(1) by blast
  let ?s1 = "s\<lparr>ds_double_free := ds_double_free s \<or> df\<rparr>"
  have F: "\<exists>e content s2. fetch_chunks env cfg dht keys (int_of_size (length (mf_chunks m))) 0 0 (mf_chunks m) (?s1\<lparr>ds_disk := d\<rparr>)
      = (Inl e, content, s2)" for d
    using peers(2) held bad
    by (intro fetch_chunks_bad [OF env(1,2) ids dht(2), where V = V and n = 0 and b = b and i = i]) (simp_all add: peers(1))
  have "\<exists>e s'. write_output env cfg dht keys m out ?s1 = (Inl e, s')"
  proof (cases "fs_write (ds_disk s) out []")
    case (Some d)
    obtain e content s2 where "fetch_chunks env cfg dht keys (int_of_size (length (mf_chunks m))) 0 0 (mf_chunks m) (?s1\<lparr>ds_disk := d\<rparr>)
        = (Inl e, content, s2)" using F by blast
    then show ?thesis using Some by (simp add: write_output_def)
  qed (simp add: write_output_def)
  then show ?thesis using peers(1) dht(1) res key by (auto simp: getFile_def)
qed

text \<open>When every peer is up and has one version of each chunk, the download succeeds if all of them open.\<close>

lemma getFile_iff:
  assumes env: "en_net env = net" "digest32 (en_sha256 env)" "\<And>d. name_ok (sha256_hex (en_sha256 env) d)"
    and peers: "cc_peers cfg \<noteq> []" "\<forall>p \<in> set (cc_peers cfg). up (ds_world s) p (length (cc_peers cfg) * length (mf_chunks m)) b"
    and mani: "\<exists>p \<in> set (cc_peers cfg). published (ds_world s) p mid = Some tx"
      "mid = sha256_hex (en_sha256 env) tx" "parseManifestText tx = Inr m"
      "\<forall>p \<in> set (cc_peers cfg). \<forall>v. published (ds_world s) p mid = Some v \<and> sha256_hex (en_sha256 env) v = mid \<longrightarrow> v = tx"
      "normalize_manifest_id ref = mid" "\<not> fs_exists (ds_disk s) ref"
    and key: "unwrap_key env cfg (ds_disk s) m = (Inr keys, df)" and ids: "\<forall>cid \<in> set (mf_chunks m). name_ok cid"
    and out: "can_open (ds_disk s) out"
    and held: "\<forall>cid \<in> set (mf_chunks m). \<forall>p \<in> set (cc_peers cfg). held (ds_world s) p cid = Some (V cid)"
  shows "(\<exists>s'. getFile env cfg ref out s = (Inr (), s'))
    \<longleftrightarrow> (\<forall>i < length (mf_chunks m). opens env keys (of_nat i) (mf_chunks m ! i) (V (mf_chunks m ! i)))"
proof
  assume ok: "\<exists>s'. getFile env cfg ref out s = (Inr (), s')"
  show "\<forall>i < length (mf_chunks m). opens env keys (of_nat i) (mf_chunks m ! i) (V (mf_chunks m ! i))"
  proof (intro allI impI, rule ccontr)
    fix i assume "i < length (mf_chunks m)" "\<not> opens env keys (of_nat i) (mf_chunks m ! i) (V (mf_chunks m ! i))"
    then obtain e s' where "getFile env cfg ref out s = (Inl e, s')"
      using getFile_bad [OF env peers mani key ids held, of i out] by blast
    then show False using ok by simp
  qed
next
  assume opens: "\<forall>i < length (mf_chunks m). opens env keys (of_nat i) (mf_chunks m ! i) (V (mf_chunks m ! i))"
  obtain q where q: "q \<in> set (cc_peers cfg)" using peers(1) by (cases "cc_peers cfg") auto
  have "\<forall>i < length (mf_chunks m). \<exists>p \<in> set (cc_peers cfg). up (ds_world s) p (length (cc_peers cfg) * length (mf_chunks m)) b
      \<and> (\<exists>v. held (ds_world s) p (mf_chunks m ! i) = Some v \<and> opens env keys (of_nat i) (mf_chunks m ! i) v)"
    using opens held peers(2) q nth_mem by blast
  with peers(2) mani(1) have "\<exists>s' pieces. getFile env cfg ref out s = (Inr (), s') \<and> accepted_texts env cfg ref s = tx # pieces
      \<and> (keys = None \<longrightarrow> set pieces \<subseteq> texts (ds_world s))"
    by (intro getFile_up [OF env peers(1) _ _ mani(2-6) key out ids, where b = b]) blast+
  then show "\<exists>s'. getFile env cfg ref out s = (Inr (), s')" by blast
qed

end

section \<open>Encrypted files end to end\<close>

definition sealed_manifest ::
    "(bytes \<Rightarrow> octet list) \<Rightarrow> client_config \<Rightarrow> string \<Rightarrow> bytes \<Rightarrow> encrypted_key \<Rightarrow> chunk list \<Rightarrow> manifest" where
  "sealed_manifest sha cfg path content ek chunks =
     (manifest_head cfg path (length content) (Some ek))\<lparr>mf_chunks := map (sha256_hex sha) (map ck_bytes chunks)\<rparr>"

lemma sealed_manifest_simps:
  "mf_chunks (sealed_manifest sha cfg path content ek chunks) = map (sha256_hex sha) (map ck_bytes chunks)"
  "mf_encrypted (sealed_manifest sha cfg path content ek chunks)"
  "mf_encryptedKeyHex (sealed_manifest sha cfg path content ek chunks) = to_hex (ek_blob ek)"
  "mf_keyEncAlgo (sealed_manifest sha cfg path content ek chunks) = ek_alg ek"
  by (simp_all add: sealed_manifest_def manifest_head_def)

lemma sealed_manifest_wf:
  assumes "digest32 sha" "is_token (path_filename path)" "length chunks \<le> entries_max" "is_token (ek_alg ek)" "ek_blob ek \<noteq> []"
  shows "wf_manifest (sealed_manifest sha cfg path content ek chunks)"
proof -
  have "is_token ''AES-256-GCM''" by (simp add: is_token_def isspace_def)
  then show ?thesis
    using assms sha_hex_is_token [OF assms(1)] hexc.enc_is_token
    by (auto simp: wf_manifest_def sealed_manifest_def manifest_head_def empty_manifest_def)
qed

text \<open>The wrapped key of a manifest comes back with the private key of the pair.\<close>

lemma unwrap_sealed:
  assumes "make_file_key env cfg rk ri d = Inr (Some (fp, ek))" "fs_read d (cc_rsaPublicKeyPath cfg) = Some pub"
    "fs_read d' (cc_rsaPrivateKeyPath cfg') = Some priv" "rsa_pair (en_pkey env) pub priv" "en_pkey env' = en_pkey env"
    "length (fp_key fp) = 32" "length (fp_iv fp) = 12" "ek_blob ek \<noteq> []" "cc_rsaPrivateKeyPath cfg' \<noteq> []"
    "mf_encrypted m" "mf_encryptedKeyHex m = to_hex (ek_blob ek)" "mf_keyEncAlgo m = ek_alg ek"
  shows "unwrap_key env' cfg' d' m = (Inr (Some fp), False)" "ek_alg ek = ''RSA''"
proof -
  have "encrypt_file_key_rsa (en_pkey env) d fp (cc_rsaPublicKeyPath cfg) = Inr ek"
    using assms(1) by (auto simp: make_file_key_def result_iff split: if_splits)
  from file_key_recovered [OF this assms(2-4,6,7)]
  show "ek_alg ek = ''RSA''" "unwrap_key env' cfg' d' m = (Inr (Some fp), False)"
    using assms(5,8-12) hexc.dec_enc [of "ek_blob ek"] by (cases ek; simp add: unwrap_key_def Let_def)+
qed

lemma seal_opens_iff:
  assumes "gcm_documented (en_cipher env)" "nonce_bound (en_cipher env) (fp_key fp) (nonces (fp_iv fp) n) pts" "length (fp_iv fp) = 12"
    "seals env fp c" "length c + 16 < 2 ^ 31" "octets_of c \<in> pts"
    "i < n" "j < n" "n \<le> 2 ^ 32" "en_cipher env' = en_cipher env" "sha256_hex (en_sha256 env') c = cid"
  shows "live.opens env' (Some fp) (of_nat i) cid (seal env fp (of_nat j) c) \<longleftrightarrow> i = j"
proof -
  obtain r where e: "aes_gcm_encrypt (en_cipher env) c (fp_key fp) (fp_iv fp) (of_nat j) = (r, Inr (seal env fp (of_nat j) c))"
    using assms(4) unfolding seals_def by (metis prod.collapse)
  show ?thesis
  proof
    assume "live.opens env' (Some fp) (of_nat i) cid (seal env fp (of_nat j) c)"
    then obtain k x where "aes_gcm_decrypt (en_cipher env) (seal env fp (of_nat j) c) (fp_key fp) (fp_iv fp) (of_nat i) = (k, Inr x)"
      by (auto simp: live.opens_def assms(10) split: prod.splits sum.splits)
    from opens_at_own_index [OF assms(1-3,5,6) e this assms(8,7,9)] show "i = j" by simp
  next
    assume "i = j"
    then show "live.opens env' (Some fp) (of_nat i) cid (seal env fp (of_nat j) c)"
      using aes_gcm_reopens [OF assms(1) e assms(5)] assms(10,11) by (simp add: live.opens_def)
  qed
qed

text \<open>What is left of a chunk opens at its index when no later chunk is equal to it.\<close>

lemma latest_opens:
  assumes "gcm_documented (en_cipher env)" "length (fp_iv fp) = 12"
    "nonce_bound (en_cipher env) (fp_key fp) (nonces (fp_iv fp) (length cs)) (octets_of ` set cs)"
    "\<forall>c \<in> set cs. seals env fp c \<and> length c + 16 < 2 ^ 31" "en_cipher env' = en_cipher env" "en_sha256 env' = en_sha256 env"
    "no_collision (en_sha256 env) (set cs)" "length cs \<le> 2 ^ 32" "i < length cs"
  shows "\<exists>v. latest (seal env fp) (sha256_hex (en_sha256 env)) 0 cs (sha256_hex (en_sha256 env) (cs ! i)) = Some v
    \<and> (live.opens env' (Some fp) (of_nat i) (sha256_hex (en_sha256 env) (cs ! i)) v
       \<longleftrightarrow> (\<forall>b < length cs. cs ! b = cs ! i \<longrightarrow> b \<le> i))"
proof -
  let ?cid = "sha256_hex (en_sha256 env)"
  obtain j where j: "i \<le> j" "j < length cs" "?cid (cs ! j) = ?cid (cs ! i)"
      "latest (seal env fp) ?cid 0 cs (?cid (cs ! i)) = Some (seal env fp (of_nat j) (cs ! j))"
      "\<forall>l < length cs. ?cid (cs ! l) = ?cid (cs ! i) \<longrightarrow> l \<le> j"
    using latest_last [OF assms(9), of ?cid "seal env fp" 0] by auto
  have same: "cs ! l = cs ! i" if "l < length cs" "?cid (cs ! l) = ?cid (cs ! i)" for l
    using no_collisionD [OF assms(7) _ _ that(2)] that(1) assms(9) by simp
  have "live.opens env' (Some fp) (of_nat i) (?cid (cs ! i)) (seal env fp (of_nat j) (cs ! j)) \<longleftrightarrow> i = j"
    using assms(4,5,6,8,9) j(2,3) by (intro seal_opens_iff [OF assms(1,3,2)]) auto
  moreover have "i = j \<longleftrightarrow> (\<forall>b < length cs. cs ! b = cs ! i \<longrightarrow> b \<le> i)"
    using j(1,2,5) same [OF j(2,3)] by (metis le_antisym)
  ultimately show ?thesis using j(4) by blast
qed

lemma chunkFile_sizes:
  assumes "chunkFile d path chunkSize = Inr cs" "c \<in> set cs"
  shows "length (ck_bytes c) \<le> unat chunkSize"
proof -
  obtain content where "cs = chunk_loop (unat chunkSize) content" "chunkSize \<noteq> 0"
    using assms(1) by (auto simp: chunkFile_def split: if_splits option.splits)
  moreover from this(2) have "unat chunkSize > 0" by (simp add: unat_gt_0)
  ultimately show ?thesis using chunk_loop_spec [of "unat chunkSize" content] assms(2) by blast
qed

lemma put_sealed:
  assumes net: "segments seg" "en_net env = cluster_net resolve seg" "digest32 (en_sha256 env)"
    and cipher: "gcm_documented (en_cipher env)" "\<forall>c \<in> set chunks. seals env fp (ck_bytes c)"
      "unat (cc_chunkSize cfg) + 16 < 2 ^ 31"
    and cfg: "cc_peers cfg \<noteq> []" "DhtNode (en_sha256 env) (cc_peers cfg) = Inr dht"
      "endpoint ` set (rt_nodes dht) = set (cc_peers cfg)" "length (rt_nodes dht) \<le> nat (clamp_replicas cfg)"
    and key: "make_file_key env cfg rk ri (ds_disk s) = Inr (Some (fp, ek))"
    and src: "fs_read (ds_disk s) path = Some content" "chunkFile (ds_disk s) path (cc_chunkSize cfg) = Inr chunks"
    and m: "m = sealed_manifest (en_sha256 env) cfg path content ek chunks" "length (serializeManifest m) < vector_char_max"
      "write_local_manifest cfg (en_cwd env) m (ds_disk s) = (Inr lp, d')"
    and up: "\<forall>p \<in> set (cc_peers cfg). up_in resolve (ds_world s) p
        (n + length (cc_peers cfg) * length chunks) (length (cc_peers cfg) * (length content + 16 * length chunks))"
  shows "\<exists>res s1. putFile env cfg rk ri path s = (Inr res, s1)
    \<and> pr_shareUri res = share_prefix @ sha256_hex (en_sha256 env) (serializeManifest m)
    \<and> (\<forall>p \<in> set (cc_peers cfg). up_in resolve (ds_world s1) p n 0)
    \<and> (\<forall>p \<in> set (cc_peers cfg). published_in resolve (ds_world s1) p (sha256_hex (en_sha256 env) (serializeManifest m)) = Some (serializeManifest m))
    \<and> (\<forall>p \<in> set (cc_peers cfg). held_in resolve (ds_world s1) p
         = held_in resolve (ds_world s) p ++ latest (seal env fp) (sha256_hex (en_sha256 env)) 0 (map ck_bytes chunks))"
proof -
  let ?sha = "en_sha256 env" and ?r = "clamp_replicas cfg" and ?P = "set (cc_peers cfg)" and ?cs = "map ck_bytes chunks"
  let ?T = "length (rt_nodes dht)" and ?L = "length (cc_peers cfg)"
  let ?mid = "sha256_hex ?sha (serializeManifest m)"
  note tab = table_of_DhtNode [OF cfg(2)]
  note ts = all_targets [OF tab cfg(3,4)]
  note parts = chunkFile_parts [OF src(2,1)]
  have N: "en_net env = cluster_net resolve (orderly seg)" using net(1,2) by simp
  have small: "\<forall>c \<in> set ?cs. seals env fp c \<and> length c + 16 < 2 ^ 31"
    using chunkFile_sizes [OF src(2)] cipher(2,3) by fastforce
  have sum: "sum_list (map (\<lambda>c. length c + 16) ?cs) = length content + 16 * length chunks"
    using parts length_concat [of ?cs] by (simp only: sum_list_addf sum_list_triv length_map) simp
  have TL: "?T \<le> ?L" using dht_size [OF tab] card_length [of "cc_peers cfg"] by simp
  have U: "\<forall>p \<in> ?P. up_in resolve (ds_world s) p (n + ?T * length ?cs) (?T * sum_list (map (\<lambda>c. length c + 16) ?cs) + 0)"
    unfolding sum length_map
  proof
    fix p assume "p \<in> ?P"
    then have "up_in resolve (ds_world s) p (n + ?L * length chunks) (?L * (length content + 16 * length chunks) + 0)"
      unfolding add_0_right using up by blast
    then show "up_in resolve (ds_world s) p (n + ?T * length chunks) (?T * (length content + 16 * length chunks) + 0)"
      by (rule live.up_scale) (rule TL)
  qed
  from live.put_chunks_sealed [OF N net(3) sha256_good_name [OF net(3)] cipher(1) ts small U, of "int_of_size (length chunks)" 0]
  obtain s1 where s1: "put_chunks env dht ?r (Some fp) (int_of_size (length chunks)) 0 0 ?cs s = (Inr (map (sha256_hex ?sha) ?cs), s1)"
      "ds_disk s1 = ds_disk s"
      "\<forall>p \<in> ?P. held_in resolve (ds_world s1) p = held_in resolve (ds_world s) p ++ latest (seal env fp) (sha256_hex ?sha) 0 ?cs"
      "\<forall>p \<in> ?P. up_in resolve (ds_world s1) p n 0"
    by blast
  have loc: "write_local_manifest cfg (en_cwd env) m (ds_disk s1) = (Inr lp, d')" using m(3) s1(2) by simp
  from live.publish_up [OF N net(3) sha256_good_name [OF net(3)] tab s1(4) m(2) loc refl, of ?r] obtain w2 where
    w2: "publish_manifest env cfg dht ?r m s1
        = (Inr \<lparr>pr_shareUri = share_prefix @ ?mid, pr_localManifestPath = lp\<rparr>, s1\<lparr>ds_world := w2, ds_disk := d'\<rparr>)"
      "held_in resolve w2 = held_in resolve (ds_world s1)"
      "\<forall>p \<in> set (targets_of ?sha dht ?r (''manifest:'' @ ?mid)). published_in resolve w2 p ?mid = Some (serializeManifest m)"
      "\<forall>p \<in> ?P. up_in resolve w2 p n 0" by blast
  have "putFile env cfg rk ri path s = (Inr \<lparr>pr_shareUri = share_prefix @ ?mid, pr_localManifestPath = lp\<rparr>, s1\<lparr>ds_world := w2, ds_disk := d'\<rparr>)"
    using cfg(1,2) key src(1,2) s1(1) w2(1) by (simp add: putFile_def Let_def m(1) sealed_manifest_def)
  then show ?thesis using s1(3) w2(2-4) ts(1) by (intro exI conjI) (assumption | simp)+
qed

lemma sealed_get_iff:
  assumes net: "segments seg" "en_net env = cluster_net resolve seg" "en_net env' = cluster_net resolve seg"
      "en_sha256 env' = en_sha256 env" "en_cipher env' = en_cipher env" "en_pkey env' = en_pkey env" "digest32 (en_sha256 env)"
    and cipher: "gcm_documented (en_cipher env)" "\<forall>c \<in> set chunks. seals env fp (ck_bytes c)"
      "nonce_bound (en_cipher env) (fp_key fp) (nonces (fp_iv fp) (length chunks)) (octets_of ` set (map ck_bytes chunks))"
      "unat (cc_chunkSize cfg) + 16 < 2 ^ 31"
    and cfg: "cc_peers cfg \<noteq> []" "set (cc_peers cfg') = set (cc_peers cfg)" "DhtNode (en_sha256 env) (cc_peers cfg) = Inr dht"
      "endpoint ` set (rt_nodes dht) = set (cc_peers cfg)" "length (rt_nodes dht) \<le> nat (clamp_replicas cfg)"
    and key: "make_file_key env cfg rk ri (ds_disk s) = Inr (Some (fp, ek))" "length (fp_key fp) = 32" "length (fp_iv fp) = 12"
      "fs_read (ds_disk s) (cc_rsaPublicKeyPath cfg) = Some pub" "rsa_pair (en_pkey env) pub priv" "ek_blob ek \<noteq> []"
      "cc_rsaPrivateKeyPath cfg' \<noteq> []"
    and src: "fs_read (ds_disk s) path = Some content" "chunkFile (ds_disk s) path (cc_chunkSize cfg) = Inr chunks"
      "is_token (path_filename path)" "length content \<le> entries_max" "length chunks \<le> 2 ^ 32"
    and m: "m = sealed_manifest (en_sha256 env) cfg path content ek chunks" "length (serializeManifest m) < vector_char_max"
      "write_local_manifest cfg (en_cwd env) m (ds_disk s) = (Inr lp, d')"
    and ids: "no_collision (en_sha256 env) (set (map ck_bytes chunks))"
    and up: "\<forall>p \<in> set (cc_peers cfg). up_in resolve (ds_world s) p
        ((length (cc_peers cfg') + length (cc_peers cfg)) * length chunks)
        (length (cc_peers cfg) * (length content + 16 * length chunks))"
  shows "\<exists>res s1. putFile env cfg rk ri path s = (Inr res, s1)
    \<and> pr_shareUri res = share_prefix @ sha256_hex (en_sha256 env) (serializeManifest m) \<and>
    (\<forall>s2 out. ds_world s2 = ds_world s1 \<and> \<not> fs_exists (ds_disk s2) (pr_shareUri res) \<and> can_open (ds_disk s2) out
       \<and> fs_read (ds_disk s2) (cc_rsaPrivateKeyPath cfg') = Some priv \<longrightarrow>
     ((\<exists>s3. getFile env' cfg' (pr_shareUri res) out s2 = (Inr (), s3)) \<longleftrightarrow> distinct (map ck_bytes chunks)))"
proof -
  let ?sha = "en_sha256 env" and ?cs = "map ck_bytes chunks" and ?n = "length (cc_peers cfg') * length chunks"
  let ?mid = "sha256_hex ?sha (serializeManifest m)" and ?L = "latest (seal env fp) (sha256_hex ?sha) 0 (map ck_bytes chunks)"
  have U: "\<forall>p \<in> set (cc_peers cfg). up_in resolve (ds_world s) p (?n + length (cc_peers cfg) * length chunks)
      (length (cc_peers cfg) * (length content + 16 * length chunks))"
    using up by (simp add: algebra_simps)
  obtain res s1 where s1: "putFile env cfg rk ri path s = (Inr res, s1)" "pr_shareUri res = share_prefix @ ?mid"
      "\<forall>p \<in> set (cc_peers cfg). up_in resolve (ds_world s1) p ?n 0"
      "\<forall>p \<in> set (cc_peers cfg). published_in resolve (ds_world s1) p ?mid = Some (serializeManifest m)"
      "\<forall>p \<in> set (cc_peers cfg). held_in resolve (ds_world s1) p = held_in resolve (ds_world s) p ++ ?L"
    using put_sealed [OF net(1,2,7) cipher(1,2,4) cfg(1,3-5) key(1) src(1,2) m U] by blast
  have "(\<exists>s3. getFile env' cfg' (share_prefix @ ?mid) out s2 = (Inr (), s3)) \<longleftrightarrow> distinct ?cs"
    if s2: "ds_world s2 = ds_world s1" "\<not> fs_exists (ds_disk s2) (share_prefix @ ?mid)" "can_open (ds_disk s2) out"
      "fs_read (ds_disk s2) (cc_rsaPrivateKeyPath cfg') = Some priv" for s2 out
  proof -
    let ?P = "set (cc_peers cfg')" and ?w = "ds_world s2" and ?V = "\<lambda>k. the (?L k)"
    have chs: "mf_chunks m = map (sha256_hex ?sha) ?cs" by (simp add: m(1) sealed_manifest_simps)
    have rsa: "unwrap_key env' cfg' (ds_disk s2) m = (Inr (Some fp), False)" "ek_alg ek = ''RSA''"
      using unwrap_sealed [OF key(1,4) s2(4) key(5) net(6) key(2,3,6,7), of m] by (simp_all add: m(1) sealed_manifest_simps)
    have "is_token ''RSA''" by (simp add: is_token_def isspace_def)
    then have wf: "wf_manifest m" unfolding m(1)
      using chunkFile_parts [OF src(2,1)] src(3,4) key(6) rsa(2) by (intro sealed_manifest_wf [OF net(7)]) simp_all
    have sealable: "\<forall>c \<in> set ?cs. seals env fp c \<and> length c + 16 < 2 ^ 31"
      using chunkFile_sizes [OF src(2)] cipher(2,4) by fastforce
    have V: "?L (sha256_hex ?sha c) = Some (?V (sha256_hex ?sha c))" if "c \<in> set ?cs" for c
      using latest_held [of c ?cs] that by fastforce
    have E: "en_net env' = cluster_net resolve (orderly seg)" "digest32 (en_sha256 env')" using net(1,3,4,7) by simp_all
    have peers: "cc_peers cfg' \<noteq> []" "\<forall>p \<in> ?P. up_in resolve ?w p (length (cc_peers cfg') * length (mf_chunks m)) 0"
      using cfg(1,2) s1(3) s2(1) chs by auto
    have mani: "\<exists>p \<in> ?P. published_in resolve ?w p ?mid = Some (serializeManifest m)"
      "?mid = sha256_hex (en_sha256 env') (serializeManifest m)" "parseManifestText (serializeManifest m) = Inr m"
      "\<forall>p \<in> ?P. \<forall>v. published_in resolve ?w p ?mid = Some v \<and> sha256_hex (en_sha256 env') v = ?mid \<longrightarrow> v = serializeManifest m"
      "normalize_manifest_id (share_prefix @ ?mid) = ?mid"
      using s1(4) peers(1) cfg(2) s2(1) net(4) parse_serialize [OF wf] by (cases "cc_peers cfg'"; auto)+
    have held: "\<forall>k \<in> set (mf_chunks m). \<forall>p \<in> ?P. held_in resolve ?w p k = Some (?V k)"
    proof (intro ballI)
      fix k p assume "k \<in> set (mf_chunks m)" "p \<in> ?P"
      then obtain c where c: "c \<in> set ?cs" "k = sha256_hex ?sha c" "p \<in> set (cc_peers cfg)"
        using cfg(2) unfolding chs by auto
      have "held_in resolve ?w p k = (held_in resolve (ds_world s) p ++ ?L) k" unfolding s2(1) using s1(5) c(3) by metis
      also have "\<dots> = Some (?V k)" using V [OF c(1)] unfolding c(2) by (rule map_add_find_right)
      finally show "held_in resolve ?w p k = Some (?V k)" .
    qed
    have names: "\<forall>k \<in> set (mf_chunks m). good_name k" using sha256_good_name [OF net(7)] by (auto simp: chs)
    have "(\<exists>s3. getFile env' cfg' (share_prefix @ ?mid) out s2 = (Inr (), s3)) \<longleftrightarrow>
        (\<forall>i < length (mf_chunks m). live.opens env' (Some fp) (of_nat i) (mf_chunks m ! i) (?V (mf_chunks m ! i)))"
      by (rule live.getFile_iff [OF E sha256_good_name [OF E(2)] peers mani s2(2) rsa(1) names s2(3) held])
    also have "\<dots> \<longleftrightarrow> (\<forall>i < length ?cs. \<forall>b < length ?cs. ?cs ! b = ?cs ! i \<longrightarrow> b \<le> i)"
      using latest_opens [OF cipher(1) key(3) _ sealable net(5,4) ids _] cipher(3) src(5) by (fastforce simp: chs)
    also have "\<dots> \<longleftrightarrow> distinct ?cs" by (rule distinct_last_iff [symmetric])
    finally show ?thesis .
  qed
  then show ?thesis using s1(1,2) by auto
qed

text \<open>
  C3: An encrypted file can be fetched again exactly when its chunks are pairwise different.
  Each peer keeps one ciphertext per plaintext hash, that of the last copy in the file,
  and it opens at the index of that copy only; the other copies cannot be read, and the
  download fails at the first of them although every upload succeeded and every peer is up.
  This is for full replication: there are at least as many replicas as nodes, so that every
  peer is to hold every chunk, and between upload and download nothing changes. The file
  name is one word, the chunk size is below \<open>2 ^ 31 - 16\<close> bytes, the file has at most
  \<open>2 ^ 32\<close> chunks and no two different ones with the same SHA-256, the private key is at
  hand, and no ciphertext of these chunks opens under the nonce of another of them.
\<close>

theorem encrypted_get_iff_distinct:
  assumes net: "segments seg" "en_net env = cluster_net resolve seg" "en_net env' = cluster_net resolve seg"
      "en_sha256 env' = en_sha256 env" "en_cipher env' = en_cipher env" "en_pkey env' = en_pkey env" "digest32 (en_sha256 env)"
    and cipher: "gcm_documented (en_cipher env)" "\<forall>c \<in> set chunks. seals env fp (ck_bytes c)"
      "nonce_bound (en_cipher env) (fp_key fp) (nonces (fp_iv fp) (length chunks)) (octets_of ` set (map ck_bytes chunks))"
      "unat (cc_chunkSize cfg) + 16 < 2 ^ 31"
    and cfg: "cc_peers cfg \<noteq> []" "set (cc_peers cfg') = set (cc_peers cfg)" "DhtNode (en_sha256 env) (cc_peers cfg) = Inr dht"
      "endpoint ` set (rt_nodes dht) = set (cc_peers cfg)" "length (rt_nodes dht) \<le> nat (clamp_replicas cfg)"
    and key: "make_file_key env cfg rk ri (ds_disk s) = Inr (Some (fp, ek))" "length (fp_key fp) = 32" "length (fp_iv fp) = 12"
      "fs_read (ds_disk s) (cc_rsaPublicKeyPath cfg) = Some pub" "rsa_pair (en_pkey env) pub priv" "ek_blob ek \<noteq> []"
      "cc_rsaPrivateKeyPath cfg' \<noteq> []"
    and src: "fs_read (ds_disk s) path = Some content" "chunkFile (ds_disk s) path (cc_chunkSize cfg) = Inr chunks"
      "is_token (path_filename path)" "length content \<le> entries_max" "length chunks \<le> 2 ^ 32"
    and m: "m = sealed_manifest (en_sha256 env) cfg path content ek chunks" "length (serializeManifest m) < vector_char_max"
      "write_local_manifest cfg (en_cwd env) m (ds_disk s) = (Inr lp, d')"
    and ids: "no_collision (en_sha256 env) (set (map ck_bytes chunks))"
    and up: "\<forall>p \<in> set (cc_peers cfg). up_in resolve (ds_world s) p
        ((length (cc_peers cfg') + length (cc_peers cfg)) * length chunks)
        (length (cc_peers cfg) * (length content + 16 * length chunks))"
  shows "\<exists>res s1. putFile env cfg rk ri path s = (Inr res, s1)
    \<and> pr_shareUri res = share_prefix @ sha256_hex (en_sha256 env) (serializeManifest m) \<and>
    (\<forall>s2 out. ds_world s2 = ds_world s1 \<and> \<not> fs_exists (ds_disk s2) (pr_shareUri res) \<and> can_open (ds_disk s2) out
       \<and> fs_read (ds_disk s2) (cc_rsaPrivateKeyPath cfg') = Some priv \<longrightarrow>
     ((\<exists>s3. getFile env' cfg' (pr_shareUri res) out s2 = (Inr (), s3)) \<longleftrightarrow> distinct (map ck_bytes chunks)))"
  by (rule sealed_get_iff [OF assms])

section \<open>An example: two equal chunks\<close>

text \<open>A cipher that leaves the text alone and whose tag is the nonce, which it checks.\<close>

definition nonce_cipher :: "(octet list \<times> bool) evp_cipher" where
  "nonce_cipher = \<lparr>ev_new = Some ([], False), ev_einit = Some,
     ev_ekey = (\<lambda>c k v. if length v = 12 then Some (v, False) else None),
     ev_eupdate = (\<lambda>c p n. Some (take (nat n) p, c)), ev_efinal = (\<lambda>c. Some ([], c)),
     ev_get_tag = (\<lambda>c. Some (fst c @ replicate 4 0)), ev_dinit = Some,
     ev_dkey = (\<lambda>c k v. if length v = 12 then Some (v, False) else None),
     ev_dupdate = (\<lambda>c p n. Some (take (nat n) p, c)), ev_set_tag = (\<lambda>c t. Some (fst c, t = fst c @ replicate 4 0)),
     ev_dfinal = (\<lambda>c. if snd c then Some ([], c) else None)\<rparr>"

lemma nonce_cipher_laws: "gcm_documented nonce_cipher" "nonce_bound nonce_cipher key ivs pts"
  by (auto simp: gcm_documented_def nonce_bound_def sealed_def opened_def nonce_cipher_def split: if_splits)

definition twin_key :: file_encryption_params where
  "twin_key = \<lparr>fp_key = replicate 32 1, fp_iv = replicate 12 2\<rparr>"

definition twin_ek :: encrypted_key where
  "twin_ek = \<lparr>ek_alg = ''RSA'', ek_blob = replicate 12 2 @ replicate 32 1\<rparr>"

definition twin_config :: client_config where
  "twin_config = toy_config\<lparr>cc_rsaPublicKeyPath := ''pub.pem'', cc_rsaPrivateKeyPath := ''priv.pem''\<rparr>"

definition twin_manifest :: manifest where
  "twin_manifest = empty_manifest\<lparr>mf_originalName := ''f'', mf_originalSize := 8, mf_chunkSize := 4, mf_encrypted := True,
     mf_encAlgo := ''AES-256-GCM'', mf_keyEncAlgo := ''RSA'', mf_encryptedKeyHex := to_hex (replicate 12 2 @ replicate 32 1),
     mf_chunks := [to_hex (replicate 32 1), to_hex (replicate 32 1)]\<rparr>"

definition twin_env :: "(cluster, octet list \<times> bool, unit, unit) dss_env" where
  "twin_env = \<lparr>en_sha256 = sha_for twin_manifest, en_cipher = nonce_cipher, en_pkey = plain_rsa,
     en_net = cluster_net toy_resolve (\<lambda>m. [Data m]), en_cwd = ''/h''\<rparr>"

abbreviation twin_chunks :: "chunk list" where
  "twin_chunks \<equiv> [\<lparr>ck_id = [], ck_bytes = ''data''\<rparr>, \<lparr>ck_id = [], ck_bytes = ''data''\<rparr>]"

lemma twin_setting:
  "en_sha256 twin_env = sha_for twin_manifest" "en_net twin_env = cluster_net toy_resolve (\<lambda>m. [Data m])"
  "en_cipher twin_env = nonce_cipher" "en_cwd twin_env = ''/h''" "cc_peers twin_config = cc_peers toy_config"
  "cc_chunkSize twin_config = 4" "cc_rsaPublicKeyPath twin_config = ''pub.pem''" "cc_rsaPrivateKeyPath twin_config = ''priv.pem''"
  "clamp_replicas twin_config = 2"
  by (simp_all add: twin_env_def twin_config_def toy_config_def clamp_replicas_def int_of_size_def)

lemma twin_seals:
  assumes "length c + 16 < 2 ^ 31"
  shows "seals twin_env twin_key c"
proof -
  have "\<exists>v. derive_chunk_iv (replicate 12 2) idx = Inr v \<and> length v = 12" for idx
    by (simp add: derive_chunk_iv_def Let_def)
  note iv = this
  have "\<exists>ct. snd (aes_gcm_encrypt nonce_cipher c (replicate 32 1) (replicate 12 2) idx) = Inr ct" for idx
  proof -
    obtain v where "derive_chunk_iv (replicate 12 2) idx = Inr v" "length v = 12" using iv [of idx] by blast
    then show ?thesis
      using assms by (simp add: aes_gcm_encrypt_def gcm_encrypt_body_def nonce_cipher_def int_of_size_small resize_ok_def)
  qed
  then have "isl (snd (aes_gcm_encrypt nonce_cipher c (replicate 32 1) (replicate 12 2) idx)) = False" for idx
    by (metis isl_def sum.distinct(1))
  then show ?thesis by (simp add: seals_def seal_def twin_setting twin_key_def)
qed

lemma twin_manifest_sealed:
  "sealed_manifest (sha_for twin_manifest) twin_config ''f'' ''datadata'' twin_ek twin_chunks = twin_manifest"
  by (simp add: sealed_manifest_def manifest_head_def twin_config_def toy_config_def hex_for codes path_filename_def twin_ek_def
      flip: hexc.dec_enc) (simp add: twin_manifest_def)

lemma twin_text: "length (serializeManifest twin_manifest) < vector_char_max"
proof -
  have "length (to_hex (replicate 32 1)) = 64" "length (to_hex (replicate 12 2 @ replicate 32 1)) = 88"
    by (simp_all add: hexc.length_enc)
  moreover have "show_u64 4 = ''4''" "show_u64 8 = ''8''" "show_nat 2 = ''2''" by code_simp+
  ultimately show ?thesis
    by (simp add: twin_manifest_def serializeManifest_def empty_manifest_def vector_char_max_def numeral_2_eq_2 [symmetric])
qed

lemma twin_key_made:
  "make_file_key twin_env twin_config (Some (replicate 32 1)) (Some (replicate 12 2)) (toy_disk [(''f'', ''datadata''), (''pub.pem'', ''P'')])
   = Inr (Some (twin_key, twin_ek))"
  by (simp add: make_file_key_def generate_file_key_def encrypt_file_key_rsa_def twin_env_def twin_config_def plain_rsa_def Let_def
      twin_key_def twin_ek_def toy_disk_def open_disk_def fs_read_def)

lemma twin_file: "chunkFile (toy_disk [(''f'', ''datadata''), (''pub.pem'', ''P'')]) ''f'' 4 = Inr twin_chunks"
  by (simp add: chunkFile_def toy_disk_def open_disk_def fs_read_def vector_char_max_def chunk_loop_Cons)

lemma twin_local: "\<exists>lp d'. write_local_manifest twin_config ''/h'' twin_manifest (toy_disk [(''f'', ''datadata''), (''pub.pem'', ''P'')]) = (Inr lp, d')"
  by (simp add: write_local_manifest_def create_directories_def writeManifest_def fs_write_def toy_disk_def open_disk_def
      twin_config_def toy_config_def Let_def)

lemma no_collision_data: "no_collision sha {x}"
  by (simp add: no_collision_def)

theorem encrypted_get_iff_distinct_witness:
  "\<exists>res s1. putFile twin_env twin_config (Some (replicate 32 1)) (Some (replicate 12 2)) ''f''
      (toy_state toy_cluster [(''f'', ''datadata''), (''pub.pem'', ''P'')]) = (Inr res, s1)
    \<and> \<not> (\<exists>s3. getFile twin_env twin_config (pr_shareUri res) ''o'' (toy_state (ds_world s1) [(''priv.pem'', ''S'')]) = (Inr (), s3))"
proof -
  let ?s = "toy_state toy_cluster [(''f'', ''datadata''), (''pub.pem'', ''P'')]"
  let ?d = "toy_disk [(''f'', ''datadata''), (''pub.pem'', ''P'')]"
  obtain dht where dht: "DhtNode (sha_for twin_manifest) (cc_peers toy_config) = Inr dht" "map endpoint (rt_nodes dht) = cc_peers toy_config"
    using dht_for by blast
  have nodes: "endpoint ` set (rt_nodes dht) = set (cc_peers toy_config)" "length (rt_nodes dht) = 2"
    using dht(2) toy_setting(6) by (metis list.set_map, metis length_map)
  obtain lp d' where loc: "write_local_manifest twin_config ''/h'' twin_manifest ?d = (Inr lp, d')" using twin_local by blast
  have files: "fs_read ?d ''pub.pem'' = Some ''P''" "fs_read ?d ''f'' = Some ''datadata''"
    by (simp_all add: toy_disk_def open_disk_def fs_read_def)
  have pair: "rsa_pair plain_rsa ''P'' ''S''" by (simp add: rsa_pair_def plain_rsa_def)
  have "\<exists>res s1. putFile twin_env twin_config (Some (replicate 32 1)) (Some (replicate 12 2)) ''f'' ?s = (Inr res, s1)
    \<and> pr_shareUri res = share_prefix @ sha256_hex (en_sha256 twin_env) (serializeManifest twin_manifest) \<and>
    (\<forall>s2 out. ds_world s2 = ds_world s1 \<and> \<not> fs_exists (ds_disk s2) (pr_shareUri res) \<and> can_open (ds_disk s2) out
       \<and> fs_read (ds_disk s2) (cc_rsaPrivateKeyPath twin_config) = Some ''S'' \<longrightarrow>
     ((\<exists>s3. getFile twin_env twin_config (pr_shareUri res) out s2 = (Inr (), s3)) \<longleftrightarrow> distinct (map ck_bytes twin_chunks)))"
    using dht nodes loc files pair twin_key_made twin_file twin_text nonce_cipher_laws twin_seals toy_setting(1,5,6,11) no_collision_data digest_for
    by (intro encrypted_get_iff_distinct [where seg = "\<lambda>m. [Data m]" and resolve = toy_resolve and m = twin_manifest and fp = twin_key
        and ek = twin_ek and pub = "''P''" and priv = "''S''" and content = "''datadata''" and chunks = twin_chunks and dht = dht
        and lp = lp and d' = d'])
      (simp_all add: twin_setting toy_setting twin_manifest_sealed [unfolded twin_ek_def] entries_max_def vector_char_max_def toy_empty toy_up twin_key_def twin_ek_def
        twin_env_def)
  then obtain res s1 where run: "putFile twin_env twin_config (Some (replicate 32 1)) (Some (replicate 12 2)) ''f'' ?s = (Inr res, s1)"
    "\<And>s2 out. ds_world s2 = ds_world s1 \<and> \<not> fs_exists (ds_disk s2) (pr_shareUri res) \<and> can_open (ds_disk s2) out
       \<and> fs_read (ds_disk s2) (cc_rsaPrivateKeyPath twin_config) = Some ''S'' \<Longrightarrow>
     (\<exists>s3. getFile twin_env twin_config (pr_shareUri res) out s2 = (Inr (), s3)) \<longleftrightarrow> distinct (map ck_bytes twin_chunks)"
    "pr_shareUri res = share_prefix @ sha256_hex (en_sha256 twin_env) (serializeManifest twin_manifest)"
    by blast
  let ?s2 = "toy_state (ds_world s1) [(''priv.pem'', ''S'')]"
  have "\<not> fs_exists (ds_disk ?s2) (pr_shareUri res)" "fs_read (ds_disk ?s2) ''priv.pem'' = Some ''S''"
    by (simp_all add: run(3) toy_state_def toy_disk_def open_disk_def fs_exists_def fs_read_def share_prefix_def)
  then have "\<not> (\<exists>s3. getFile twin_env twin_config (pr_shareUri res) ''o'' ?s2 = (Inr (), s3))"
    using run(2) [of ?s2 "''o''"] by (simp add: toy_setting twin_setting)
  with run(1) show ?thesis by blast
qed

end
