(* ===== verification/Peer_Main.thy ===== *)
theory Peer_Main
  imports Cluster
begin

text \<open>
  The peer program: \<^verbatim>\<open>peer/main.cpp\<close> and \<^verbatim>\<open>PeerService::runLoop\<close> around the accept loop.
  Which system calls succeed and what \<^verbatim>\<open>accept\<close> returns are parameters; when the list of
  outcomes ends the process is taken to be stopped. Shown is that chunks survive a restart.
\<close>

record peer_os =
  po_socket :: bool
  po_bind :: "16 word \<Rightarrow> bool"
  po_listen :: bool

text \<open>\<^verbatim>\<open>runLoop\<close>: open the store, listen, serve.\<close>

definition run_loop ::
    "peer_os \<Rightarrow> int \<Rightarrow> string \<Rightarrow> u64 \<Rightarrow> accepted list \<Rightarrow> disk \<Rightarrow> unit result \<times> conn list \<times> storage \<times> disk" where
  "run_loop os peerPort storageDir maxBytes clients d =
     (let s = init (StorageManager storageDir maxBytes) d in
      if \<not> po_socket os then (Inl (Runtime_error ''PeerService socket() failed''), [], s)
      else if \<not> po_bind os (word_of_int peerPort) then (Inl (Runtime_error ''PeerService bind() failed''), [], s)
      else if \<not> po_listen os then (Inl (Runtime_error ''PeerService listen() failed''), [], s)
      else accept_loop storageDir clients s)"

text \<open>
  How the process ends: \<^verbatim>\<open>main\<close> catches nothing, so an exception terminates it. One comes
  from printing the storage directory: \<^verbatim>\<open>std::filesystem::absolute\<close> throws on an empty path.
\<close>

datatype peer_exit = Exited int | Terminated exn

definition peer_main :: "peer_os \<Rightarrow> string list \<Rightarrow> accepted list \<Rightarrow> disk \<Rightarrow> peer_exit \<times> conn list \<times> disk" where
  "peer_main os argv clients d =
     (if length argv < 4 then (Exited 1, [], d)
      else case stoi (argv ! 2) of
        Inl e \<Rightarrow> (Terminated e, [], d)
      | Inr peerPort \<Rightarrow>
         (case (if length argv \<ge> 5 then stoull (argv ! 4) else Inr (10 * 1024 * 1024 * 1024)) of
            Inl e \<Rightarrow> (Terminated e, [], d)
          | Inr maxBytes \<Rightarrow>
              if argv ! 3 = [] then (Terminated (Filesystem_error ''cannot make absolute path''), [], d)
              else (case run_loop os peerPort (argv ! 3) maxBytes clients d of
                (Inl e, cs, _, d') \<Rightarrow> (Terminated e, cs, d')
              | (Inr _, cs, _, d') \<Rightarrow> (Exited 0, cs, d'))))"

section \<open>Chunks survive a restart\<close>

lemma evict_loop_can_open: "evict_loop st d = (st', d') \<Longrightarrow> can_open d' = can_open d"
  using evict_loop_frame [of st d] by simp

lemma storeChunk_persists:
  assumes "store_inv (st, d)" "accepts (st, d) k" "room (st, d) (Suc n) (length v + b)" "st_maxBytes st \<noteq> 0"
  shows "\<exists>d'. storeChunk k v (st, d) = (Inr (), with_chunk k v st, persistMetadata (with_chunk k v st) d')
    \<and> can_open d' = can_open d"
proof -
  let ?st = "with_chunk k v st"
  obtain d2 where d2: "storeChunk k v (st, d) = (Inr (), enforceLimit ?st d2)" "can_open d2 = can_open d"
    using storeChunk_files [of k st d v] assms(2) by (auto simp: accepts_def writable_def)
  have acc: "accounted st" using assms(1) by (simp add: store_inv_def)
  have "accounted ?st"
    using accounted_with_chunk [OF acc room_counter [OF assms(3)]] assms(3) by (auto simp: room_def)
  moreover have "st_maxBytes ?st = 0 \<or> meta_bytes (st_meta ?st) \<le> unat (st_maxBytes ?st)"
    using meta_bytes_with_chunk [OF acc, of v k] assms(3) by (auto simp: room_def)
  ultimately have "fst (enforceLimit ?st d2) = ?st" using enforceLimit_within [of ?st d2] by auto
  moreover obtain st' d' where ev: "evict_loop ?st d2 = (st', d')" by fastforce
  ultimately have "enforceLimit ?st d2 = (?st, persistMetadata ?st d')" using assms(4) by (simp add: enforceLimit_def)
  then show ?thesis using d2 evict_loop_can_open [OF ev] by auto
qed

text \<open>
  C5: Durability: a chunk whose \<^verbatim>\<open>PUT_CHUNK\<close> was answered with \<^verbatim>\<open>OK\<close> is served by the
  next process on the same directory, however the first one ended after the answer, when
  the store has a byte limit and room and the directory is not named by the empty string.
  Without a limit this fails, since then no metadata are written.
\<close>

theorem chunk_survives_restart:
  assumes argv: "length argv \<ge> 5" "stoi (argv ! 2) = Inr peerPort" "stoull (argv ! 4) = Inr n" "n \<noteq> 0" "argv ! 3 \<noteq> []"
    and os: "po_socket os" "po_bind os (word_of_int peerPort)" "po_listen os"
    and store: "init (StorageManager (argv ! 3) n) d = (st, d1)" "store_inv (st, d1)" "\<forall>e \<in> set (st_meta st). is_token (fst e)"
      "st_maxBytes st = n" "st_baseDir st = argv ! 3" "can_open d1 (st_metaPath st)"
    and chunk: "accepts (st, d1) k" "object_name k" "room (st, d1) (Suc m) (length v + b)" "length v \<le> vector_char_max"
      "unat sz = length v"
    and reqs: "clean rx1" "stream rx1 = (''PUT_CHUNK'' @ SP # k @ SP # show_u64 sz) @ NL # v"
      "clean rx2" "stream rx2 = (''GET_CHUNK'' @ SP # k) @ [NL]"
  shows "\<exists>c1 c2 d' d''. peer_main os argv [Client (new_conn rx1 [])] d = (Exited 0, [c1], d') \<and> cn_tx c1 = OK_line
    \<and> peer_main os argv [Client (new_conn rx2 [])] d' = (Exited 0, [c2], d'')
    \<and> cn_tx c2 = ''OK'' @ SP # show_nat (length v) @ NL # v"
proof -
  let ?dir = "argv ! 3" and ?st = "with_chunk k v st"
  have tok: "is_token k" using chunk(2) by (simp add: object_name_def)
  obtain d2 where put: "storeChunk k v (st, d1) = (Inr (), ?st, persistMetadata ?st d2)" "can_open d2 = can_open d1"
    using storeChunk_persists [OF store(2) chunk(1,3)] argv(4) store(4) by blast
  let ?d = "persistMetadata ?st d2"
  have room: "store_inv (?st, ?d)" "contents (?st, ?d) k = Some v"
    using storeChunk_room [OF store(2) chunk(1,3)] put(1) by auto
  have frame: "st_baseDir ?st = ?dir" "st_maxBytes ?st = n" "st_metaPath ?st = st_metaPath st"
    using store(4,5) by (auto simp: with_chunk_def uncount_def Let_def split: option.splits)
  have wf: "wf_layout ?st" "accounted ?st" "can_open d2 (st_metaPath ?st)"
    using store_invD [OF room(1)] store(6) put(2) frame(3) by (simp_all add: stored_def)
  have "\<forall>e \<in> set (st_meta ?st). is_token (fst e)"
  proof
    fix e assume "e \<in> set (st_meta ?st)"
    then have "fst e \<in> fst ` set (st_meta ?st)" by simp
    then have "fst e \<in> {k} \<union> fst ` set (st_meta st)" by (simp only: with_chunk_simps(1) AList.dom_update)
    then show "is_token (fst e)" using store(3) tok by auto
  qed
  then obtain d3 where d3: "init (StorageManager ?dir n) ?d = (?st, d3)" "contents (?st, d3) = contents (?st, d2)"
    using restart_reads_back [OF wf(1,2) _ wf(3)] unfolding frame(1,2) by blast
  have "contents (?st, ?d) = contents (?st, d2)"
    using fs_read_persist [OF chunkPath_not_meta [OF wf(1)]] by (simp add: contents_def fun_eq_iff)
  then have "contents (?st, d2) k = Some v" using room(2) by simp
  then have "fs_read d3 (chunkPath ?st k) = Some v" unfolding d3(2) [symmetric] by (simp add: contents_iff)
  then obtain s' where get: "loadChunk k (?st, d3) = (Inr v, s')" by (simp add: loadChunk_def Let_def)
  obtain c1 where c1: "handle_client ?dir (new_conn rx1 []) (st, d1) = (Inr (), c1, ?st, ?d)" "cn_tx c1 = OK_line"
    using put_chunk_request [of "new_conn rx1 []" k sz v "[]", OF _ _ tok good_line_put [OF chunk(2)] chunk(5,4) put(1), of ?dir] reqs(1,2)
    by (auto simp: new_conn_def send_ignored_open is_token_def isspace_def)
  obtain c2 where c2: "handle_client ?dir (new_conn rx2 []) (?st, d3) = (Inr (), c2, s')"
      "cn_tx c2 = ''OK'' @ SP # show_nat (length v) @ NL # v"
    using get_chunk_request [of "new_conn rx2 []" k "[]", OF _ _ tok good_line_name [OF chunk(2)] get, of ?dir] reqs(3,4)
    by (auto simp: new_conn_def is_token_def isspace_def)
  show ?thesis
    using argv os store(1) d3(1) c1 c2 by (cases s') (simp add: peer_main_def run_loop_def)
qed

theorem chunk_survives_restart_witness:
  "\<exists>c1 c2 d' d''. peer_main \<lparr>po_socket = True, po_bind = (\<lambda>_. True), po_listen = True\<rparr> [''peer'', ''h'', ''1'', ''p'', ''9'']
      [Client (new_conn [Data ''PUT_CHUNK c 3'', Data (NL # ''new'')] [])] (open_disk []) = (Exited 0, [c1], d')
    \<and> cn_tx c1 = OK_line
    \<and> peer_main \<lparr>po_socket = True, po_bind = (\<lambda>_. True), po_listen = True\<rparr> [''peer'', ''h'', ''1'', ''p'', ''9'']
      [Client (new_conn [Data (''GET_CHUNK c'' @ [NL])] [])] d' = (Exited 0, [c2], d'')
    \<and> cn_tx c2 = ''OK 3'' @ NL # ''new''"
proof -
  let ?st = "StorageManager ''p'' 9" and ?d = "persistMetadata (StorageManager ''p'' 9) (open_disk [])"
  have n: "show_u64 3 = ''3''" "show_nat (Suc (Suc (Suc 0))) = ''3''" "stoi ''1'' = Inr 1" "stoull ''9'' = Inr 9" by code_simp+
  have "init ?st (open_disk []) = (?st, ?d)"
    by (simp add: init_def create_directories_def open_disk_def StorageManager_def loadMetadata_def fs_read_def Let_def
        rebuildMetadataFromDisk_def fs_exists_def dir_entries_def)
  moreover have "store_inv (?st, ?d)" by (simp add: store_inv_def accounted_def stored_def wf_layout_def StorageManager_def meta_bytes_def)
  moreover have "accepts (?st, ?d) ''c''" "room (?st, ?d) (Suc 0) (length ''new'' + 0)" "object_name ''c''"
    by (simp_all add: accepts_def tmp_name_code room_def StorageManager_def meta_bytes_def object_name_def is_token_def isspace_def)
      (simp_all add: open_disk_def)
  ultimately show ?thesis
    using chunk_survives_restart [of "[''peer'', ''h'', ''1'', ''p'', ''9'']" 1 9
        "\<lparr>po_socket = True, po_bind = (\<lambda>_. True), po_listen = True\<rparr>" "open_disk []" ?st ?d "''c''" 0 "''new''" 0 3
        "[Data ''PUT_CHUNK c 3'', Data (NL # ''new'')]" "[Data (''GET_CHUNK c'' @ [NL])]"]
    by (simp add: n vector_char_max_def StorageManager_def open_disk_def)
qed

end
