(* ===== verification/Tracker.thy ===== *)
theory Tracker
  imports Connection
begin

text \<open>
  The tracker, \<^verbatim>\<open>tracker/main.cpp\<close>: which peers are alive, which chunk is where, and one
  line of text per request. The two hash maps are association lists whose order is the
  order of iteration; a step of its own permutes them, as a rehash may. Shown are the
  invariant of every reachable state, what each query answers, how long a registration
  lasts, and that announcements of unregistered peers are never forgotten.
\<close>

section \<open>State\<close>

text \<open>Readings of \<^verbatim>\<open>steady_clock\<close> in nanoseconds.\<close>

type_synonym nanos = int

record peer_info =
  last_seen :: nanos

record tracker =
  tk_peers :: "(string \<times> peer_info) list"
  tk_index :: "(string \<times> string list) list"

definition empty_tracker :: tracker where
  "empty_tracker = \<lparr>tk_peers = [], tk_index = []\<rparr>"

text \<open>\<^verbatim>\<open>std::chrono::seconds(30)\<close>, the time to live of a registration.\<close>

definition TTL :: nanos where
  "TTL = 30 * 10 ^ 9"

section \<open>Pruning\<close>

definition stale :: "nanos \<Rightarrow> nanos \<Rightarrow> string \<times> peer_info \<Rightarrow> bool" where
  "stale ttl now kv \<longleftrightarrow> now - last_seen (snd kv) > ttl"

definition prune_stale :: "nanos \<Rightarrow> nanos \<Rightarrow> (string \<times> peer_info) list \<Rightarrow> (string \<times> peer_info) list" where
  "prune_stale ttl now peers = filter (\<lambda>kv. \<not> stale ttl now kv) peers"

definition prune_stale_and_cleanup :: "nanos \<Rightarrow> nanos \<Rightarrow> tracker \<Rightarrow> tracker" where
  "prune_stale_and_cleanup ttl now st =
     (let dead = map fst (filter (stale ttl now) (tk_peers st));
          st1 = st\<lparr>tk_peers := filter (\<lambda>kv. \<not> stale ttl now kv) (tk_peers st)\<rparr> in
      if dead = [] then st1
      else st1\<lparr>tk_index := filter (\<lambda>kv. snd kv \<noteq> [])
             (map (\<lambda>kv. (fst kv, foldl (\<lambda>locs d. removeAll d locs) (snd kv) dead)) (tk_index st1))\<rparr>)"

section \<open>Requests\<close>

definition bad_endpoint :: "string \<Rightarrow> int \<Rightarrow> bool" where
  "bad_endpoint host p \<longleftrightarrow> host = [] \<or> p \<le> 0 \<or> p > 65535"

definition entry_of :: "string \<Rightarrow> int \<Rightarrow> string" where
  "entry_of host p = host @ CHR '':'' # show_int p"

text \<open>Each handler takes the rest of the request line and gives the answer and the new state.\<close>

definition handle_register :: "istream \<Rightarrow> nanos \<Rightarrow> tracker \<Rightarrow> string \<times> tracker" where
  "handle_register iss now st =
     (case read_token [] iss of (host, iss1) \<Rightarrow>
      case read_int 0 iss1 of (p, _) \<Rightarrow>
        if bad_endpoint host p then (''ERR invalid REGISTER. Use: REGISTER <ip> <port>'' @ [NL], st)
        else (OK_line, st\<lparr>tk_peers := AList.update (entry_of host p) \<lparr>last_seen = now\<rparr> (tk_peers st)\<rparr>))"

definition handle_heartbeat :: "istream \<Rightarrow> nanos \<Rightarrow> tracker \<Rightarrow> string \<times> tracker" where
  "handle_heartbeat iss now st =
     (case read_token [] iss of (host, iss1) \<Rightarrow>
      case read_int 0 iss1 of (p, _) \<Rightarrow>
        if bad_endpoint host p then (''ERR invalid HEARTBEAT. Use: HEARTBEAT <ip> <port>'' @ [NL], st)
        else (OK_line, st\<lparr>tk_peers := AList.update (entry_of host p) \<lparr>last_seen = now\<rparr> (tk_peers st)\<rparr>))"

text \<open>\<^verbatim>\<open>chunk_index[chunk_id].insert(entry)\<close>\<close>

definition add_location :: "string \<Rightarrow> string \<Rightarrow> tracker \<Rightarrow> tracker" where
  "add_location chunk_id entry st =
     (let locs = (case map_of (tk_index st) chunk_id of None \<Rightarrow> [] | Some l \<Rightarrow> l) in
      st\<lparr>tk_index := AList.update chunk_id (List.insert entry locs) (tk_index st)\<rparr>)"

text \<open>Both branches of the liveness test record the location and answer \<^verbatim>\<open>OK\<close>; they differ in the log only.\<close>

definition handle_announce :: "istream \<Rightarrow> nanos \<Rightarrow> tracker \<Rightarrow> string \<times> tracker" where
  "handle_announce iss now st =
     (case read_token [] iss of (chunk_id, iss1) \<Rightarrow>
      case read_token [] iss1 of (host, iss2) \<Rightarrow>
      case read_int 0 iss2 of (p, _) \<Rightarrow>
        if chunk_id = [] \<or> bad_endpoint host p
        then (''ERR invalid ANNOUNCE. Use: ANNOUNCE <chunk_id> <ip> <port>'' @ [NL], st)
        else (case map_of (tk_peers st) (entry_of host p) of
            None \<Rightarrow> (OK_line, add_location chunk_id (entry_of host p) st)
          | Some i \<Rightarrow>
              if now - last_seen i > TTL then (OK_line, add_location chunk_id (entry_of host p) st)
              else (OK_line, add_location chunk_id (entry_of host p) st)))"

definition alive :: "nanos \<Rightarrow> tracker \<Rightarrow> string \<Rightarrow> bool" where
  "alive now st entry \<longleftrightarrow>
     (case map_of (tk_peers st) entry of None \<Rightarrow> False | Some i \<Rightarrow> now - last_seen i \<le> TTL)"

definition or_blank :: "string \<Rightarrow> string" where
  "or_blank out = (if out = [] then [NL] else out)"

definition handle_where :: "istream \<Rightarrow> nanos \<Rightarrow> tracker \<Rightarrow> string \<times> tracker" where
  "handle_where iss now st =
     (case read_token [] iss of (chunk_id, _) \<Rightarrow>
        if chunk_id = [] then (''ERR invalid WHERE. Use: WHERE <chunk_id>'' @ [NL], st)
        else (or_blank (case map_of (tk_index st) chunk_id of
                None \<Rightarrow> []
              | Some locs \<Rightarrow> concat (map (\<lambda>e. if alive now st e then e @ [NL] else []) locs)), st))"

text \<open>The loop of \<^verbatim>\<open>NEED_REPAIR\<close> over the chunks: how many lines were sent so far and the rest of the text.\<close>

definition alive_count :: "tracker \<Rightarrow> string list \<Rightarrow> int" where
  "alive_count st locs = int (length (filter (\<lambda>e. map_of (tk_peers st) e \<noteq> None) locs))"

fun repair_lines :: "tracker \<Rightarrow> int \<Rightarrow> int \<Rightarrow> int \<Rightarrow> (string \<times> string list) list \<Rightarrow> string" where
  "repair_lines st desired limit sent [] = []"
| "repair_lines st desired limit sent (kv # kvs) =
     (let n = alive_count st (snd kv) in
      if n > 0 \<and> n < desired
      then (fst kv @ SP # show_int n @ [NL])
             @ (if sent + 1 \<ge> limit then [] else repair_lines st desired limit (sent + 1) kvs)
      else repair_lines st desired limit sent kvs)"

definition handle_need_repair :: "istream \<Rightarrow> nanos \<Rightarrow> tracker \<Rightarrow> string \<times> tracker" where
  "handle_need_repair iss now st =
     (case read_int 0 iss of (desired0, iss1) \<Rightarrow>
      case read_int 0 iss1 of (limit0, _) \<Rightarrow>
       (let desired = (if desired0 \<le> 0 then 2 else desired0);
            limit = (if limit0 \<le> 0 then 50 else limit0);
            st1 = prune_stale_and_cleanup TTL now st in
        (or_blank (repair_lines st1 desired limit 0 (tk_index st1)), st1)))"

text \<open>\<^verbatim>\<open>GET_PEERS\<close> reads the clock before it calls the clean-up, which reads it again.\<close>

definition handle_get_peers :: "nanos \<Rightarrow> nanos \<Rightarrow> tracker \<Rightarrow> string \<times> tracker" where
  "handle_get_peers now now' st =
     (let st1 = prune_stale_and_cleanup TTL now' st;
          st2 = st1\<lparr>tk_peers := filter (\<lambda>kv. \<not> stale TTL now kv) (tk_peers st1)\<rparr> in
      (or_blank (concat (map (\<lambda>kv. fst kv @ [NL]) (tk_peers st2))), st2))"

definition tracker_command :: "nanos \<Rightarrow> nanos \<Rightarrow> string \<Rightarrow> istream \<Rightarrow> tracker \<Rightarrow> string \<times> tracker" where
  "tracker_command now now' cmd iss st =
     (if cmd = ''REGISTER'' then handle_register iss now st
      else if cmd = ''HEARTBEAT'' then handle_heartbeat iss now st
      else if cmd = ''ANNOUNCE'' then handle_announce iss now st
      else if cmd = ''WHERE'' then handle_where iss now st
      else if cmd = ''NEED_REPAIR'' then handle_need_repair iss now st
      else if cmd = ''GET_PEERS'' then handle_get_peers now now' st
      else (''ERR unknown command'' @ [NL], st))"

text \<open>One connection.\<close>

definition serve_tracker :: "nanos \<Rightarrow> nanos \<Rightarrow> conn \<Rightarrow> tracker \<Rightarrow> conn \<times> tracker" where
  "serve_tracker now now' c st =
     (case recv_line (cn_rx c) of (ok, line, es) \<Rightarrow>
        let c1 = c\<lparr>cn_rx := es\<rparr> in
        if \<not> ok then (close_conn c1, st)
        else (case read_token [] (istringstream line) of (cmd, iss) \<Rightarrow>
               (case tracker_command now now' cmd iss st of
                  (answer, st') \<Rightarrow> (close_conn (send_ignored answer c1), st'))))"

section \<open>Starting\<close>

text \<open>
  \<^verbatim>\<open>main\<close> up to its loop: which of the system calls succeed is a parameter. The result is
  the exit code, the exception that leaves \<^verbatim>\<open>main\<close>, or the TCP port listened on.
\<close>

datatype startup = Exit_code int | Uncaught exn | Listening "16 word"

record listen_os =
  lo_socket :: bool
  lo_reuse :: bool
  lo_bind :: "16 word \<Rightarrow> bool"
  lo_listen :: bool

definition tracker_main :: "listen_os \<Rightarrow> string list \<Rightarrow> startup" where
  "tracker_main os argv =
     (if length argv \<noteq> 2 then Exit_code 1
      else case stoi (argv ! 1) of
        Inl e \<Rightarrow> Uncaught e
      | Inr portno \<Rightarrow>
         (let p = word_of_int portno in
          if \<not> lo_socket os then Exit_code 1
          else if \<not> lo_reuse os then Exit_code 1
          else if \<not> lo_bind os p then Exit_code 1
          else if \<not> lo_listen os then Exit_code 1
          else Listening p))"

section \<open>The loop\<close>

text \<open>
  The hash maps promise no order of iteration and may change it whenever they grow: the
  contents stay, the order of the keys and of the locations does not.
\<close>

definition same_tables :: "tracker \<Rightarrow> tracker \<Rightarrow> bool" where
  "same_tables st st' \<longleftrightarrow> mset (tk_peers st) = mset (tk_peers st')
     \<and> mset (map (\<lambda>kv. (fst kv, mset (snd kv))) (tk_index st))
         = mset (map (\<lambda>kv. (fst kv, mset (snd kv))) (tk_index st'))"

datatype tracker_event = Accept_failed | Served conn conn | Rehashed

inductive tracker_step :: "nanos \<times> tracker \<Rightarrow> tracker_event \<Rightarrow> nanos \<times> tracker \<Rightarrow> bool" where
  accept_failed: "tracker_step (t, st) Accept_failed (t, st)"
| served: "t \<le> now \<Longrightarrow> now \<le> now' \<Longrightarrow> serve_tracker now now' c st = (c', st') \<Longrightarrow>
    tracker_step (t, st) (Served c c') (now', st')"
| rehashed: "same_tables st st' \<Longrightarrow> tracker_step (t, st) Rehashed (t, st')"

inductive tracker_run :: "nanos \<times> tracker \<Rightarrow> tracker_event list \<Rightarrow> nanos \<times> tracker \<Rightarrow> bool" where
  run_nil: "tracker_run s [] s"
| run_step: "tracker_run s es s1 \<Longrightarrow> tracker_step s1 e s2 \<Longrightarrow> tracker_run s (es @ [e]) s2"

inductive_cases tracker_stepE: "tracker_step s e s'"

section \<open>The invariant\<close>

definition valid_entry :: "string \<Rightarrow> bool" where
  "valid_entry e \<longleftrightarrow> (\<exists>host p. e = entry_of host p \<and> is_token host \<and> 1 \<le> p \<and> p \<le> 65535)"

definition good_peers :: "nanos \<Rightarrow> (string \<times> peer_info) list \<Rightarrow> bool" where
  "good_peers t ps \<longleftrightarrow> distinct (map fst ps) \<and> (\<forall>kv \<in> set ps. valid_entry (fst kv) \<and> last_seen (snd kv) \<le> t)"

definition good_locs :: "string \<Rightarrow> string list \<Rightarrow> bool" where
  "good_locs k locs \<longleftrightarrow> is_token k \<and> distinct locs \<and> (\<forall>e \<in> set locs. valid_entry e)"

definition good_index :: "(string \<times> string list) list \<Rightarrow> bool" where
  "good_index ix \<longleftrightarrow> distinct (map fst ix) \<and> (\<forall>kv \<in> set ix. good_locs (fst kv) (snd kv) \<and> snd kv \<noteq> [])"

definition tracker_inv :: "nanos \<Rightarrow> tracker \<Rightarrow> bool" where
  "tracker_inv t st \<longleftrightarrow> good_peers t (tk_peers st) \<and> good_index (tk_index st)"

lemma tracker_inv_empty: "tracker_inv t empty_tracker"
  by (simp add: tracker_inv_def good_peers_def good_index_def empty_tracker_def)

lemma tracker_inv_later: "tracker_inv t st \<Longrightarrow> t \<le> t' \<Longrightarrow> tracker_inv t' st"
  unfolding tracker_inv_def good_peers_def by fastforce

lemma good_peers_filter: "good_peers t ps \<Longrightarrow> good_peers t (filter P ps)"
  by (simp add: good_peers_def distinct_map_filter)

lemma good_peers_update:
  assumes "good_peers t ps" "t \<le> now" "valid_entry e"
  shows "good_peers now (AList.update e \<lparr>last_seen = now\<rparr> ps)"
proof -
  have "distinct (map fst ps)" using assms(1) by (simp add: good_peers_def)
  note set_update_iff [OF this, of e "\<lparr>last_seen = now\<rparr>"]
  then show ?thesis using assms by (fastforce simp: good_peers_def)
qed

lemma foldl_removeAll: "foldl (\<lambda>l d. removeAll d l) locs ds = filter (\<lambda>e. e \<notin> set ds) locs"
  by (induction ds arbitrary: locs) (auto simp: removeAll_filter_not_eq intro!: filter_cong)

definition dead_peers :: "nanos \<Rightarrow> nanos \<Rightarrow> tracker \<Rightarrow> string set" where
  "dead_peers ttl now st = fst ` {kv \<in> set (tk_peers st). stale ttl now kv}"

lemma cleanup_peers [simp]: "tk_peers (prune_stale_and_cleanup ttl now st) = prune_stale ttl now (tk_peers st)"
  by (simp add: prune_stale_and_cleanup_def prune_stale_def Let_def)

lemma cleanup_index:
  "tk_index (prune_stale_and_cleanup ttl now st) =
     (if dead_peers ttl now st = {} then tk_index st
      else filter (\<lambda>kv. snd kv \<noteq> [])
        (map (\<lambda>kv. (fst kv, filter (\<lambda>e. e \<notin> dead_peers ttl now st) (snd kv))) (tk_index st)))"
proof -
  have "set (map fst (filter (stale ttl now) (tk_peers st))) = dead_peers ttl now st"
    by (simp add: dead_peers_def)
  moreover from this have "map fst (filter (stale ttl now) (tk_peers st)) = [] \<longleftrightarrow> dead_peers ttl now st = {}"
    by (metis set_empty)
  ultimately show ?thesis by (simp only: prune_stale_and_cleanup_def Let_def foldl_removeAll) simp
qed

lemma good_index_cleanup: "good_index (tk_index st) \<Longrightarrow> good_index (tk_index (prune_stale_and_cleanup ttl now st))"
proof -
  assume good: "good_index (tk_index st)"
  let ?clean = "map (\<lambda>kv. (fst kv, filter (\<lambda>e. e \<notin> dead_peers ttl now st) (snd kv))) (tk_index st)"
  have "distinct (map fst ?clean)" using good by (simp add: good_index_def comp_def)
  then have "distinct (map fst (filter (\<lambda>kv. snd kv \<noteq> []) ?clean))" by (rule distinct_map_filter)
  moreover have "good_locs (fst kv) (snd kv)" if "kv \<in> set ?clean" for kv
    using that good by (auto simp: good_index_def good_locs_def)
  ultimately show ?thesis using good unfolding cleanup_index by (simp add: good_index_def)
qed

lemma good_index_update:
  assumes "good_index ix" "good_locs k locs" "locs \<noteq> []"
  shows "good_index (AList.update k locs ix)"
proof -
  have "distinct (map fst ix)" using assms(1) by (simp add: good_index_def)
  note set_update_iff [OF this, of k locs]
  then show ?thesis using assms by (auto simp: good_index_def)
qed

lemma good_index_lookup: "good_index ix \<Longrightarrow> map_of ix k = Some locs \<Longrightarrow> good_locs k locs \<and> locs \<noteq> []"
  by (fastforce simp: good_index_def dest: map_of_SomeD)

lemma tracker_inv_cleanup: "tracker_inv t st \<Longrightarrow> tracker_inv t (prune_stale_and_cleanup ttl now st)"
  by (simp add: tracker_inv_def good_index_cleanup good_peers_filter prune_stale_def)

lemma tracker_inv_add_location:
  assumes "tracker_inv t st" "is_token k" "valid_entry e"
  shows "tracker_inv t (add_location k e st)"
proof (cases "map_of (tk_index st) k")
  case None
  then show ?thesis using assms good_index_update [of "tk_index st" k "[e]"]
    by (simp add: tracker_inv_def add_location_def good_locs_def)
next
  case (Some locs)
  then have "good_locs k locs" using assms(1) good_index_lookup [OF _ Some] by (simp add: tracker_inv_def)
  then have "good_locs k (List.insert e locs)" using assms(3) by (auto simp: good_locs_def)
  then show ?thesis using Some assms(1) good_index_update [of "tk_index st" k "List.insert e locs"]
    by (cases "locs = []") (auto simp: tracker_inv_def add_location_def List.insert_def)
qed

lemma accepted_endpoint:
  "read_token [] iss = (host, iss1) \<Longrightarrow> \<not> bad_endpoint host p \<Longrightarrow> valid_entry (entry_of host p)"
  using read_token_result [of iss host iss1] by (force simp: bad_endpoint_def valid_entry_def)

lemma tracker_inv_command:
  assumes "tracker_inv t st" "t \<le> now" "tracker_command now now' cmd iss st = (a, st')"
  shows "tracker_inv now st'"
proof -
  note inv = tracker_inv_later [OF assms(1,2)]
  have "tracker_inv now st'" if "handle_register iss now st = (a, st') \<or> handle_heartbeat iss now st = (a, st')"
    using that inv assms(2) good_peers_update [of now "tk_peers st" now] accepted_endpoint
    by (auto simp: handle_register_def handle_heartbeat_def tracker_inv_def split: prod.splits if_splits)
  moreover have "tracker_inv now st'" if "handle_announce iss now st = (a, st')"
    using that inv tracker_inv_add_location [of now st] accepted_endpoint read_token_result
    by (auto simp: handle_announce_def split: prod.splits if_splits option.splits) blast+
  moreover have "tracker_inv now st'" if "handle_where iss now st = (a, st')"
    using that inv by (auto simp: handle_where_def split: prod.splits if_splits)
  moreover have "tracker_inv now st'" if "handle_need_repair iss now st = (a, st')"
    using that tracker_inv_cleanup [OF inv] by (auto simp: handle_need_repair_def Let_def split: prod.splits)
  moreover have "tracker_inv now st'" if "handle_get_peers now now' st = (a, st')"
    using that tracker_inv_cleanup [OF inv, of TTL now'] good_peers_filter
    by (auto simp: handle_get_peers_def Let_def tracker_inv_def)
  ultimately show ?thesis
    using assms(3) inv by (auto simp: tracker_command_def split: if_splits)
qed

lemma tracker_inv_serve:
  assumes "tracker_inv t st" "t \<le> now" "serve_tracker now now' c st = (c', st')"
  shows "tracker_inv now st'"
proof -
  obtain ok line es where line: "recv_line (cn_rx c) = (ok, line, es)" using prod_cases3 by blast
  obtain cmd iss where cmd: "read_token [] (istringstream line) = (cmd, iss)" by fastforce
  obtain a st1 where ans: "tracker_command now now' cmd iss st = (a, st1)" by fastforce
  have "st' = (if ok then st1 else st)" using assms(3) by (auto simp: serve_tracker_def line cmd ans)
  then show ?thesis using tracker_inv_command [OF assms(1,2) ans] tracker_inv_later [OF assms(1,2)] by simp
qed

lemma same_tables_mset:
  assumes "same_tables st st'"
  shows "mset (tk_peers st') = mset (tk_peers st)"
    and "mset (map (\<lambda>kv. (fst kv, mset (snd kv))) (tk_index st')) = mset (map (\<lambda>kv. (fst kv, mset (snd kv))) (tk_index st))"
  using assms [unfolded same_tables_def, THEN conjunct1, symmetric] assms [unfolded same_tables_def, THEN conjunct2, symmetric] .

lemma same_tables_set:
  assumes "same_tables st st'"
  shows "set (tk_peers st') = set (tk_peers st)"
    and "kv' \<in> set (tk_index st') \<Longrightarrow> \<exists>kv \<in> set (tk_index st). fst kv = fst kv' \<and> mset (snd kv) = mset (snd kv')"
proof -
  show "set (tk_peers st') = set (tk_peers st)" by (rule mset_eq_setD [OF same_tables_mset(1) [OF assms]])
  note eq = mset_eq_setD [OF same_tables_mset(2) [OF assms], unfolded set_map]
  assume "kv' \<in> set (tk_index st')"
  then have "(fst kv', mset (snd kv')) \<in> (\<lambda>kv. (fst kv, mset (snd kv))) ` set (tk_index st)"
    unfolding eq [symmetric] by (rule imageI)
  then show "\<exists>kv \<in> set (tk_index st). fst kv = fst kv' \<and> mset (snd kv) = mset (snd kv')"
    by (elim imageE) (auto simp: prod_eq_iff)
qed

lemma same_tables_keys:
  assumes "same_tables st st'"
  shows "mset (map fst (tk_peers st')) = mset (map fst (tk_peers st))"
    and "mset (map fst (tk_index st')) = mset (map fst (tk_index st))"
proof -
  show "mset (map fst (tk_peers st')) = mset (map fst (tk_peers st))"
    using same_tables_mset(1) [OF assms] by simp
  have "mset (map fst (tk_index s)) = image_mset fst (mset (map (\<lambda>kv. (fst kv, mset (snd kv))) (tk_index s)))" for s
    by (simp add: image_mset.compositionality comp_def)
  note this [of st] this [of st']
  then show "mset (map fst (tk_index st')) = mset (map fst (tk_index st))"
    by (simp only: same_tables_mset(2) [OF assms])
qed

lemma same_tables_sym: "same_tables st st' \<Longrightarrow> same_tables st' st"
  by (simp add: same_tables_def)

lemma good_locs_perm: "good_locs k locs \<Longrightarrow> mset locs = mset locs' \<Longrightarrow> good_locs k locs'"
  unfolding good_locs_def by (metis mset_eq_imp_distinct_iff mset_eq_setD)

lemma tracker_inv_rehash:
  assumes "tracker_inv t st" "same_tables st st'"
  shows "tracker_inv t st'"
proof -
  have "distinct (map fst (tk_peers st'))" "distinct (map fst (tk_index st'))"
    using assms(1) same_tables_keys [OF assms(2)] mset_eq_imp_distinct_iff
    unfolding tracker_inv_def good_peers_def good_index_def by metis+
  moreover have "good_locs (fst kv') (snd kv') \<and> snd kv' \<noteq> []" if kv': "kv' \<in> set (tk_index st')" for kv'
  proof -
    obtain kv where kv: "kv \<in> set (tk_index st)" "fst kv = fst kv'" "mset (snd kv) = mset (snd kv')"
      using same_tables_set(2) [OF assms(2) kv'] by blast
    then have "good_locs (fst kv') (snd kv)" "snd kv \<noteq> []" using assms(1) by (auto simp: tracker_inv_def good_index_def)
    then show ?thesis using kv(3) good_locs_perm by auto
  qed
  ultimately show ?thesis using assms(1) same_tables_set(1) [OF assms(2)]
    by (simp add: tracker_inv_def good_peers_def good_index_def)
qed

lemma tracker_inv_step:
  "tracker_step s e s' \<Longrightarrow> tracker_inv (fst s) (snd s) \<Longrightarrow> tracker_inv (fst s') (snd s') \<and> fst s \<le> fst s'"
proof (induction rule: tracker_step.induct)
  case (served t now now' c st c' st')
  then have "tracker_inv now st'" using tracker_inv_serve by simp
  then show ?case using served tracker_inv_later by fastforce
qed (auto intro: tracker_inv_rehash)

lemma tracker_inv_run:
  "tracker_run s es s' \<Longrightarrow> tracker_inv (fst s) (snd s) \<Longrightarrow> tracker_inv (fst s') (snd s') \<and> fst s \<le> fst s'"
  by (induction rule: tracker_run.induct) (auto dest: tracker_inv_step intro: order_trans)

text \<open>
  C16: Every state the tracker can reach, whatever the clients send and however the hash
  maps are ordered, is well formed: no key twice, no time stamp in the future, every
  location a well-formed \<^verbatim>\<open>host:port\<close> with a port in range, and no chunk without location.
\<close>

theorem tracker_invariant:
  assumes "tracker_run (t0, empty_tracker) es (t, st)"
  shows "tracker_inv t st \<and> t0 \<le> t"
  using tracker_inv_run [OF assms] tracker_inv_empty by simp

section \<open>What the tables mean\<close>

text \<open>The abstract registry: when a peer was last seen and where a chunk is.\<close>

definition seen :: "tracker \<Rightarrow> string \<Rightarrow> nanos option" where
  "seen st e = map_option last_seen (map_of (tk_peers st) e)"

definition locations :: "tracker \<Rightarrow> string \<Rightarrow> string set" where
  "locations st k = (case map_of (tk_index st) k of None \<Rightarrow> {} | Some locs \<Rightarrow> set locs)"

definition fresh :: "nanos \<Rightarrow> nanos option \<Rightarrow> bool" where
  "fresh now s \<longleftrightarrow> (case s of None \<Rightarrow> False | Some t \<Rightarrow> now - t \<le> TTL)"

lemma alive_fresh: "alive now st e \<longleftrightarrow> fresh now (seen st e)"
  by (auto simp: alive_def fresh_def seen_def split: option.splits)

lemma map_of_filter_keys:
  "distinct (map fst al) \<Longrightarrow> map_of (filter P al) k = (case map_of al k of None \<Rightarrow> None | Some v \<Rightarrow> if P (k, v) then Some v else None)"
  by (induction al) (auto split: option.splits dest: map_of_SomeD simp: map_of_eq_None_iff image_iff)

lemma seen_prune:
  assumes "tracker_inv t st"
  shows "seen (prune_stale_and_cleanup TTL now st) e = (if fresh now (seen st e) then seen st e else None)"
  using assms by (auto simp: seen_def prune_stale_def tracker_inv_def good_peers_def map_of_filter_keys stale_def
      fresh_def split: option.splits)

lemma dead_peers_seen:
  "tracker_inv t st \<Longrightarrow> e \<in> dead_peers TTL now st \<longleftrightarrow> seen st e \<noteq> None \<and> \<not> fresh now (seen st e)"
proof -
  assume "tracker_inv t st"
  then have d: "distinct (map fst (tk_peers st))" by (simp add: tracker_inv_def good_peers_def)
  have "e \<in> dead_peers TTL now st \<longleftrightarrow> (\<exists>i. (e, i) \<in> set (tk_peers st) \<and> now - last_seen i > TTL)"
    by (force simp: dead_peers_def stale_def)
  also have "\<dots> \<longleftrightarrow> (\<exists>i. map_of (tk_peers st) e = Some i \<and> now - last_seen i > TTL)"
    using d by simp
  finally show ?thesis by (auto simp: seen_def fresh_def)
qed

lemma map_of_map_keys: "map_of (map (\<lambda>kv. (fst kv, f (snd kv))) al) k = map_option f (map_of al k)"
  by (induction al) auto

lemma locations_cleanup:
  assumes "tracker_inv t st"
  shows "locations (prune_stale_and_cleanup TTL now st) k
    = {e \<in> locations st k. seen st e = None \<or> fresh now (seen st e)}"
proof -
  let ?clean = "map (\<lambda>kv. (fst kv, filter (\<lambda>e. e \<notin> dead_peers TTL now st) (snd kv))) (tk_index st)"
  have d: "distinct (map fst ?clean)" using assms by (simp add: tracker_inv_def good_index_def comp_def)
  have l: "locations (prune_stale_and_cleanup TTL now st) k = {e \<in> locations st k. e \<notin> dead_peers TTL now st}"
    by (auto simp: locations_def cleanup_index map_of_filter_keys [OF d] map_of_map_keys filter_empty_conv
        split: option.splits)
  show ?thesis unfolding l dead_peers_seen [OF assms] by auto
qed

lemma seen_refresh: "seen (st\<lparr>tk_peers := AList.update e i (tk_peers st)\<rparr>) = (seen st)(e \<mapsto> last_seen i)"
  by (auto simp: seen_def)

lemma locations_refresh [simp]: "locations (st\<lparr>tk_peers := ps\<rparr>) = locations st"
  by (simp add: locations_def fun_eq_iff)

lemma locations_add:
  "locations (add_location k e st) = (locations st)(k := insert e (locations st k))" "seen (add_location k e st) = seen st"
  by (auto simp: locations_def seen_def add_location_def Let_def fun_eq_iff split: option.splits)

lemma seen_rehash:
  assumes "tracker_inv t st" "same_tables st st'"
  shows "seen st' = seen st" "locations st' = locations st"
proof -
  have inv': "tracker_inv t st'" by (rule tracker_inv_rehash [OF assms])
  have d: "distinct (map fst (tk_peers s))" "distinct (map fst (tk_index s))" if "tracker_inv t s" for s
    using that by (simp_all add: tracker_inv_def good_peers_def good_index_def)
  have "map_of (tk_peers st') = map_of (tk_peers st)"
    using same_tables_set(1) [OF assms(2)] d(1) [OF assms(1)] d(1) [OF inv'] by (metis map_of_inject_set)
  then show "seen st' = seen st" by (simp add: seen_def fun_eq_iff)
  have sub: "locations s k \<subseteq> locations s' k" if s: "same_tables s s'" "tracker_inv t s" "tracker_inv t s'" for s s' k
  proof
    fix e assume "e \<in> locations s k"
    then obtain l where l: "map_of (tk_index s) k = Some l" "e \<in> set l" by (auto simp: locations_def split: option.splits)
    obtain kv where kv: "kv \<in> set (tk_index s')" "fst kv = k" "mset (snd kv) = mset l"
      using same_tables_set(2) [OF same_tables_sym [OF s(1)] map_of_SomeD [OF l(1)]] by auto
    then have "map_of (tk_index s') k = Some (snd kv)" using d(2) [OF s(3)] by (cases kv) auto
    then show "e \<in> locations s' k" using l(2) mset_eq_setD [OF kv(3)] by (simp add: locations_def)
  qed
  show "locations st' = locations st"
    using sub [OF assms(2,1) inv'] sub [OF same_tables_sym [OF assms(2)] inv' assms(1)] by blast
qed

section \<open>What the queries answer\<close>

abbreviation lines_of :: "string list \<Rightarrow> string" where
  "lines_of es \<equiv> concat (map (\<lambda>e. e @ [NL]) es)"

lemma filter_lines: "concat (map (\<lambda>e. if P e then e @ [NL] else []) es) = lines_of (filter P es)"
  by (induction es) auto

lemma where_lines:
  assumes "tracker_inv t st" "is_token k"
  shows "\<exists>es. handle_where (istringstream (SP # k)) now st = (or_blank (lines_of es), st)
    \<and> distinct es \<and> set es = {e \<in> locations st k. fresh now (seen st e)}"
proof -
  let ?locs = "case map_of (tk_index st) k of None \<Rightarrow> [] | Some l \<Rightarrow> l"
  let ?es = "filter (alive now st) ?locs"
  have tok: "read_token [] (istringstream (SP # k)) = (k, istringstream [])" "k \<noteq> []"
    using tok.extract_after_space [OF assms(2), of "[]" SP] assms(2) by (simp_all add: is_token_def)
  have "distinct ?locs" "set ?locs = locations st k"
    using assms(1) good_index_lookup [of "tk_index st" k]
    by (cases "map_of (tk_index st) k"; simp add: tracker_inv_def good_locs_def locations_def)+
  moreover have "handle_where (istringstream (SP # k)) now st = (or_blank (lines_of ?es), st)"
    using tok by (cases "map_of (tk_index st) k") (simp_all add: handle_where_def filter_lines)
  ultimately show ?thesis by (intro exI [of _ ?es]) (auto simp: alive_fresh)
qed

lemma get_peers_state:
  assumes "now \<le> now'"
  shows "handle_get_peers now now' st = (or_blank (lines_of (map fst (prune_stale TTL now' (tk_peers st)))),
    prune_stale_and_cleanup TTL now' st)"
proof -
  have "filter (\<lambda>kv. \<not> stale TTL now kv) (prune_stale TTL now' (tk_peers st)) = prune_stale TTL now' (tk_peers st)"
    using assms by (intro filter_True) (auto simp: prune_stale_def stale_def)
  moreover have "st1\<lparr>tk_peers := tk_peers st1\<rparr> = st1" for st1 :: tracker by simp
  ultimately show ?thesis
    by (simp add: handle_get_peers_def Let_def comp_def)
qed

lemma get_peers_lines:
  assumes "tracker_inv t st" "now \<le> now'"
  shows "\<exists>es. handle_get_peers now now' st = (or_blank (lines_of es), prune_stale_and_cleanup TTL now' st)
    \<and> distinct es \<and> set es = {e. fresh now' (seen st e)} \<and> (\<forall>e \<in> set es. valid_entry e)"
proof -
  let ?ps = "prune_stale TTL now' (tk_peers st)"
  have good: "good_peers t ?ps" using assms(1) by (simp add: tracker_inv_def prune_stale_def good_peers_filter)
  have "e \<in> fst ` set ?ps \<longleftrightarrow> fresh now' (seen st e)" for e
  proof -
    have "e \<in> fst ` set ?ps \<longleftrightarrow> seen (prune_stale_and_cleanup TTL now' st) e \<noteq> None"
      by (simp add: seen_def map_of_eq_None_iff)
    also have "\<dots> \<longleftrightarrow> fresh now' (seen st e)"
      unfolding seen_prune [OF assms(1)] by (cases "seen st e") (simp_all add: fresh_def)
    finally show ?thesis .
  qed
  then show ?thesis
    using get_peers_state [OF assms(2), of st] good
    by (intro exI [of _ "map fst ?ps"]) (auto simp: good_peers_def)
qed

text \<open>The rows of \<^verbatim>\<open>NEED_REPAIR\<close>: chunks with too few live locations, as many as asked for.\<close>

definition needy :: "tracker \<Rightarrow> int \<Rightarrow> string \<times> string list \<Rightarrow> bool" where
  "needy st desired kv \<longleftrightarrow> 0 < alive_count st (snd kv) \<and> alive_count st (snd kv) < desired"

definition repair_row :: "tracker \<Rightarrow> string \<times> string list \<Rightarrow> string" where
  "repair_row st kv = fst kv @ SP # show_int (alive_count st (snd kv)) @ [NL]"

lemma repair_lines_rows:
  "sent < limit \<Longrightarrow> repair_lines st desired limit sent kvs
     = concat (map (repair_row st) (take (nat (limit - sent)) (filter (needy st desired) kvs)))"
proof (induction kvs arbitrary: sent)
  case (Cons kv kvs)
  show ?case
  proof (cases "needy st desired kv")
    case True
    then have n: "0 < alive_count st (snd kv)" "alive_count st (snd kv) < desired" by (simp_all add: needy_def)
    show ?thesis
    proof (cases "sent + 1 \<ge> limit")
      case True
      then have "nat (limit - sent) = Suc 0" using Cons.prems by simp
      then show ?thesis using n True \<open>needy st desired kv\<close> by (simp add: repair_row_def Let_def)
    next
      case False
      then have "nat (limit - sent) = Suc (nat (limit - (sent + 1)))" by simp
      then show ?thesis using n False \<open>needy st desired kv\<close> Cons.IH [of "sent + 1"]
        by (simp add: repair_row_def Let_def)
    qed
  next
    case False
    then show ?thesis using Cons by (auto simp: needy_def Let_def)
  qed
qed simp

definition live_locations :: "tracker \<Rightarrow> nanos \<Rightarrow> string \<Rightarrow> string set" where
  "live_locations st now k = {e \<in> locations st k. fresh now (seen st e)}"

lemma alive_count_card:
  assumes "tracker_inv t st" "(k, locs) \<in> set (tk_index (prune_stale_and_cleanup TTL now st))"
  shows "alive_count (prune_stale_and_cleanup TTL now st) locs = int (card (live_locations st now k))"
proof -
  let ?st = "prune_stale_and_cleanup TTL now st"
  have good: "good_index (tk_index ?st)" using assms(1) by (simp add: tracker_inv_def good_index_cleanup)
  then have k: "map_of (tk_index ?st) k = Some locs" using assms(2) by (simp add: good_index_def)
  have d: "distinct locs" using good_index_lookup [OF good k] by (simp add: good_locs_def)
  have "set locs = locations ?st k" using k by (simp add: locations_def)
  then have l: "set locs = {e \<in> locations st k. seen st e = None \<or> fresh now (seen st e)}"
    by (simp only: locations_cleanup [OF assms(1)])
  have "map_of (tk_peers ?st) e \<noteq> None \<longleftrightarrow> fresh now (seen st e)" for e
  proof -
    have "map_of (tk_peers ?st) e \<noteq> None \<longleftrightarrow> seen ?st e \<noteq> None" by (simp add: seen_def)
    then show ?thesis unfolding seen_prune [OF assms(1)] by (cases "seen st e") (simp_all add: fresh_def)
  qed
  then have "alive_count ?st locs = int (length (filter (\<lambda>e. fresh now (seen st e)) locs))"
    by (simp only: alive_count_def)
  also have "\<dots> = int (card {e \<in> set locs. fresh now (seen st e)})"
    using d by (simp add: distinct_length_filter Collect_conj_eq Int_commute)
  also have "{e \<in> set locs. fresh now (seen st e)} = live_locations st now k"
    unfolding l live_locations_def by (auto simp: fresh_def)
  finally show ?thesis .
qed

lemma live_location_indexed:
  assumes "tracker_inv t st" "live_locations st now k \<noteq> {}"
  shows "\<exists>locs. (k, locs) \<in> set (tk_index (prune_stale_and_cleanup TTL now st))"
proof -
  have "locations (prune_stale_and_cleanup TTL now st) k \<noteq> {}"
    using assms(2) unfolding locations_cleanup [OF assms(1)] live_locations_def by auto
  then show ?thesis by (auto simp: locations_def split: option.splits dest: map_of_SomeD)
qed

text \<open>What \<^verbatim>\<open>NEED_REPAIR d l\<close> lists.\<close>

lemma need_repair_rows:
  assumes "tracker_run (t0, empty_tracker) es (t, st)" "in_int_range d" "in_int_range l" "0 < d" "0 < l"
  shows "\<exists>rows. fst (handle_need_repair (istringstream (SP # show_int d @ SP # show_int l)) now st)
        = or_blank (concat (map (\<lambda>(k, n). k @ SP # show_int (int n) @ [NL]) rows))
    \<and> distinct (map fst rows) \<and> length rows \<le> nat l
    \<and> (\<forall>(k, n) \<in> set rows. n = card (live_locations st now k) \<and> 0 < n \<and> int n < d)
    \<and> (length rows < nat l \<longrightarrow> (\<forall>k. 0 < card (live_locations st now k) \<and> int (card (live_locations st now k)) < d
          \<longrightarrow> k \<in> fst ` set rows))"
proof -
  have inv: "tracker_inv t st" using tracker_inv_run [OF assms(1)] tracker_inv_empty by simp
  let ?st = "prune_stale_and_cleanup TTL now st"
  let ?sel = "filter (needy ?st d) (tk_index ?st)"
  let ?row = "\<lambda>kv. (fst kv, nat (alive_count ?st (snd kv)))"
  let ?rows = "map ?row (take (nat l) ?sel)"
  have args: "read_int 0 (istringstream (SP # show_int d @ SP # show_int l)) = (d, istringstream (SP # show_int l))"
      "read_int 0 (istringstream (SP # show_int l)) = (l, istringstream [])"
    using intc.extract_after_space [OF assms(2), of "SP # show_int l" SP] intc.extract_after_space [OF assms(3), of "[]" SP]
    by simp_all
  have "fst (handle_need_repair (istringstream (SP # show_int d @ SP # show_int l)) now st)
      = or_blank (concat (map (repair_row ?st) (take (nat l) ?sel)))"
    using assms(4,5) args by (simp add: handle_need_repair_def Let_def repair_lines_rows)
  moreover have "map (repair_row ?st) (take (nat l) ?sel) = map (\<lambda>(k, n). k @ SP # show_int (int n) @ [NL]) ?rows"
    by (simp add: repair_row_def alive_count_def)
  moreover have "distinct (map fst ?rows)"
  proof -
    have "good_index (tk_index ?st)" using inv by (simp add: tracker_inv_def good_index_cleanup)
    then have "distinct (map fst ?sel)" by (simp add: good_index_def distinct_map_filter)
    then show ?thesis by (simp add: comp_def distinct_take flip: take_map)
  qed
  moreover have row: "n = card (live_locations st now k) \<and> 0 < n \<and> int n < d" if kn: "(k, n) \<in> set ?rows" for k n
  proof -
    obtain kv where kv: "kv \<in> set ?sel" "k = fst kv" "n = nat (alive_count ?st (snd kv))"
      using kn by (auto dest: in_set_takeD)
    have "(fst kv, snd kv) \<in> set (tk_index ?st)" "needy ?st d kv" using kv(1) by simp_all
    then show ?thesis using alive_count_card [OF inv, of "fst kv" "snd kv" now] kv(2,3) by (simp add: needy_def)
  qed
  moreover have "k \<in> fst ` set ?rows"
    if few: "length ?rows < nat l" and k: "0 < card (live_locations st now k)" "int (card (live_locations st now k)) < d" for k
  proof -
    have "live_locations st now k \<noteq> {}" using k(1) by auto
    from live_location_indexed [OF inv this] obtain locs where locs: "(k, locs) \<in> set (tk_index ?st)" by blast
    then have "(k, locs) \<in> set ?sel" using alive_count_card [OF inv locs] k by (simp add: needy_def)
    moreover have "take (nat l) ?sel = ?sel" using few by simp
    ultimately show ?thesis by force
  qed
  moreover have "length ?rows \<le> nat l" by simp
  ultimately show ?thesis by (intro exI [of _ ?rows]) (simp only: case_prodI2 ball_simps, blast)
qed

section \<open>Requests on the wire\<close>

lemma serve_line:
  assumes "clean (cn_rx c)" "stream (cn_rx c) = l @ NL # body" "good_line l" "read_token [] (istringstream l) = (cmd, iss)"
  shows "\<exists>es. serve_tracker now now' c st =
    (close_conn (send_ignored (fst (tracker_command now now' cmd iss st)) (c\<lparr>cn_rx := es\<rparr>)), snd (tracker_command now now' cmd iss st))"
proof -
  obtain es where "recv_line (cn_rx c) = (True, l, es)"
    using recv_line_at [OF assms(1,2)] assms(3) by (auto simp: good_line_def)
  then show ?thesis using assms(4)
    by (intro exI [of _ es]) (cases "tracker_command now now' cmd iss st"; simp add: serve_tracker_def Let_def)
qed

lemma register_seen:
  assumes "is_token host" "1 \<le> p" "p \<le> 65535"
  shows "handle_register (istringstream (SP # host @ SP # show_int p)) now st
    = (OK_line, st\<lparr>tk_peers := AList.update (entry_of host p) \<lparr>last_seen = now\<rparr> (tk_peers st)\<rparr>)"
proof -
  have "in_int_range p" using assms(2,3) by (simp add: in_int_range_def)
  then have "read_token [] (istringstream (SP # host @ SP # show_int p)) = (host, istringstream (SP # show_int p))"
      "read_int 0 (istringstream (SP # show_int p)) = (p, istringstream [])"
    using tok.extract_after_space [OF assms(1), of "SP # show_int p" SP] intc.extract_after_space [of p "[]" SP] by simp_all
  then show ?thesis using assms by (simp add: handle_register_def bad_endpoint_def is_token_def)
qed

lemma announce_added:
  assumes "is_token k" "is_token host" "1 \<le> p" "p \<le> 65535"
  shows "handle_announce (istringstream (SP # k @ SP # host @ SP # show_int p)) now st
    = (OK_line, add_location k (entry_of host p) st)"
proof -
  have "in_int_range p" using assms(3,4) by (simp add: in_int_range_def)
  then have "read_token [] (istringstream (SP # k @ SP # host @ SP # show_int p)) = (k, istringstream (SP # host @ SP # show_int p))"
      "read_token [] (istringstream (SP # host @ SP # show_int p)) = (host, istringstream (SP # show_int p))"
      "read_int 0 (istringstream (SP # show_int p)) = (p, istringstream [])"
    using tok.extract_after_space [OF assms(1), of "SP # host @ SP # show_int p" SP]
      tok.extract_after_space [OF assms(2), of "SP # show_int p" SP] intc.extract_after_space [of p "[]" SP] by simp_all
  then show ?thesis using assms by (simp add: handle_announce_def bad_endpoint_def is_token_def split: option.splits)
qed

text \<open>A run with one registered peer and a chunk announced at it and at a peer that never registers.\<close>

definition sample_tracker :: tracker where
  "sample_tracker = \<lparr>tk_peers = [(entry_of ''h'' 7, \<lparr>last_seen = 5\<rparr>)], tk_index = [(''c'', [entry_of ''g'' 7, entry_of ''h'' 7])]\<rparr>"

definition sent_line :: "string \<Rightarrow> conn" where
  "sent_line l = new_conn [Data (l @ [NL])] []"

lemma sample_steps:
  "snd (serve_tracker 5 5 (sent_line (''REGISTER'' @ SP # ''h'' @ SP # show_int 7)) empty_tracker)
     = \<lparr>tk_peers = [(entry_of ''h'' 7, \<lparr>last_seen = 5\<rparr>)], tk_index = []\<rparr>" (is ?R)
  "snd (serve_tracker 6 6 (sent_line (''ANNOUNCE'' @ SP # ''c'' @ SP # ''h'' @ SP # show_int 7))
       \<lparr>tk_peers = [(entry_of ''h'' 7, \<lparr>last_seen = 5\<rparr>)], tk_index = []\<rparr>)
     = \<lparr>tk_peers = [(entry_of ''h'' 7, \<lparr>last_seen = 5\<rparr>)], tk_index = [(''c'', [entry_of ''h'' 7])]\<rparr>" (is ?A)
  "snd (serve_tracker 7 7 (sent_line (''ANNOUNCE'' @ SP # ''c'' @ SP # ''g'' @ SP # show_int 7))
       \<lparr>tk_peers = [(entry_of ''h'' 7, \<lparr>last_seen = 5\<rparr>)], tk_index = [(''c'', [entry_of ''h'' 7])]\<rparr>) = sample_tracker" (is ?B)
proof -
  have tok: "is_token ''c''" "is_token ''g''" "is_token ''h''" by (simp_all add: is_token_def isspace_def)
  have one: "snd (serve_tracker now now' (sent_line (cmd @ SP # w)) st)
      = snd (tracker_command now now' cmd (istringstream (SP # w)) st)"
    if "good_line (cmd @ SP # w)" "is_token cmd" for now now' cmd w st
    using serve_line [of "sent_line (cmd @ SP # w)" "cmd @ SP # w" "[]" cmd "istringstream (SP # w)" now now' st] that
      tok.extract_at [of cmd "SP # w"] by (fastforce simp: sent_line_def new_conn_def)
  have n: "length (show_int 7) \<le> 20" "NL \<notin> set (show_int 7)" "CR \<notin> set (show_int 7)"
    using show_nat_short [of 7] token_no_break [OF show_int_is_token, of 7] by (simp_all add: show_int_def)
  have r: "good_line (''REGISTER'' @ SP # ''h'' @ SP # show_int 7)" using n by (simp add: good_line_def)
  have l: "good_line (''ANNOUNCE'' @ SP # ''c'' @ SP # h @ SP # show_int 7)" if "h \<in> {''h'', ''g''}" for h
    using n that by (auto simp: good_line_def)
  have c: "is_token ''REGISTER''" "is_token ''ANNOUNCE''" by (simp_all add: is_token_def isspace_def)
  have ne: "entry_of ''g'' 7 \<noteq> entry_of ''h'' 7" by (simp add: entry_of_def)
  show ?R using one [OF r c(1)] register_seen [OF tok(3), of 7] by (simp add: tracker_command_def empty_tracker_def)
  show ?A using one [OF l [of "''h''"] c(2)] announce_added [OF tok(1,3), of 7] by (simp add: tracker_command_def add_location_def)
  show ?B using one [OF l [of "''g''"] c(2)] announce_added [OF tok(1,2), of 7] ne
    by (simp add: tracker_command_def add_location_def sample_tracker_def)
qed

lemma served_state:
  "t \<le> now \<Longrightarrow> now \<le> now' \<Longrightarrow> \<exists>c'. tracker_step (t, st) (Served c c') (now', snd (serve_tracker now now' c st))"
  by (cases "serve_tracker now now' c st") (auto intro: tracker_step.served)

lemma run_next: "\<exists>es. tracker_run s es s1 \<Longrightarrow> \<exists>e. tracker_step s1 e s2 \<Longrightarrow> \<exists>es. tracker_run s es s2"
  by (blast intro: run_step)

lemma sample_run: "\<exists>es. tracker_run (0, empty_tracker) es (7, sample_tracker)"
proof -
  have go: "\<exists>es. tracker_run (0, empty_tracker) es (now, st2)"
    if "\<exists>es. tracker_run (0, empty_tracker) es (t, st1)" "t \<le> now" "snd (serve_tracker now now c st1) = st2" for t st1 now c st2
    using run_next [OF that(1)] served_state [OF that(2), of now st1 c] that(3) by blast
  have "\<exists>es. tracker_run (0, empty_tracker) es (0, empty_tracker)" by (blast intro: run_nil)
  from go [OF go [OF go [OF this _ sample_steps(1)] _ sample_steps(2)] _ sample_steps(3)]
  show ?thesis by simp
qed

theorem tracker_invariant_witness: "tracker_inv 7 sample_tracker \<and> (0 :: int) \<le> 7"
proof -
  obtain es where "tracker_run (0, empty_tracker) es (7, sample_tracker)" using sample_run by blast
  then show ?thesis by (rule tracker_invariant)
qed

lemma sample_live: "live_locations sample_tracker 8 k = (if k = ''c'' then {entry_of ''h'' 7} else {})"
  by (auto simp: live_locations_def locations_def sample_tracker_def seen_def fresh_def TTL_def entry_of_def)

section \<open>How long an entry lasts\<close>

lemma get_peers_cleanup: "now \<le> now' \<Longrightarrow> snd (handle_get_peers now now' st) = prune_stale_and_cleanup TTL now' st"
  by (simp add: get_peers_state)

lemma need_repair_cleanup: "snd (handle_need_repair iss now st) = prune_stale_and_cleanup TTL now st"
  by (simp add: handle_need_repair_def Let_def split: prod.splits)

lemma where_state: "snd (handle_where iss now st) = st"
  by (simp add: handle_where_def split: prod.splits)

lemma register_effect:
  assumes "handle_register iss now st = (a, st') \<or> handle_heartbeat iss now st = (a, st')"
  shows "st' = st \<or> (\<exists>e. valid_entry e \<and> st' = st\<lparr>tk_peers := AList.update e \<lparr>last_seen = now\<rparr> (tk_peers st)\<rparr>)"
proof -
  obtain host iss1 where h: "read_token [] iss = (host, iss1)" by fastforce
  obtain p iss2 where p: "read_int 0 iss1 = (p, iss2)" by fastforce
  show ?thesis
  proof (cases "bad_endpoint host p")
    case False
    have "st' = st\<lparr>tk_peers := AList.update (entry_of host p) \<lparr>last_seen = now\<rparr> (tk_peers st)\<rparr>"
      using assms h p False by (elim disjE) (simp_all add: handle_register_def handle_heartbeat_def)
    then show ?thesis using accepted_endpoint [OF h False] by blast
  qed (use assms h p in \<open>elim disjE; simp add: handle_register_def handle_heartbeat_def\<close>)
qed

lemma announce_effect:
  assumes "handle_announce iss now st = (a, st')"
  shows "st' = st \<or> (\<exists>k e. st' = add_location k e st)"
proof -
  obtain k iss1 where k: "read_token [] iss = (k, iss1)" by fastforce
  obtain host iss2 where h: "read_token [] iss1 = (host, iss2)" by fastforce
  obtain p iss3 where p: "read_int 0 iss2 = (p, iss3)" by fastforce
  show ?thesis
  proof (cases "k = [] \<or> bad_endpoint host p")
    case False
    then have "st' = add_location k (entry_of host p) st"
      using assms k h p by (simp add: handle_announce_def split: option.splits if_splits)
    then show ?thesis by blast
  qed (use assms k h p in \<open>simp add: handle_announce_def\<close>)
qed

lemma one_of_six:
  obtains "x = a" | "x = b" | "x = c" | "x = d" | "x = e" | "x = f" | "x \<notin> {a, b, c, d, e, f}"
  by blast

text \<open>What a request does to the tables: it refreshes a peer, adds a location, prunes or changes nothing.\<close>

lemma command_effect:
  assumes "tracker_command now now' cmd iss st = (a, st')" "now \<le> now'"
  obtains (refresh) e where "cmd = ''REGISTER'' \<or> cmd = ''HEARTBEAT''" "valid_entry e"
      "st' = st\<lparr>tk_peers := AList.update e \<lparr>last_seen = now\<rparr> (tk_peers st)\<rparr>"
  | (announce) k e where "cmd = ''ANNOUNCE''" "st' = add_location k e st"
  | (prune) m where "now \<le> m" "m \<le> now'" "st' = prune_stale_and_cleanup TTL m st"
  | (same) "st' = st"
proof -
  show thesis
  proof (cases rule: one_of_six [where x = cmd and a = "''REGISTER''" and b = "''HEARTBEAT''" and c = "''ANNOUNCE''" and d = "''WHERE''"
        and e = "''NEED_REPAIR''" and f = "''GET_PEERS''"])
    case 1
    then have "handle_register iss now st = (a, st')" using assms(1) by (simp add: tracker_command_def)
    then show thesis using register_effect [of iss now st a st'] 1 refresh same by blast
  next
    case 2
    then have "handle_heartbeat iss now st = (a, st')" using assms(1) by (simp add: tracker_command_def)
    then show thesis using register_effect [of iss now st a st'] 2 refresh same by blast
  next
    case 3
    then have "handle_announce iss now st = (a, st')" using assms(1) by (simp add: tracker_command_def)
    then show thesis using announce_effect [of iss now st a st'] 3 announce same by blast
  next
    case 4
    then have "st' = st" using assms(1) where_state [of iss now st] by (simp add: tracker_command_def)
    then show thesis by (rule same)
  next
    case 5
    then have "st' = prune_stale_and_cleanup TTL now st"
      using assms(1) need_repair_cleanup [of iss now st] by (simp add: tracker_command_def)
    then show thesis using prune assms(2) by blast
  next
    case 6
    then have "st' = prune_stale_and_cleanup TTL now' st"
      using assms get_peers_cleanup [of now now' st] by (simp add: tracker_command_def)
    then show thesis using prune assms(2) by blast
  next
    case 7
    then have "st' = st" using assms(1) by (simp add: tracker_command_def)
    then show thesis by (rule same)
  qed
qed

text \<open>The command word of a connection's request line.\<close>

definition command_of :: "conn \<Rightarrow> string" where
  "command_of c = fst (read_token [] (istringstream (fst (snd (recv_line (cn_rx c))))))"

lemma serve_command:
  assumes "serve_tracker now now' c st = (c', st')"
  shows "st' = st \<or> (\<exists>iss a. tracker_command now now' (command_of c) iss st = (a, st'))"
proof -
  obtain ok line es where line: "recv_line (cn_rx c) = (ok, line, es)" using prod_cases3 by blast
  obtain cmd iss where cmd: "read_token [] (istringstream line) = (cmd, iss)" by fastforce
  obtain a st1 where ans: "tracker_command now now' cmd iss st = (a, st1)" by fastforce
  have "st' = (if ok then st1 else st)" using assms by (auto simp: serve_tracker_def line cmd ans)
  moreover have "command_of c = cmd" by (simp add: command_of_def line cmd)
  ultimately show ?thesis using ans by (auto split: if_splits)
qed

lemma seen_kept:
  assumes "tracker_step s e s'" "tracker_inv (fst s) (snd s)" "seen (snd s) x = Some u" "fst s' - u \<le> TTL"
  shows "\<exists>u' \<ge> u. seen (snd s') x = Some u'"
  using assms
proof (induction rule: tracker_step.induct)
  case (served t now now' c st c' st')
  have "u \<le> t"
    using served.prems by (auto simp: tracker_inv_def good_peers_def seen_def dest!: map_of_SomeD)
  then have u: "u \<le> now" using served.hyps by simp
  from serve_command [OF served.hyps(3)] show ?case
  proof (elim disjE exE)
    fix iss a assume cmd: "tracker_command now now' (command_of c) iss st = (a, st')"
    show ?thesis
    proof (cases rule: command_effect [OF cmd served.hyps(2), case_names refresh announce prune same])
      case (refresh e)
      then show ?thesis using served.prems u by (auto simp: seen_refresh)
    next
      case (prune m)
      then show ?thesis using served.prems by (auto simp: seen_prune fresh_def)
    qed (use served.prems in \<open>auto simp: locations_add\<close>)
  qed (use served.prems in auto)
next
  case (rehashed st st' t)
  then show ?case using seen_rehash(1) by fastforce
qed auto

lemma seen_kept_run:
  "tracker_run s es s' \<Longrightarrow> tracker_inv (fst s) (snd s) \<Longrightarrow> seen (snd s) x = Some u \<Longrightarrow> fst s' - u \<le> TTL
   \<Longrightarrow> \<exists>u' \<ge> u. seen (snd s') x = Some u'"
proof (induction rule: tracker_run.induct)
  case (run_step s es s1 e s2)
  have inv1: "tracker_inv (fst s1) (snd s1)" using tracker_inv_run [OF run_step.hyps(1) run_step.prems(1)] by simp
  have le: "fst s1 \<le> fst s2" using tracker_inv_step [OF run_step.hyps(2) inv1] by simp
  then obtain u1 where u1: "u1 \<ge> u" "seen (snd s1) x = Some u1" using run_step by fastforce
  then show ?case using seen_kept [OF run_step.hyps(2) inv1 u1(2)] run_step.prems(3) by force
qed auto

text \<open>
  C15: A registration lasts: whatever other clients do, each \<^verbatim>\<open>GET_PEERS\<close> answered
  within 30 seconds of a peer's \<^verbatim>\<open>REGISTER\<close> lists the peer, and lists no peer twice.
\<close>

theorem registration_lasts:
  assumes "tracker_run (t0, empty_tracker) es (t, st)" "is_token host" "1 \<le> p" "p \<le> 65535" "t \<le> now"
    "handle_register (istringstream (SP # host @ SP # show_int p)) now st = (a, st1)"
    "tracker_run (now, st1) es' (t', st2)" "now1 \<le> now2" "t' \<le> now2" "now2 \<le> now + TTL"
  shows "a = OK_line \<and> (\<exists>listed. fst (handle_get_peers now1 now2 st2) = lines_of listed
    \<and> distinct listed \<and> entry_of host p \<in> set listed)"
proof -
  let ?e = "entry_of host p"
  have st1: "a = OK_line" "st1 = st\<lparr>tk_peers := AList.update ?e \<lparr>last_seen = now\<rparr> (tk_peers st)\<rparr>"
    using assms(6) register_seen [OF assms(2-4)] by simp_all
  have "tracker_inv t st" using tracker_inv_run [OF assms(1)] tracker_inv_empty by simp
  moreover have "valid_entry ?e" using assms(2-4) by (auto simp: valid_entry_def)
  ultimately have inv1: "tracker_inv now st1"
    using assms(5) good_peers_update [of t "tk_peers st" now ?e] by (simp add: tracker_inv_def st1(2))
  have "seen st1 ?e = Some now" by (simp add: st1(2) seen_refresh)
  then obtain u where u: "u \<ge> now" "seen st2 ?e = Some u"
    using seen_kept_run [OF assms(7), of ?e now] inv1 assms(9,10) by auto
  have inv2: "tracker_inv t' st2" using tracker_inv_run [OF assms(7)] inv1 by simp
  obtain listed where l: "handle_get_peers now1 now2 st2 = (or_blank (lines_of listed), prune_stale_and_cleanup TTL now2 st2)"
      "distinct listed" "set listed = {e. fresh now2 (seen st2 e)}"
    using get_peers_lines [OF inv2 assms(8)] by blast
  have "?e \<in> set listed" using l(3) u assms(10) by (simp add: fresh_def)
  moreover from this have "or_blank (lines_of listed) = lines_of listed" by (auto simp: or_blank_def)
  ultimately show ?thesis using st1(1) l(1,2) by auto
qed

theorem registration_lasts_witness:
  "\<exists>st2 listed. fst (handle_get_peers (5 + TTL) (5 + TTL) st2) = lines_of listed \<and> distinct listed
    \<and> entry_of ''h'' 7 \<in> set listed"
proof -
  have h: "is_token ''h''" by (simp add: is_token_def isspace_def)
  let ?st1 = "\<lparr>tk_peers = [(entry_of ''h'' 7, \<lparr>last_seen = 5\<rparr>)], tk_index = []\<rparr>"
  have reg: "handle_register (istringstream (SP # ''h'' @ SP # show_int 7)) 5 empty_tracker = (OK_line, ?st1)"
    using register_seen [OF h, of 7 5 empty_tracker] by (simp add: empty_tracker_def)
  obtain c' where "tracker_step (5, ?st1) (Served (sent_line ''GET_PEERS'') c')
      (6, snd (serve_tracker 6 6 (sent_line ''GET_PEERS'') ?st1))"
    using served_state [of 5 6 6 ?st1 "sent_line ''GET_PEERS''"] by auto
  note run = run_step [OF run_nil this, unfolded append_Nil]
  have t: "(6 :: int) \<le> 5 + TTL" by (simp add: TTL_def)
  show ?thesis
    using registration_lasts [OF run_nil [of "(0, empty_tracker)"] h _ _ _ reg run, of "5 + TTL" "5 + TTL"] t by auto
qed

text \<open>
  \<^verbatim>\<open>WHERE\<close> answers with each location of the chunk that was announced and whose
  peer was seen in the last 30 seconds, once, and with no other; the tables do not change.
\<close>

theorem where_answers:
  assumes "tracker_run (t0, empty_tracker) es (t, st)" "is_token k"
  shows "\<exists>listed. handle_where (istringstream (SP # k)) now st = (or_blank (lines_of listed), st)
    \<and> distinct listed \<and> set listed = live_locations st now k"
proof -
  have "tracker_inv t st" using tracker_inv_run [OF assms(1)] tracker_inv_empty by simp
  from where_lines [OF this assms(2), of now] show ?thesis by (simp add: live_locations_def)
qed

theorem where_answers_witness:
  "\<exists>listed. handle_where (istringstream (SP # ''c'')) 8 sample_tracker = (or_blank (lines_of listed), sample_tracker)
    \<and> distinct listed \<and> set listed = {entry_of ''h'' 7}"
proof -
  obtain es where run: "tracker_run (0, empty_tracker) es (7, sample_tracker)" using sample_run by blast
  have "is_token ''c''" by (simp add: is_token_def isspace_def)
  from where_answers [OF run this, of 8] show ?thesis by (simp add: sample_live)
qed

section \<open>Announcements of peers that never register\<close>

lemma ghost_step:
  assumes "tracker_step s e s'" "tracker_inv (fst s) (snd s)" "seen (snd s) x = None" "x \<in> locations (snd s) k"
    "\<forall>c c'. e = Served c c' \<longrightarrow> command_of c \<noteq> ''REGISTER'' \<and> command_of c \<noteq> ''HEARTBEAT''"
  shows "seen (snd s') x = None \<and> x \<in> locations (snd s') k"
  using assms
proof (induction rule: tracker_step.induct)
  case (served t now now' c st c' st')
  from serve_command [OF served.hyps(3)] show ?case
  proof (elim disjE exE)
    fix iss a assume cmd: "tracker_command now now' (command_of c) iss st = (a, st')"
    show ?thesis
    proof (cases rule: command_effect [OF cmd served.hyps(2), case_names refresh announce prune same])
      case (prune m)
      then show ?thesis using served.prems by (auto simp: seen_prune locations_cleanup fresh_def)
    qed (use served.prems in \<open>auto simp: locations_add\<close>)
  qed (use served.prems in auto)
next
  case (rehashed st st' t)
  then show ?case using seen_rehash [of t st st'] by simp
qed auto

text \<open>
  A location announced for a peer that is not registered is never cleaned up: as
  long as nobody registers (or sends a heartbeat), it survives every request of every
  client, however much time passes, because only peers in the peer table can die.
\<close>

theorem ghost_location_stays:
  assumes "tracker_run s es s'" "tracker_inv (fst s) (snd s)" "seen (snd s) x = None" "x \<in> locations (snd s) k"
    "\<forall>c c'. Served c c' \<in> set es \<longrightarrow> command_of c \<noteq> ''REGISTER'' \<and> command_of c \<noteq> ''HEARTBEAT''"
  shows "x \<in> locations (snd s') k \<and> seen (snd s') x = None"
  using assms
proof (induction rule: tracker_run.induct)
  case (run_step s es s1 e s2)
  have "tracker_inv (fst s1) (snd s1)" using tracker_inv_run [OF run_step.hyps(1) run_step.prems(1)] by simp
  moreover have "x \<in> locations (snd s1) k \<and> seen (snd s1) x = None"
  proof (rule run_step.IH [OF run_step.prems(1-3)])
    show "\<forall>c c'. Served c c' \<in> set es \<longrightarrow> command_of c \<noteq> ''REGISTER'' \<and> command_of c \<noteq> ''HEARTBEAT''"
      using run_step.prems(4) by simp
  qed
  moreover have "\<forall>c c'. e = Served c c' \<longrightarrow> command_of c \<noteq> ''REGISTER'' \<and> command_of c \<noteq> ''HEARTBEAT''"
    using run_step.prems(4) by auto
  ultimately show ?case using ghost_step [OF run_step.hyps(2), of x k] by blast
qed simp

theorem ghost_location_stays_witness:
  "\<exists>es st'. tracker_run (7, sample_tracker) es (7 + 10 * TTL, st') \<and> entry_of ''g'' 7 \<in> locations st' ''c''"
proof -
  let ?c = "sent_line ''GET_PEERS''"
  obtain c' st' where st: "tracker_step (7, sample_tracker) (Served ?c c') (7 + 10 * TTL, st')"
    using served_state [of 7 "7 + 10 * TTL" "7 + 10 * TTL" sample_tracker ?c] by (auto simp: TTL_def)
  have run: "tracker_run (7, sample_tracker) [Served ?c c'] (7 + 10 * TTL, st')"
    using run_step [OF run_nil st] by simp
  have inv: "tracker_inv 7 sample_tracker"
  proof -
    obtain es where "tracker_run (0, empty_tracker) es (7, sample_tracker)" using sample_run by blast
    then show ?thesis using tracker_inv_run tracker_inv_empty by fastforce
  qed
  have "recv_line (cn_rx ?c) = (True, ''GET_PEERS'', [])" by (simp add: sent_line_def new_conn_def) code_simp
  then have "command_of ?c = ''GET_PEERS''"
    using tok.extract_at [of "''GET_PEERS''" "[]"] by (simp add: command_of_def is_token_def isspace_def)
  moreover have "seen sample_tracker (entry_of ''g'' 7) = None" "entry_of ''g'' 7 \<in> locations sample_tracker ''c''"
    by (simp_all add: seen_def sample_tracker_def locations_def entry_of_def)
  ultimately show ?thesis
    using ghost_location_stays [OF run, of "entry_of ''g'' 7" "''c''"] inv run by auto
qed

end
