(* ===== verification/Tracker_Client.thy ===== *)
theory Tracker_Client
  imports Tracker Peer_Client
begin

text \<open>
  The client of the tracker, \<^verbatim>\<open>core/tracker/tracker_client.cpp\<close>: one connection per request,
  the answer read to its end and split into lines. The network is the parameter of
  \<open>Peer_Client\<close>; with the model of the tracker in its place the answers are shown to be
  what the tracker knows, and one registration with a colon in its host to make every
  client's \<^verbatim>\<open>getPeers\<close> throw.
\<close>

section \<open>Requests\<close>

text \<open>The request, how often the descriptor is closed, and the network afterwards.\<close>

definition requestLine :: "'w network \<Rightarrow> 'w \<Rightarrow> peer_endpoint \<Rightarrow> string \<Rightarrow> string result \<times> nat \<times> 'w" where
  "requestLine net w tracker line =
     (case net_connect net w tracker of
        (Inl e, n) \<Rightarrow> (Inl e, n, w)
      | (Inr a, n) \<Rightarrow>
         (let toSend = (if line = [] \<or> last line \<noteq> NL then line @ [NL] else line) in
          case exchange net w a [toSend] of
            (Inl e, es, w') \<Rightarrow> (Inl e, n + 1, w')
          | (Inr _, es, w') \<Rightarrow> (recv_all_text es, n + 1, w')))"

text \<open>\<^verbatim>\<open>s.find(':')\<close> and what \<^verbatim>\<open>substr\<close> cuts there: the text before it and the port behind it.\<close>

definition split_endpoint :: "string \<Rightarrow> peer_endpoint option result" where
  "split_endpoint s =
     (if CHR '':'' \<notin> set s then Inr None
      else bindR (stoi (drop (length (takeWhile (\<lambda>c. c \<noteq> CHR '':'') s) + 1) s)) (\<lambda>p.
        Inr (Some \<lparr>ip = takeWhile (\<lambda>c. c \<noteq> CHR '':'') s, port = p\<rparr>)))"

fun collect_endpoints :: "(string \<Rightarrow> string) \<Rightarrow> string list \<Rightarrow> peer_endpoint list result" where
  "collect_endpoints f [] = Inr []"
| "collect_endpoints f (line # ls) =
     (if f line = [] then collect_endpoints f ls
      else bindR (split_endpoint (f line)) (\<lambda>ep.
           bindR (collect_endpoints f ls) (\<lambda>eps.
           Inr (case ep of None \<Rightarrow> eps | Some x \<Rightarrow> x # eps))))"

text \<open>\<^verbatim>\<open>getPeers\<close> takes the first word of each line, \<^verbatim>\<open>whereChunk\<close> the line.\<close>

definition first_word :: "string \<Rightarrow> string" where
  "first_word line = fst (read_token [] (istringstream line))"

definition getPeers :: "'w network \<Rightarrow> 'w \<Rightarrow> peer_endpoint \<Rightarrow> peer_endpoint list result \<times> 'w" where
  "getPeers net w tracker =
     (case requestLine net w tracker (''GET_PEERS'' @ [NL]) of
        (r, _, w') \<Rightarrow> (bindR r (\<lambda>resp. collect_endpoints first_word (getlines NL resp)), w'))"

definition whereChunk :: "'w network \<Rightarrow> 'w \<Rightarrow> peer_endpoint \<Rightarrow> string \<Rightarrow> peer_endpoint list result \<times> 'w" where
  "whereChunk net w tracker chunk_id =
     (case requestLine net w tracker (''WHERE'' @ SP # chunk_id @ [NL]) of
        (r, _, w') \<Rightarrow> (bindR r (\<lambda>resp. collect_endpoints (\<lambda>l. l) (getlines NL resp)), w'))"

definition announceChunk :: "'w network \<Rightarrow> 'w \<Rightarrow> peer_endpoint \<Rightarrow> string \<Rightarrow> string \<Rightarrow> int \<Rightarrow> 'w" where
  "announceChunk net w tracker chunk_id peer_ip peer_port =
     (case requestLine net w tracker
             (''ANNOUNCE'' @ SP # chunk_id @ SP # peer_ip @ SP # show_int peer_port @ [NL]) of
        (_, _, w') \<Rightarrow> w')"

text \<open>\<^verbatim>\<open>while (iss >> cid >> count)\<close>\<close>

function read_ids :: "istream \<Rightarrow> string list" where
  "read_ids s =
     (case read_token [] s of (cid, s1) \<Rightarrow>
      case read_int 0 s1 of (_, s2) \<Rightarrow>
        if in_fail s2 then [] else (if cid \<noteq> [] then [cid] else []) @ read_ids s2)"
  by auto
termination
proof (relation "measure (\<lambda>s. length (in_rest s))")
  fix s cid s1 n s2
  assume 1: "(cid, s1) = read_token [] s" and 2: "(n, s2) = read_int 0 s1" and ok: "\<not> in_fail s2"
  have "\<not> in_fail s1" using ok read_num_failed [of s1 to_int 0] 2 by (metis read_int_def snd_conv)
  then have "length (in_rest s1) < length (in_rest s)" using read_token_length [of "[]" s] 1 by (metis snd_conv)
  moreover have "length (in_rest s2) \<le> length (in_rest s1)"
    using read_num_length [of to_int 0 s1] 2 by (metis read_int_def snd_conv)
  ultimately show "(s2, s) \<in> measure (\<lambda>s. length (in_rest s))" by simp
qed simp

declare read_ids.simps [simp del]

definition needRepair :: "'w network \<Rightarrow> 'w \<Rightarrow> peer_endpoint \<Rightarrow> int \<Rightarrow> int \<Rightarrow> string list result \<times> 'w" where
  "needRepair net w tracker desired limit =
     (case requestLine net w tracker (''NEED_REPAIR'' @ SP # show_int desired @ SP # show_int limit @ [NL]) of
        (r, _, w') \<Rightarrow> (bindR r (\<lambda>resp. Inr (read_ids (istringstream resp))), w'))"

section \<open>The tracker as a network\<close>

text \<open>A tracker that is reachable and whose clock shows \<open>now\<close>, then \<open>now'\<close>.\<close>

definition tracker_net :: "(string \<Rightarrow> u32 option) \<Rightarrow> (bytes \<Rightarrow> recv_event list) \<Rightarrow> nanos \<Rightarrow> nanos \<Rightarrow> tracker network" where
  "tracker_net resolve seg now now' =
     \<lparr>net_sys = \<lambda>w. \<lparr>os_socket = True, os_inet_pton = resolve, os_getaddrinfo = \<lambda>_. None, os_connect = \<lambda>a. True\<rparr>,
      net_sends = \<lambda>_ _. [],
      net_reply = \<lambda>st a sent. (case serve_tracker now now' (new_conn (seg sent) []) st of (c, st') \<Rightarrow> (seg (cn_tx c), st'))\<rparr>"

lemma exchange_tracker:
  "exchange (tracker_net resolve seg now now') st a parts =
     (case serve_tracker now now' (new_conn (seg (concat parts)) []) st of (c, st') \<Rightarrow> (Inr (), seg (cn_tx c), st'))"
  by (simp add: exchange_def tracker_net_def send_parts_open split: prod.splits)

lemma requestLine_tracker:
  assumes "segments seg" "resolve (ip ep) \<noteq> None" "good_line l" "read_token [] (istringstream l) = (cmd, iss)"
  shows "requestLine (tracker_net resolve seg now now') st ep (l @ [NL])
    = (Inr (fst (tracker_command now now' cmd iss st)), 1, snd (tracker_command now now' cmd iss st))"
proof -
  let ?c = "new_conn (seg (l @ [NL])) []" and ?ans = "tracker_command now now' cmd iss st"
  have "clean (cn_rx ?c)" "stream (cn_rx ?c) = l @ NL # []" using assms(1) by (simp_all add: segments_def new_conn_def)
  from serve_line [OF this assms(3,4), of now now' st] obtain es where
    srv: "serve_tracker now now' ?c st = (close_conn (send_ignored (fst ?ans) (?c\<lparr>cn_rx := es\<rparr>)), snd ?ans)" by blast
  have tx: "cn_tx (close_conn (send_ignored (fst ?ans) (?c\<lparr>cn_rx := es\<rparr>))) = fst ?ans"
    by (simp add: send_ignored_open new_conn_def)
  have "recv_all_text (seg (fst ?ans)) = Inr (fst ?ans)"
    using recv_all_loop_clean [of "seg (fst ?ans)" "[]"] assms(1) by (simp add: segments_def recv_all_text_def)
  moreover obtain a where "net_connect (tracker_net resolve seg now now') st ep = (Inr a, 0)"
    using assms(2) by (auto simp: net_connect_def connect_tcp_fatal_or_throw_def tracker_net_def fill_sockaddr_in_v4_def)
  ultimately show ?thesis
    using srv tx
    by (simp add: requestLine_def exchange_tracker)
qed

section \<open>Answers\<close>

text \<open>An entry whose host has no colon.\<close>

definition plain_entry :: "string \<Rightarrow> bool" where
  "plain_entry e \<longleftrightarrow> (\<exists>host p. e = entry_of host p \<and> is_token host \<and> CHR '':'' \<notin> set host \<and> 1 \<le> p \<and> p \<le> 65535)"

definition entry_text :: "peer_endpoint \<Rightarrow> string" where
  "entry_text ep = entry_of (ip ep) (port ep)"

lemma split_entry:
  assumes "CHR '':'' \<notin> set host" "in_int_range p"
  shows "split_endpoint (entry_of host p) = Inr (Some \<lparr>ip = host, port = p\<rparr>)"
proof -
  have "takeWhile (\<lambda>c. c \<noteq> CHR '':'') (entry_of host p) = host" using assms(1) by (auto simp: entry_of_def takeWhile_tail)
  moreover have "drop (length host + 1) (entry_of host p) = show_int p" by (simp add: entry_of_def)
  moreover have "CHR '':'' \<in> set (entry_of host p)" by (simp add: entry_of_def)
  ultimately show ?thesis using stoi_show_int [OF assms(2), of "[]"] by (simp add: split_endpoint_def)
qed

lemma collect_plain:
  assumes "\<forall>e \<in> set es. plain_entry e" "\<forall>e \<in> set es. f e = e"
  shows "\<exists>eps. collect_endpoints f es = Inr eps \<and> map entry_text eps = es"
  using assms
proof (induction es)
  case (Cons e es)
  then obtain eps where eps: "collect_endpoints f es = Inr eps" "map entry_text eps = es" by auto
  obtain host p where e: "e = entry_of host p" "CHR '':'' \<notin> set host" "1 \<le> p" "p \<le> 65535"
    using Cons.prems(1) by (auto simp: plain_entry_def)
  then have "split_endpoint e = Inr (Some \<lparr>ip = host, port = p\<rparr>)" using split_entry by (simp add: in_int_range_def)
  moreover have "e \<noteq> []" by (simp add: e(1) entry_of_def)
  ultimately show ?case using eps Cons.prems(2) e(1)
    by (intro exI [of _ "\<lparr>ip = host, port = p\<rparr> # eps"]) (auto simp: entry_text_def)
qed simp

lemma collect_member:
  "collect_endpoints f es = Inr eps \<Longrightarrow> e \<in> set es \<Longrightarrow> f e \<noteq> [] \<Longrightarrow> split_endpoint (f e) = Inr (Some x) \<Longrightarrow> x \<in> set eps"
proof (induction es arbitrary: eps)
  case (Cons y es)
  show ?case
  proof (cases "f y = []")
    case True
    then show ?thesis using Cons by auto
  next
    case False
    then obtain z eps' where z: "split_endpoint (f y) = Inr z" "collect_endpoints f es = Inr eps'"
        "eps = (case z of None \<Rightarrow> eps' | Some x \<Rightarrow> x # eps')"
      using Cons.prems(1) by (auto simp: result_iff)
    then show ?thesis using Cons by (cases "e = y") (auto split: option.splits)
  qed
qed simp

lemma entry_token: "is_token host \<Longrightarrow> is_token (entry_of host p)"
  using show_int_is_token [of p] by (auto simp: is_token_def entry_of_def isspace_def)

lemma valid_entry_token: "valid_entry e \<Longrightarrow> is_token e"
  using entry_token by (auto simp: valid_entry_def)

lemma first_word_token: "is_token e \<Longrightarrow> first_word e = e"
  using tok.extract_at [of e "[]"] by (simp add: first_word_def)

lemma first_word_Nil: "first_word [] = []"
  by (simp add: first_word_def tok.extract_end)

lemma getlines_or_blank:
  assumes "\<forall>e \<in> set es. is_token e"
  shows "getlines NL (or_blank (lines_of es)) = (if es = [] then [[]] else es)"
proof (cases "es = []")
  case True
  then show ?thesis using getlines_line [of NL "[]" "[]"] by (simp add: or_blank_def getlines.simps)
next
  case False
  then have "or_blank (lines_of es) = lines_of es" by (cases es) (simp_all add: or_blank_def)
  moreover have "\<forall>e \<in> set es. NL \<notin> set e" using assms token_no_break by blast
  ultimately show ?thesis using False getlines_concat [of es NL] by simp
qed

lemma command_good: "good_line ''GET_PEERS''" "is_token ''GET_PEERS''"
  by (simp_all add: good_line_def is_token_def isspace_def)

lemma getPeers_tracker:
  assumes "segments seg" "resolve (ip ep) \<noteq> None"
  shows "getPeers (tracker_net resolve seg now now') st ep =
    (collect_endpoints first_word (getlines NL (fst (handle_get_peers now now' st))), snd (handle_get_peers now now' st))"
proof -
  have "read_token [] (istringstream ''GET_PEERS'') = (''GET_PEERS'', istringstream [])"
    using tok.extract_at [OF command_good(2), of "[]"] by simp
  from requestLine_tracker [where seg = seg and resolve = resolve, OF assms command_good(1) this, of now now' st] show ?thesis
    by (simp add: getPeers_def tracker_command_def)
qed

text \<open>
  C34: \<^verbatim>\<open>TrackerClient::getPeers\<close> returns the peers seen in the last 30 seconds, each once,
  however TCP cuts the answer up, as long as no registered host contains a colon.
\<close>

theorem getPeers_returns_alive:
  assumes "segments seg" "resolve (ip ep) \<noteq> None" "tracker_inv t st" "now \<le> now'"
    "\<forall>e. fresh now' (seen st e) \<longrightarrow> plain_entry e"
  shows "\<exists>eps st'. getPeers (tracker_net resolve seg now now') st ep = (Inr eps, st')
    \<and> distinct eps \<and> entry_text ` set eps = {e. fresh now' (seen st e)}"
proof -
  obtain es where es: "handle_get_peers now now' st = (or_blank (lines_of es), prune_stale_and_cleanup TTL now' st)"
      "distinct es" "set es = {e. fresh now' (seen st e)}" "\<forall>e \<in> set es. valid_entry e"
    using get_peers_lines [OF assms(3,4)] by blast
  have tok: "\<forall>e \<in> set es. is_token e" using es(4) valid_entry_token by blast
  have plain: "\<forall>e \<in> set es. plain_entry e" using es(3) assms(5) by blast
  obtain eps where eps: "collect_endpoints first_word es = Inr eps" "map entry_text eps = es"
    using collect_plain [OF plain] tok first_word_token by blast
  have "collect_endpoints first_word (getlines NL (or_blank (lines_of es))) = Inr eps"
    using eps getlines_or_blank [OF tok] first_word_Nil by (cases "es = []") auto
  moreover have "distinct eps" using eps(2) es(2) by (metis distinct_map)
  moreover have "entry_text ` set eps = {e. fresh now' (seen st e)}" using eps(2) es(3) by (metis set_map)
  ultimately show ?thesis using getPeers_tracker [where seg = seg and resolve = resolve, OF assms(1,2), of now now' st] es(1) by simp
qed

text \<open>A tracker at hand, and what \<^verbatim>\<open>inet_pton\<close> makes of its name.\<close>

definition sample_resolve :: "string \<Rightarrow> u32 option" where
  "sample_resolve host = (if host = ''t'' then Some 1 else None)"

lemma sample_segments: "segments (\<lambda>b. if b = [] then [] else [Data b])"
  by (simp add: segments_def)

lemma sample_tracker_inv: "tracker_inv 7 sample_tracker"
proof -
  obtain es where "tracker_run (0, empty_tracker) es (7, sample_tracker)" using sample_run by blast
  then show ?thesis using tracker_inv_run tracker_inv_empty by fastforce
qed

lemma sample_fresh: "fresh 8 (seen sample_tracker e) \<longleftrightarrow> e = entry_of ''h'' 7"
  by (auto simp: fresh_def seen_def sample_tracker_def TTL_def)

theorem getPeers_returns_alive_witness:
  "\<exists>eps st'. getPeers (tracker_net sample_resolve (\<lambda>b. if b = [] then [] else [Data b]) 8 8) sample_tracker
      \<lparr>ip = ''t'', port = 9000\<rparr> = (Inr eps, st') \<and> distinct eps \<and> entry_text ` set eps = {entry_of ''h'' 7}"
proof -
  have "plain_entry (entry_of ''h'' 7)" unfolding plain_entry_def
    by (intro exI [of _ "''h''"] exI [of _ "7 :: int"]) (simp add: is_token_def isspace_def)
  moreover have "sample_resolve (ip \<lparr>ip = ''t'', port = 9000\<rparr>) \<noteq> None" by (simp add: sample_resolve_def)
  ultimately show ?thesis
    using getPeers_returns_alive [where resolve = sample_resolve, OF sample_segments _ sample_tracker_inv, of "\<lparr>ip = ''t'', port = 9000\<rparr>" 8 8]
    by (simp add: sample_fresh)
qed

section \<open>A host with a colon\<close>

lemma collect_throws:
  "e \<in> set es \<Longrightarrow> f e \<noteq> [] \<Longrightarrow> split_endpoint (f e) = Inl err \<Longrightarrow> \<exists>err'. collect_endpoints f es = Inl err'"
proof (induction es)
  case (Cons x es)
  show ?case
  proof (cases "f x = []")
    case True
    then show ?thesis using Cons by auto
  next
    case False
    show ?thesis
    proof (cases "split_endpoint (f x)")
      case (Inr r)
      then have "e \<in> set es" using Cons.prems by auto
      then show ?thesis using Cons False Inr by auto
    qed (use False in simp)
  qed
qed simp

lemma split_colon_host:
  assumes "CHR '':'' \<notin> set a" "\<not> isdigit c" "c \<noteq> CHR ''+''" "c \<noteq> CHR ''-''" "\<not> isspace c"
  shows "split_endpoint (a @ CHR '':'' # c # r) = Inl (Invalid_argument ''stoi'')"
proof -
  have "takeWhile (\<lambda>x. x \<noteq> CHR '':'') (a @ CHR '':'' # c # r) = a" using assms(1) by (auto simp: takeWhile_tail)
  then show ?thesis using assms(2-5) by (simp add: split_endpoint_def stoi_def scan_int_def)
qed

text \<open>
  One registration can blind every client: \<^verbatim>\<open>REGISTER\<close> accepts any word as a host, and
  if it has a colon that no number follows (any IPv6 address such as \<^verbatim>\<open>fe80::1\<close>), then for
  30 seconds every \<^verbatim>\<open>getPeers\<close> ends in the exception of \<^verbatim>\<open>std::stoi\<close>.
\<close>

theorem colon_host_breaks_getPeers:
  assumes "segments seg" "resolve (ip ep) \<noteq> None" "tracker_inv t st" "t \<le> now" "1 \<le> p" "p \<le> 65535"
    "host = a @ CHR '':'' # c # r" "is_token host" "CHR '':'' \<notin> set a" "\<not> isdigit c" "c \<noteq> CHR ''+''" "c \<noteq> CHR ''-''"
    "handle_register (istringstream (SP # host @ SP # show_int p)) now st = (answer, st1)"
    "now \<le> now1" "now1 \<le> now2" "now2 \<le> now + TTL"
  shows "answer = OK_line \<and> (\<exists>e. fst (getPeers (tracker_net resolve seg now1 now2) st1 ep) = Inl e)"
proof -
  let ?e = "entry_of host p"
  have st1: "answer = OK_line" "st1 = st\<lparr>tk_peers := AList.update ?e \<lparr>last_seen = now\<rparr> (tk_peers st)\<rparr>"
    using assms(13) register_seen [OF assms(8,5,6)] by simp_all
  have "valid_entry ?e" using assms(5,6,8) by (auto simp: valid_entry_def)
  then have inv1: "tracker_inv now st1"
    using assms(3,4) good_peers_update [of t "tk_peers st" now ?e] by (simp add: tracker_inv_def st1(2))
  obtain es where es: "handle_get_peers now1 now2 st1 = (or_blank (lines_of es), prune_stale_and_cleanup TTL now2 st1)"
      "set es = {e. fresh now2 (seen st1 e)}" "\<forall>e \<in> set es. valid_entry e"
    using get_peers_lines [OF inv1 assms(15)] by blast
  have e: "?e \<in> set es" using assms(16) by (simp add: es(2) st1(2) seen_refresh fresh_def)
  have tok: "\<forall>e \<in> set es. is_token e" using es(3) valid_entry_token by blast
  have "\<not> isspace c" using assms(7,8) by (simp add: is_token_def)
  then have "split_endpoint ?e = Inl (Invalid_argument ''stoi'')"
    using split_colon_host [OF assms(9-12), of "r @ CHR '':'' # show_int p"] by (simp add: entry_of_def assms(7))
  moreover have "first_word ?e = ?e" "?e \<noteq> []" using first_word_token tok e by (auto simp: entry_of_def)
  ultimately obtain err where "collect_endpoints first_word es = Inl err" using collect_throws [OF e, of first_word] by auto
  moreover have "getlines NL (or_blank (lines_of es)) = es" using getlines_or_blank [OF tok] e by auto
  ultimately show ?thesis
    using st1(1) getPeers_tracker [where seg = seg and resolve = resolve, OF assms(1,2), of now1 now2 st1] es(1) by simp
qed

theorem colon_host_breaks_getPeers_witness:
  "\<exists>st1 e. handle_register (istringstream (SP # ''fe80::1'' @ SP # show_int 7)) 8 sample_tracker = (OK_line, st1)
    \<and> fst (getPeers (tracker_net sample_resolve (\<lambda>b. if b = [] then [] else [Data b]) (8 + TTL) (8 + TTL)) st1
        \<lparr>ip = ''t'', port = 9000\<rparr>) = Inl e"
proof -
  have tok: "is_token ''fe80::1''" by (simp add: is_token_def isspace_def)
  have r: "sample_resolve (ip \<lparr>ip = ''t'', port = 9000\<rparr>) \<noteq> None" by (simp add: sample_resolve_def)
  note reg = register_seen [OF tok, of 7 8 sample_tracker]
  note colon_host_breaks_getPeers [where resolve = sample_resolve and a = "''fe80''" and c = "CHR '':''" and r = "''1''",
      OF sample_segments r sample_tracker_inv _ _ _ _ tok _ _ _ _ reg, of "8 + TTL" "8 + TTL"]
  then show ?thesis using reg by (auto simp: TTL_def isdigit_def)
qed

section \<open>Announcing and asking\<close>

lemma announce_tracker:
  assumes "segments seg" "resolve (ip ep) \<noteq> None" "is_token k" "is_token host" "length k \<le> 4000" "length host \<le> 4000"
    "1 \<le> p" "p \<le> 65535"
  shows "announceChunk (tracker_net resolve seg now now') st ep k host p = add_location k (entry_of host p) st"
proof -
  let ?l = "''ANNOUNCE'' @ SP # k @ SP # host @ SP # show_int p"
  have n: "length (show_int p) \<le> 20" "NL \<notin> set (show_int p)" "CR \<notin> set (show_int p)"
    using show_nat_short [of "nat p"] token_no_break [OF show_int_is_token, of p] assms(7,8) by (simp_all add: show_int_def)
  have l: "good_line ?l"
    using n assms(5,6) token_no_break [OF assms(3)] token_no_break [OF assms(4)] by (simp add: good_line_def)
  have c: "is_token ''ANNOUNCE''" by (simp add: is_token_def isspace_def)
  then have "read_token [] (istringstream ?l) = (''ANNOUNCE'', istringstream (SP # k @ SP # host @ SP # show_int p))"
    by (rule tok.extract_at) simp
  from requestLine_tracker [where seg = seg and resolve = resolve, OF assms(1,2) l this, of now now' st]
  show ?thesis
    using announce_added [OF assms(3,4,7,8), of now st] by (simp add: announceChunk_def tracker_command_def)
qed

lemma whereChunk_tracker:
  assumes "segments seg" "resolve (ip ep) \<noteq> None" "is_token k" "length k \<le> 8000"
  shows "whereChunk (tracker_net resolve seg now now') st ep k =
    (collect_endpoints (\<lambda>l. l) (getlines NL (fst (handle_where (istringstream (SP # k)) now st))), st)"
proof -
  have c: "is_token ''WHERE''" by (simp add: is_token_def isspace_def)
  have l: "good_line (''WHERE'' @ SP # k)" using token_no_break [OF assms(3)] assms(4) by (simp add: good_line_def)
  have "read_token [] (istringstream (''WHERE'' @ SP # k)) = (''WHERE'', istringstream (SP # k))"
    by (rule tok.extract_at [OF c]) simp
  from requestLine_tracker [where seg = seg and resolve = resolve, OF assms(1,2) l this, of now now' st]
  show ?thesis
    by (simp add: whereChunk_def tracker_command_def where_state)
qed

text \<open>
  After \<^verbatim>\<open>announceChunk\<close> of a live peer, \<^verbatim>\<open>whereChunk\<close> returns that peer along with
  the live peers that were known to have the chunk, and nothing else.
\<close>

theorem announce_then_where:
  assumes "segments seg" "resolve (ip ep) \<noteq> None" "tracker_inv t st" "is_token k" "is_token host"
    "CHR '':'' \<notin> set host" "length k \<le> 4000" "length host \<le> 4000" "1 \<le> p" "p \<le> 65535"
    "fresh now2 (seen st (entry_of host p))" "\<forall>e \<in> locations st k. plain_entry e"
    "announceChunk (tracker_net resolve seg now now') st ep k host p = st1"
  shows "\<exists>eps. whereChunk (tracker_net resolve seg now2 now2') st1 ep k = (Inr eps, st1) \<and> distinct eps
    \<and> \<lparr>ip = host, port = p\<rparr> \<in> set eps \<and> entry_text ` set eps = insert (entry_of host p) (live_locations st now2 k)"
proof -
  let ?e = "entry_of host p"
  have st1: "st1 = add_location k ?e st"
    using assms(13) announce_tracker [where seg = seg and resolve = resolve, OF assms(1,2,4,5,7,8,9,10)] by simp
  have "valid_entry ?e" using assms(5,9,10) by (auto simp: valid_entry_def)
  then have inv1: "tracker_inv t st1" unfolding st1 by (rule tracker_inv_add_location [OF assms(3,4)])
  obtain es where es: "handle_where (istringstream (SP # k)) now2 st1 = (or_blank (lines_of es), st1)"
      "distinct es" "set es = {e \<in> locations st1 k. fresh now2 (seen st1 e)}"
    using where_lines [OF inv1 assms(4)] by blast
  have set_es: "set es = insert ?e (live_locations st now2 k)"
    using assms(11) by (auto simp: es(3) st1 locations_add live_locations_def)
  have "plain_entry ?e" using assms(5,6,9,10) by (auto simp: plain_entry_def)
  then have plain: "\<forall>e \<in> set es. plain_entry e" using assms(12) by (auto simp: set_es live_locations_def)
  then have tok: "\<forall>e \<in> set es. is_token e" using entry_token by (fastforce simp: plain_entry_def)
  obtain eps where eps: "collect_endpoints (\<lambda>l. l) es = Inr eps" "map entry_text eps = es"
    using collect_plain [OF plain, of "\<lambda>l. l"] by auto
  have coll: "collect_endpoints (\<lambda>l. l) (getlines NL (or_blank (lines_of es))) = Inr eps"
    using eps getlines_or_blank [OF tok] by (cases "es = []") auto
  have mem: "\<lparr>ip = host, port = p\<rparr> \<in> set eps"
  proof -
    have "?e \<in> set es" "?e \<noteq> []" by (simp_all add: set_es entry_of_def)
    moreover have "split_endpoint ?e = Inr (Some \<lparr>ip = host, port = p\<rparr>)"
      using split_entry [OF assms(6)] assms(9,10) by (simp add: in_int_range_def)
    ultimately show ?thesis using collect_member [OF eps(1), of ?e] by simp
  qed
  have "distinct eps" "entry_text ` set eps = set es" using eps(2) es(2) by (metis distinct_map) (metis eps(2) set_map)
  then show ?thesis
    using mem coll es(1) set_es whereChunk_tracker [where seg = seg and resolve = resolve, OF assms(1,2,4), of now2 now2' st1] assms(7)
    by (intro exI [of _ eps]) simp
qed

theorem announce_then_where_witness:
  "\<exists>eps. whereChunk (tracker_net sample_resolve (\<lambda>b. if b = [] then [] else [Data b]) 8 8)
      (announceChunk (tracker_net sample_resolve (\<lambda>b. if b = [] then [] else [Data b]) 7 7) sample_tracker
         \<lparr>ip = ''t'', port = 9000\<rparr> ''d'' ''h'' 7) \<lparr>ip = ''t'', port = 9000\<rparr> ''d''
    = (Inr eps, announceChunk (tracker_net sample_resolve (\<lambda>b. if b = [] then [] else [Data b]) 7 7) sample_tracker
         \<lparr>ip = ''t'', port = 9000\<rparr> ''d'' ''h'' 7) \<and> \<lparr>ip = ''h'', port = 7\<rparr> \<in> set eps"
proof -
  have r: "sample_resolve (ip \<lparr>ip = ''t'', port = 9000\<rparr>) \<noteq> None" by (simp add: sample_resolve_def)
  have tok: "is_token ''d''" "is_token ''h''" by (simp_all add: is_token_def isspace_def)
  have loc: "\<forall>e \<in> locations sample_tracker ''d''. plain_entry e" by (simp add: locations_def sample_tracker_def)
  have fr: "fresh 8 (seen sample_tracker (entry_of ''h'' 7))" by (simp add: sample_fresh)
  show ?thesis
    using announce_then_where [where resolve = sample_resolve and st = sample_tracker and now = 7 and now' = 7 and now2' = 8,
        OF sample_segments r sample_tracker_inv tok _ _ _ _ _ fr loc refl] by auto
qed

section \<open>Repair lists\<close>

lemma read_ids_row:
  assumes "is_token k" "in_int_range n"
  shows "read_ids (istringstream (k @ SP # show_int n @ NL # t)) = k # read_ids (istringstream (NL # t))"
proof -
  have "read_token [] (istringstream (k @ SP # show_int n @ NL # t)) = (k, istringstream (SP # show_int n @ NL # t))"
    by (rule tok.extract_at [OF assms(1)]) simp
  moreover have "read_int 0 (istringstream (SP # show_int n @ NL # t)) = (n, istringstream (NL # t))"
    by (rule intc.extract_after_space [OF assms(2)]) simp_all
  ultimately show ?thesis using assms(1) by (subst read_ids.simps) (simp add: is_token_def)
qed

lemma read_ids_space: "read_ids (istringstream (NL # t)) = read_ids (istringstream t)"
  by (simp add: read_ids.simps [of "istringstream (NL # t)"] read_ids.simps [of "istringstream t"] tok.extract_space)

lemma read_ids_Nil: "read_ids (istringstream []) = []"
  by (subst read_ids.simps) (simp add: tok.extract_end intc.extract_failed)

lemma read_ids_rows:
  "\<forall>(k, n) \<in> set rows. is_token k \<and> in_int_range (int n) \<Longrightarrow>
   read_ids (istringstream (concat (map (\<lambda>(k, n). k @ SP # show_int (int n) @ [NL]) rows))) = map fst rows"
proof (induction rows)
  case (Cons r rows)
  then show ?case by (cases r) (simp add: read_ids_row read_ids_space)
qed (simp add: read_ids_Nil)

text \<open>
  \<^verbatim>\<open>TrackerClient::needRepair d l\<close> gets exactly the chunk ids the tracker selected: at
  most \<open>l\<close>, each once, each with between 1 and \<open>d - 1\<close> live locations, and all of these
  chunks when there are fewer than \<open>l\<close>.
\<close>

theorem needRepair_ids:
  assumes "segments seg" "resolve (ip ep) \<noteq> None" "tracker_run (t0, empty_tracker) es (t, st)"
    "in_int_range d" "in_int_range l" "0 < d" "0 < l"
  shows "\<exists>ids st'. needRepair (tracker_net resolve seg now now') st ep d l = (Inr ids, st')
    \<and> distinct ids \<and> length ids \<le> nat l
    \<and> set ids \<subseteq> {k. 0 < card (live_locations st now k) \<and> int (card (live_locations st now k)) < d}
    \<and> (length ids < nat l \<longrightarrow>
        set ids = {k. 0 < card (live_locations st now k) \<and> int (card (live_locations st now k)) < d})"
proof -
  let ?args = "SP # show_int d @ SP # show_int l"
  let ?needy = "{k. 0 < card (live_locations st now k) \<and> int (card (live_locations st now k)) < d}"
  obtain rows where rows: "fst (handle_need_repair (istringstream ?args) now st)
        = or_blank (concat (map (\<lambda>(k, n). k @ SP # show_int (int n) @ [NL]) rows))"
      "distinct (map fst rows)" "length rows \<le> nat l"
      "\<forall>(k, n) \<in> set rows. n = card (live_locations st now k) \<and> 0 < n \<and> int n < d"
      "length rows < nat l \<longrightarrow> (\<forall>k. 0 < card (live_locations st now k) \<and> int (card (live_locations st now k)) < d
          \<longrightarrow> k \<in> fst ` set rows)"
    using need_repair_rows [OF assms(3-7), of now] by blast
  have inv: "tracker_inv t st" using tracker_inv_run [OF assms(3)] tracker_inv_empty by simp
  have "is_token k \<and> in_int_range (int n)" if kn: "(k, n) \<in> set rows" for k n
  proof -
    have n: "n = card (live_locations st now k)" "0 < n" "int n < d" using rows(4) kn by auto
    then have "locations st k \<noteq> {}" by (auto simp: live_locations_def)
    then obtain locs where "map_of (tk_index st) k = Some locs" by (auto simp: locations_def split: option.splits)
    then have "is_token k" using inv good_index_lookup [of "tk_index st" k locs] by (simp add: tracker_inv_def good_locs_def)
    then show ?thesis using n assms(4) by (simp add: in_int_range_def)
  qed
  then have ids: "read_ids (istringstream (or_blank (concat (map (\<lambda>(k, n). k @ SP # show_int (int n) @ [NL]) rows)))) = map fst rows"
    using read_ids_rows [of rows] read_ids_space [of "[]"] read_ids_Nil by (cases rows) (auto simp: or_blank_def)
  have len: "length (show_int x) \<le> 20" "NL \<notin> set (show_int x)" "CR \<notin> set (show_int x)" if "in_int_range x" "0 < x" for x
    using show_nat_short [of "nat x"] token_no_break [OF show_int_is_token, of x] that by (simp_all add: show_int_def in_int_range_def)
  have l: "good_line (''NEED_REPAIR'' @ ?args)"
    using len [OF assms(4,6)] len [OF assms(5,7)] by (simp add: good_line_def)
  have c: "is_token ''NEED_REPAIR''" by (simp add: is_token_def isspace_def)
  have "read_token [] (istringstream (''NEED_REPAIR'' @ ?args)) = (''NEED_REPAIR'', istringstream ?args)"
    by (rule tok.extract_at [OF c]) simp
  from requestLine_tracker [where seg = seg and resolve = resolve, OF assms(1,2) l this, of now now' st]
  have "needRepair (tracker_net resolve seg now now') st ep d l
      = (Inr (map fst rows), snd (handle_need_repair (istringstream ?args) now st))"
    using rows(1) ids by (simp add: needRepair_def tracker_command_def)
  moreover have "set (map fst rows) \<subseteq> ?needy" using rows(4) by auto
  moreover have "set (map fst rows) = ?needy" if "length rows < nat l"
    using that rows(5) calculation(2) by auto
  ultimately show ?thesis using rows(2,3) by (intro exI conjI) (assumption | simp)+
qed

theorem needRepair_ids_witness:
  "\<exists>st'. needRepair (tracker_net sample_resolve (\<lambda>b. if b = [] then [] else [Data b]) 8 8) sample_tracker
     \<lparr>ip = ''t'', port = 9000\<rparr> 2 10 = (Inr [''c''], st')"
proof -
  have r: "sample_resolve (ip \<lparr>ip = ''t'', port = 9000\<rparr>) \<noteq> None" by (simp add: sample_resolve_def)
  obtain es where run: "tracker_run (0, empty_tracker) es (7, sample_tracker)" using sample_run by blast
  have needy: "{k. 0 < card (live_locations sample_tracker 8 k) \<and> int (card (live_locations sample_tracker 8 k)) < 2} = {''c''}"
    by (auto simp: sample_live split: if_splits)
  have i: "in_int_range 2" "in_int_range 10" by (simp_all add: in_int_range_def)
  obtain ids st' where ids: "needRepair (tracker_net sample_resolve (\<lambda>b. if b = [] then [] else [Data b]) 8 8) sample_tracker
     \<lparr>ip = ''t'', port = 9000\<rparr> 2 10 = (Inr ids, st')" "distinct ids" "set ids \<subseteq> {''c''}" "length ids < nat 10 \<longrightarrow> set ids = {''c''}"
    using needRepair_ids [where resolve = sample_resolve, OF sample_segments r run i, of 8 8] unfolding needy by auto
  have "length ids \<le> 1" using distinct_card [OF ids(2)] card_mono [OF _ ids(3)] by simp
  then have "set ids = {''c''}" using ids(4) by simp
  then have "ids = [''c'']" using \<open>length ids \<le> 1\<close> by (cases ids) auto
  then show ?thesis using ids(1) by blast
qed

end
