(* ===== verification/Spec2Isabelle.thy ===== *)
theory Spec2Isabelle
  imports Window_Display Encrypted_Files Peer_Main Tracker_Client
begin

text \<open>
  A model of Decent Store, a decentralised chunk store in C++, with the theorems that make it
  correct. Source files are named relative to \<^verbatim>\<open>src/src/\<close>.

  \<^bold>\<open>The program.\<close> Peers (\<^verbatim>\<open>peer/main.cpp\<close>, \<^verbatim>\<open>core/peer/peer_service.cpp\<close>) keep chunks and manifests
  in a directory (\<^verbatim>\<open>core/storage\<close>) and serve one TCP request at a time. A client
  (\<^verbatim>\<open>core/dss/dss_client.cpp\<close>) cuts a file into chunks (\<^verbatim>\<open>core/chunk\<close>), optionally encrypts them
  (\<^verbatim>\<open>core/crypto\<close>), places them on the peers whose Kademlia ids are closest to the hash of the
  chunk (\<^verbatim>\<open>core/dht\<close>), and publishes a manifest (\<^verbatim>\<open>core/manifest\<close>) under its own hash; the share id
  is that hash. Downloads go the other way and check every hash. The command line client
  (\<^verbatim>\<open>client/main.cpp\<close>) and the graphical one (\<^verbatim>\<open>client/dss_worker.cpp\<close>, \<^verbatim>\<open>client/main_window.cpp\<close>)
  drive the same class. The tracker (\<^verbatim>\<open>tracker/main.cpp\<close>, \<^verbatim>\<open>core/tracker\<close>) is an older registry of
  peers and chunk locations.

  \<^bold>\<open>Conventions.\<close> A function that may throw returns a sum whose left side is the exception;
  a stateful operation takes its state and returns the new one, on error paths too. Strings and
  byte buffers are lists of characters, \<^verbatim>\<open>size_t\<close> and \<^verbatim>\<open>uint64_t\<close> are 64-bit words, \<^verbatim>\<open>int\<close> is
  \<open>int\<close> with its range written out where the code depends on it: the casts of a \<^verbatim>\<open>size_t\<close> to
  \<^verbatim>\<open>int\<close> are \<open>int_of_size\<close>, which wraps at \<open>2 ^ 32\<close>, and the progress counter is stepped by
  \<open>int_succ\<close>. Hash maps are association lists whose order is the order of iteration, and
  theorems hold for every order.

  \<^bold>\<open>Theories.\<close>
  \<^item> \<open>Prelude\<close>, \<open>Iostream\<close>, \<open>Hex_Format\<close>, \<open>Filesystem\<close>, \<open>Connection\<close>: the result monad, extraction
    from streams, number conversions, hexadecimal text, the disk, an accepted connection; the
    locales \<open>field_codec\<close>, \<open>hex_codec\<close> and \<open>strict_order_on\<close>.
  \<^item> \<open>Crypto\<close>: \<^verbatim>\<open>shq256.cpp\<close> and \<^verbatim>\<open>hybrid.cpp\<close>. Round trip of AES-GCM, for chunks whose length fits
    an \<^verbatim>\<open>int\<close>, and of the wrapped key, nonces by index, and how often each handle is freed.
  \<^item> \<open>Kademlia\<close>: \<^verbatim>\<open>kademlia_id.cpp\<close>, \<^verbatim>\<open>kademlia_routing_table.cpp\<close>, \<^verbatim>\<open>dht_node.cpp\<close>. The XOR metric, the
    table as a map, the closest nodes, placement for fewer replicas as a prefix of that for more.
  \<^item> \<open>Storage_Manager\<close>, \<open>Chunk_Store\<close>: \<^verbatim>\<open>storage_manager.cpp\<close>. Accounting and disk invariants of every
    operation, eviction of the least recently used, restart and rebuild, and the contract
    \<open>chunk_store\<close>, which the peer service uses.
  \<^item> \<open>Manifest\<close>: \<^verbatim>\<open>chunker.cpp\<close> and \<^verbatim>\<open>manifest.cpp\<close>. Chunks partition a file; the parser inverts the
    serializer, except for names with white space.
  \<^item> \<open>Tcp\<close>, \<open>Endpoint_Parse\<close>: \<^verbatim>\<open>tcp.cpp\<close>, \<^verbatim>\<open>peer_endpoint_parse.cpp\<close>. Independence of segmentation.
  \<^item> \<open>Peer_Service\<close>, \<open>Peer_Main\<close>: the request handlers, the accept loop, \<^verbatim>\<open>runLoop\<close> and the peer
    program. Read your writes over the wire and across a restart.
  \<^item> \<open>Peer_Lifecycle\<close>, \<open>Embedded_Peer\<close>: the owner thread, the worker thread and other threads of the
    process as an interleaving of statements, with an \<^verbatim>\<open>accept\<close> that blocks until a client comes or
    the socket is shut down; what \<^verbatim>\<open>stop\<close> leaves in each case, that it ends unless a client keeps
    it, and its abstraction to the object the owner sees.
  \<^item> \<open>Peer_Client\<close>, \<open>Dss_Client\<close>, \<open>Encrypted_Files\<close>: the calls to a peer, \<^verbatim>\<open>putFile\<close>, \<^verbatim>\<open>getFile\<close>. Integrity
    against arbitrary peers (what comes back is what was put, or the two runs exhibit a collision
    of SHA-256), what a failed download leaves, which encrypted files can be read.
  \<^item> \<open>Replication\<close>, \<open>Cluster\<close>, \<open>Live_Cluster\<close>, \<open>End_To_End\<close>: success of uploads and downloads. The
    locales \<open>peer_rpc\<close> and \<open>crashing_peers\<close> state what the client needs of its peers; they are
    interpreted on the model of the peer service behind a network that cuts messages at will.
  \<^item> \<open>Cli\<close>: the command line and the worker of the graphical client.
  \<^item> \<open>Main_Window\<close>, \<open>Window_Session\<close>, \<open>Window_Peers\<close>: the logic of the window: settings, discovery,
    the embedded peer, requests and answers, and whole sessions of events.
  \<^item> \<open>Window_Worker\<close>: the window's event loop and the worker's thread with the queues between them
    (\<^verbatim>\<open>client/dss_worker.h\<close>, the connections of \<^verbatim>\<open>client/main_window.cpp\<close>). The locale \<open>worker\<close> states
    that a slot ends with one final signal; interpreted on the model of \<open>DssWorker\<close> it gives that
    requests are answered in order and that the client comes to rest.
  \<^item> \<open>Window_Display\<close>: the progress reports of \<^verbatim>\<open>putFile\<close> and \<^verbatim>\<open>getFile\<close>, and what the window shows: the
    calls its slots make on the progress bar, the log, the labels and the message boxes. In every
    interleaving the bar is visible only while work is under way, and its values stay in its range
    as long as the transfers have fewer than \<open>2 ^ 32\<close> chunks.
  \<^item> \<open>Tracker\<close>, \<open>Tracker_Client\<close>: the tracker as a state machine with time, and its client.

  \<^bold>\<open>Parameters and hypotheses.\<close> OpenSSL, the kernel's sockets, the operating system's answers to
  file operations, the clock of the tracker and Qt are arguments. What is documented of them is a
  named hypothesis where a theorem needs it: \<open>digest32\<close> (digests have 32 bytes), \<open>gcm_documented\<close>
  (AES-GCM, for the lengths an \<^verbatim>\<open>int\<close> can say), \<open>rsa_pair\<close>, \<open>segments\<close> (TCP delivers the bytes in
  order), \<open>qt_documented\<close>. Integrity needs no assumption on SHA-256: its conclusion names the
  \<open>collision\<close> as the other case. Where a download is to succeed, the texts that occur are assumed
  to have different digests: \<open>no_collision\<close> of the manifest, the file's chunks and what the peers'
  files hold, a finite set in each use, never all strings. \<open>nonce_bound\<close> likewise asks of the
  cipher only that no ciphertext of the chunks at hand opens under the nonce of another one.
  Every theorem with hypotheses is followed by a closed instance.

  \<^bold>\<open>Loops.\<close> No fuel is used. Loops over data are structural or have a measure (the eviction loop:
  the number of entries; the chunker: the bytes left). The accept loops of the servers, which have
  no end of their own, run over a list of accepted connections, and the theorems quantify over all
  lists. The life cycle of the service and the two threads of the graphical client are
  step relations. That \<^verbatim>\<open>stop\<close> ends is shown with a measure bounded by 14, unless the client being
  served goes on for ever or the worker waits on a descriptor number another thread had reused;
  that the graphical client comes to rest is shown with a measure too. A slot of the worker is one step of its thread: the window sees only the signals it has queued.

  \<^bold>\<open>Not modelled.\<close> Building the Qt widgets and their layout, the file dialogs behind the browse
  buttons, and \<^verbatim>\<open>client/main_gui.cpp\<close>, which only starts Qt. The code that CMake and the Qt meta object
  compiler generate under \<^verbatim>\<open>build/\<close>. A write that fails half way (a full disk), two path strings for
  one file, the signal a peer that closes early may raise in \<^verbatim>\<open>send\<close>,
  and the nested event loop of a modal message box (the events it delivers are taken to come after). Creating the listening
  socket of the tracker. Parallel requests do not occur: each server handles one at a time.
\<close>

end
